(* ===== verification/Ziqa_Prelude.thy ===== *)
theory Ziqa_Prelude
  imports Main "HOL-Library.Word"
begin

text \<open>
  The prelude of the development: the machine-integer types of the kernel, the Rust
  arithmetic the sources use (\<open>saturating_sub\<close>, \<open>saturating_add\<close>, \<open>checked_add\<close>,
  \<open>checked_mul\<close>), the kernel's error type \<open>AbiError\<close>, slot search in fixed arrays
  (\<open>iter().position\<close>, \<open>iter_mut().enumerate()\<close> with a first match), bytes of
  little-endian words, and the index arithmetic of ring buffers.
  A \<open>usize\<close> that only indexes or counts elements that exist in memory is a \<open>nat\<close>;
  every other machine integer keeps its width.
\<close>

unbundle bit_operations_syntax

section \<open>Machine integers\<close>

type_synonym u8 = "8 word"
type_synonym u16 = "16 word"
type_synonym u32 = "32 word"
type_synonym u64 = "64 word"
type_synonym bytes = "8 word list"

definition saturating_sub :: "'a::len word \<Rightarrow> 'a word \<Rightarrow> 'a word" where
  "saturating_sub a b = (if b \<le> a then a - b else 0)"

definition saturating_add :: "'a::len word \<Rightarrow> 'a word \<Rightarrow> 'a word" where
  "saturating_add a b = (if unat a + unat b < 2 ^ LENGTH('a) then a + b else - 1)"

definition checked_add :: "'a::len word \<Rightarrow> 'a word \<Rightarrow> 'a word option" where
  "checked_add a b = (if unat a + unat b < 2 ^ LENGTH('a) then Some (a + b) else None)"

definition checked_sub :: "'a::len word \<Rightarrow> 'a word \<Rightarrow> 'a word option" where
  "checked_sub a b = (if b \<le> a then Some (a - b) else None)"

definition checked_mul :: "'a::len word \<Rightarrow> 'a word \<Rightarrow> 'a word option" where
  "checked_mul a b = (if unat a * unat b < 2 ^ LENGTH('a) then Some (a * b) else None)"

lemma unat_add_nowrap:
  fixes a b :: "'a::len word"
  assumes "unat a + unat b < 2 ^ LENGTH('a)"
  shows "unat (a + b) = unat a + unat b"
  using assms by (simp add: unat_word_ariths)

lemma unat_mult_nowrap:
  fixes a b :: "'a::len word"
  shows "unat a * unat b < 2 ^ LENGTH('a) \<Longrightarrow> unat (a * b) = unat a * unat b"
  by (simp add: unat_mult_lem)

lemma unat_sub_le: "b \<le> a \<Longrightarrow> unat (a - b) = unat a - unat (b :: 'a::len word)"
  by (simp add: unat_sub word_le_nat_alt)

lemma unat_Suc_nowrap:
  fixes a :: "'a::len word"
  assumes "unat a + 1 < 2 ^ LENGTH('a)"
  shows "unat (a + 1) = Suc (unat a)"
proof -
  have "unat (a + 1) = (unat a + unat (1 :: 'a word)) mod 2 ^ LENGTH('a)"
    by (rule unat_word_ariths)
  with assms show ?thesis by simp
qed

lemma unat_of_nat_small:
  "n < 2 ^ LENGTH('a) \<Longrightarrow> unat (of_nat n :: 'a::len word) = n"
  by (simp add: unat_of_nat take_bit_nat_eq_self)

lemma less_Suc_word:
  fixes a :: "'a::len word"
  assumes "unat a + 1 < 2 ^ LENGTH('a)"
  shows "a < a + 1"
  using unat_Suc_nowrap[OF assms] by (simp add: word_less_nat_alt)

lemma unat_saturating_sub: "unat (saturating_sub a b) = unat a - unat b"
  by (auto simp: saturating_sub_def unat_sub_le word_le_nat_alt not_le)

lemma checked_add_Some:
  "checked_add a b = Some c \<Longrightarrow> unat c = unat a + unat b"
  by (auto simp: checked_add_def unat_add_nowrap split: if_splits)

lemma checked_sub_Some:
  "checked_sub a b = Some c \<Longrightarrow> unat c = unat a - unat b \<and> unat b \<le> unat a"
  by (auto simp: checked_sub_def unat_sub_le word_le_nat_alt split: if_splits)

section \<open>Errors\<close>

datatype abi_error =
    UnknownFormat
  | ParseError
  | OutOfMemory
  | UnsupportedSyscall u64
  | PermissionDenied
  | OutOfBounds
  | Other string

section \<open>First match in a fixed array\<close>

fun position :: "('a \<Rightarrow> bool) \<Rightarrow> 'a list \<Rightarrow> nat option" where
  "position P [] = None"
| "position P (x # xs) = (if P x then Some 0 else map_option Suc (position P xs))"

lemma position_None [simp]: "position P xs = None \<longleftrightarrow> (\<forall>x \<in> set xs. \<not> P x)"
  by (induction xs) auto

lemma position_SomeD:
  "position P xs = Some i \<Longrightarrow> i < length xs \<and> P (xs ! i) \<and> (\<forall>j < i. \<not> P (xs ! j))"
proof (induction xs arbitrary: i)
  case Nil
  then show ?case by simp
next
  case (Cons x xs)
  show ?case
  proof (cases "P x")
    case True
    with Cons.prems show ?thesis by simp
  next
    case False
    with Cons.prems obtain k where k: "position P xs = Some k" and i: "i = Suc k" by auto
    from Cons.IH[OF k] show ?thesis using False i by (auto simp: less_Suc_eq_0_disj)
  qed
qed

lemma position_Some_iff:
  "position P xs = Some i \<longleftrightarrow> i < length xs \<and> P (xs ! i) \<and> (\<forall>j < i. \<not> P (xs ! j))"
proof (induction xs arbitrary: i)
  case Nil
  then show ?case by simp
next
  case (Cons x xs)
  then show ?case by (cases i) (auto simp: less_Suc_eq_0_disj)
qed

section \<open>Ring indices\<close>

text \<open>A ring of \<open>n\<close> slots with a tail \<open>t\<close> (next read) and a head \<open>h\<close> (next write).\<close>

definition ring_len :: "nat \<Rightarrow> nat \<Rightarrow> nat \<Rightarrow> nat" where
  "ring_len n h t = (if t \<le> h then h - t else h + n - t)"

lemma ring_len_less: "h < n \<Longrightarrow> t < n \<Longrightarrow> ring_len n h t < n"
  by (auto simp: ring_len_def)

lemma ring_len_0 [simp]: "h < n \<Longrightarrow> t < n \<Longrightarrow> ring_len n h t = 0 \<longleftrightarrow> h = t"
  by (auto simp: ring_len_def)

lemma ring_idx: "(t::nat) < n \<Longrightarrow> i < n \<Longrightarrow> (t + i) mod n = (if t + i < n then t + i else t + i - n)"
  by (auto simp: le_mod_geq)

lemma Suc_mod_if: "h < n \<Longrightarrow> Suc h mod n = (if Suc h < n then Suc h else 0)"
  by (cases "Suc h = n") auto

lemma ring_idx_inj:
  assumes "(t::nat) < n" "i < n" "j < n" "(t + i) mod n = (t + j) mod n"
  shows "i = j"
  using assms(4) unfolding ring_idx[OF assms(1,2)] ring_idx[OF assms(1,3)]
  using assms(2,3) by (auto split: if_splits)

lemma ring_idx_len: "h < n \<Longrightarrow> t < n \<Longrightarrow> (t + ring_len n h t) mod n = h"
  by (auto simp: ring_len_def)

lemma ring_len_push:
  "h < n \<Longrightarrow> t < n \<Longrightarrow> Suc h mod n \<noteq> t \<Longrightarrow>
     ring_len n (Suc h mod n) t = Suc (ring_len n h t)"
  by (auto simp: ring_len_def Suc_mod_if split: if_splits)

lemma ring_full_iff:
  "h < n \<Longrightarrow> t < n \<Longrightarrow> Suc h mod n = t \<longleftrightarrow> Suc (ring_len n h t) = n"
  by (auto simp: ring_len_def Suc_mod_if split: if_splits)

lemma ring_len_pop:
  "h < n \<Longrightarrow> t < n \<Longrightarrow> h \<noteq> t \<Longrightarrow>
     ring_len n h t = Suc (ring_len n h (Suc t mod n))"
  by (auto simp: ring_len_def Suc_mod_if split: if_splits)

section \<open>Byte buffers and little-endian words\<close>

definition put_bytes :: "'a list \<Rightarrow> nat \<Rightarrow> 'a list \<Rightarrow> 'a list" where
  "put_bytes buf off bs = take off buf @ bs @ drop (off + length bs) buf"

definition slice :: "'a list \<Rightarrow> nat \<Rightarrow> nat \<Rightarrow> 'a list" where
  "slice buf off n = take n (drop off buf)"

lemma length_put_bytes [simp]: "off + length bs \<le> length buf \<Longrightarrow> length (put_bytes buf off bs) = length buf"
  by (simp add: put_bytes_def)

lemma length_slice [simp]: "off + n \<le> length buf \<Longrightarrow> length (slice buf off n) = n"
  by (simp add: slice_def)

lemma nth_put_bytes:
  "off + length bs \<le> length buf \<Longrightarrow> i < length buf \<Longrightarrow>
   put_bytes buf off bs ! i = (if off \<le> i \<and> i < off + length bs then bs ! (i - off) else buf ! i)"
  by (auto simp: put_bytes_def nth_append min_def)

lemma nth_slice: "off + n \<le> length buf \<Longrightarrow> i < n \<Longrightarrow> slice buf off n ! i = buf ! (off + i)"
  by (simp add: slice_def)

lemma slice_put_same: "off + length bs \<le> length buf \<Longrightarrow> slice (put_bytes buf off bs) off (length bs) = bs"
  by (simp add: slice_def put_bytes_def)

lemma slice_put_disjoint:
  assumes "off + length bs \<le> length buf" "o' + n \<le> length buf" "o' + n \<le> off \<or> off + length bs \<le> o'"
  shows "slice (put_bytes buf off bs) o' n = slice buf o' n"
  using assms by (intro nth_equalityI) (auto simp: nth_slice nth_put_bytes)

definition le_bytes :: "nat \<Rightarrow> 'a::len word \<Rightarrow> bytes" where
  "le_bytes n w = map (\<lambda>i. ucast (drop_bit (8 * i) w)) [0..<n]"

fun le_word :: "bytes \<Rightarrow> 'a::len word" where
  "le_word [] = 0"
| "le_word (b # bs) = push_bit 8 (le_word bs) OR ucast b"

lemma length_le_bytes [simp]: "length (le_bytes n w) = n"
  by (simp add: le_bytes_def)

lemma bit_le_word:
  "bit (le_word bs :: 'a::len word) k \<longleftrightarrow>
     k < LENGTH('a) \<and> k div 8 < length bs \<and> bit (bs ! (k div 8)) (k mod 8)"
proof (induction bs arbitrary: k)
  case (Cons b bs)
  have b: "bit (ucast b :: 'a word) k \<longleftrightarrow> k < LENGTH('a) \<and> k < 8 \<and> bit b k"
    using bit_imp_le_length[of b k] by (auto simp: bit_ucast_iff)
  show ?case
  proof (cases "k < 8")
    case True
    then show ?thesis using b by (auto simp: bit_or_iff bit_push_bit_iff)
  next
    case False
    then have "k div 8 = Suc ((k - 8) div 8)" "k mod 8 = (k - 8) mod 8"
      by (simp_all add: le_div_geq le_mod_geq)
    with False b show ?thesis by (auto simp: bit_or_iff bit_push_bit_iff Cons.IH)
  qed
qed simp

lemma le_word_le_bytes:
  assumes "LENGTH('a) \<le> 8 * n"
  shows "le_word (le_bytes n w) = (w :: 'a::len word)"
proof (rule bit_word_eqI)
  fix k assume k: "k < LENGTH('a)"
  then have "k div 8 < n" using assms by auto
  moreover have "8 * (k div 8) + k mod 8 = k" by simp
  ultimately show "bit (le_word (le_bytes n w) :: 'a word) k = bit w k"
    using k by (simp add: bit_le_word le_bytes_def bit_ucast_iff bit_drop_bit_eq)
qed

end
