(* ===== verification/Ziqa_Fifo.thy ===== *)
theory Ziqa_Fifo
  imports Ziqa_Prelude
begin

text \<open>
  The queue contract shared by the kernel's message buffers: what a queue promises to
  its clients, stated over the list of its contents, and what follows for a client that
  sends and receives whole sequences.  The IPC channel ring (\<open>src/ipc/mod.rs\<close>) and the
  byte queue of a pipe (\<open>src/scheme/pipe.rs\<close>) interpret it.
\<close>

text \<open>Sending a sequence stops at the first refusal; receiving stops at the first empty.\<close>

fun send_all :: "('q \<Rightarrow> 'a \<Rightarrow> 'q option) \<Rightarrow> 'q \<Rightarrow> 'a list \<Rightarrow> 'q option" where
  "send_all snd_op q [] = Some q"
| "send_all snd_op q (x # xs) =
     (case snd_op q x of None \<Rightarrow> None | Some q' \<Rightarrow> send_all snd_op q' xs)"

fun recv_n :: "('q \<Rightarrow> ('a \<times> 'q) option) \<Rightarrow> 'q \<Rightarrow> nat \<Rightarrow> 'a list \<times> 'q" where
  "recv_n rcv q 0 = ([], q)"
| "recv_n rcv q (Suc n) =
     (case rcv q of None \<Rightarrow> ([], q)
      | Some (x, q') \<Rightarrow> (let (xs, q'') = recv_n rcv q' n in (x # xs, q'')))"

locale fifo =
  fixes snd_op :: "'q \<Rightarrow> 'a \<Rightarrow> 'q option"
    and rcv :: "'q \<Rightarrow> ('a \<times> 'q) option"
    and contents :: "'q \<Rightarrow> 'a list"
    and invar :: "'q \<Rightarrow> bool"
    and room :: "'q \<Rightarrow> nat \<Rightarrow> bool"
  assumes snd_Some_iff: "invar q \<Longrightarrow> (\<exists>q'. snd_op q x = Some q') \<longleftrightarrow> room q 1"
    and snd_contents: "invar q \<Longrightarrow> snd_op q x = Some q' \<Longrightarrow> contents q' = contents q @ [x]"
    and snd_invar: "invar q \<Longrightarrow> snd_op q x = Some q' \<Longrightarrow> invar q'"
    and snd_room: "invar q \<Longrightarrow> snd_op q x = Some q' \<Longrightarrow> room q' n \<longleftrightarrow> room q (Suc n)"
    and room_mono: "invar q \<Longrightarrow> room q n \<Longrightarrow> m \<le> n \<Longrightarrow> room q m"
    and rcv_None: "invar q \<Longrightarrow> rcv q = None \<longleftrightarrow> contents q = []"
    and rcv_contents: "invar q \<Longrightarrow> rcv q = Some (x, q') \<Longrightarrow> contents q = x # contents q'"
    and rcv_invar: "invar q \<Longrightarrow> rcv q = Some (x, q') \<Longrightarrow> invar q'"
begin

lemma send_all_contents:
  "invar q \<Longrightarrow> send_all snd_op q xs = Some q' \<Longrightarrow> contents q' = contents q @ xs \<and> invar q'"
proof (induction xs arbitrary: q)
  case Nil
  then show ?case by simp
next
  case (Cons x xs)
  from Cons.prems(2) obtain q1 where q1: "snd_op q x = Some q1"
    and rest: "send_all snd_op q1 xs = Some q'" by (auto split: option.splits)
  from Cons.IH[OF snd_invar[OF Cons.prems(1) q1] rest] snd_contents[OF Cons.prems(1) q1]
  show ?case by simp
qed

lemma send_all_room:
  "invar q \<Longrightarrow> room q (length xs) \<Longrightarrow> \<exists>q'. send_all snd_op q xs = Some q'"
proof (induction xs arbitrary: q)
  case Nil
  then show ?case by simp
next
  case (Cons x xs)
  have "room q 1" using room_mono[OF Cons.prems] by simp
  then obtain q1 where q1: "snd_op q x = Some q1"
    using snd_Some_iff[OF Cons.prems(1)] by blast
  have "room q1 (length xs)" using snd_room[OF Cons.prems(1) q1] Cons.prems(2) by simp
  from Cons.IH[OF snd_invar[OF Cons.prems(1) q1] this] q1 show ?case by simp
qed

lemma recv_n_contents:
  "invar q \<Longrightarrow> recv_n rcv q n = (xs, q') \<Longrightarrow>
     xs = take n (contents q) \<and> contents q' = drop n (contents q) \<and> invar q'"
proof (induction n arbitrary: q xs q')
  case 0
  then show ?case by simp
next
  case (Suc n)
  show ?case
  proof (cases "rcv q")
    case None
    with rcv_None[OF Suc.prems(1)] Suc.prems show ?thesis by simp
  next
    case (Some p)
    obtain x q1 where p: "p = (x, q1)" by fastforce
    obtain ys q2 where ys: "recv_n rcv q1 n = (ys, q2)" by fastforce
    from Some p ys Suc.prems(2) have eq: "xs = x # ys" "q' = q2" by simp_all
    from Some p have r: "rcv q = Some (x, q1)" by simp
    from Suc.IH[OF rcv_invar[OF Suc.prems(1) r] ys] rcv_contents[OF Suc.prems(1) r] eq
    show ?thesis by simp
  qed
qed

text \<open>First in, first out: what was sent to an empty queue comes back in order.\<close>

lemma send_recv_roundtrip:
  assumes "invar q" "contents q = []" "room q (length xs)"
  shows "\<exists>q' q''. send_all snd_op q xs = Some q' \<and>
           recv_n rcv q' (length xs) = (xs, q'') \<and> contents q'' = []"
proof -
  from send_all_room[OF assms(1,3)] obtain q' where q': "send_all snd_op q xs = Some q'" ..
  from send_all_contents[OF assms(1) q'] assms(2) have c: "contents q' = xs" "invar q'" by simp_all
  obtain ys q'' where r: "recv_n rcv q' (length xs) = (ys, q'')" by fastforce
  from recv_n_contents[OF c(2) r] c q' r show ?thesis by auto
qed

end

text \<open>A queue of bounded capacity: there is room exactly while the contents stay within it.\<close>

locale bounded_fifo =
  fifo snd_op rcv contents invar "\<lambda>q n. length (contents q) + n \<le> cap"
  for snd_op :: "'q \<Rightarrow> 'a \<Rightarrow> 'q option"
    and rcv :: "'q \<Rightarrow> ('a \<times> 'q) option"
    and contents :: "'q \<Rightarrow> 'a list"
    and invar :: "'q \<Rightarrow> bool"
    and cap :: nat +
  assumes within_cap: "invar q \<Longrightarrow> length (contents q) \<le> cap"
begin

lemma snd_full: "invar q \<Longrightarrow> snd_op q x = None \<longleftrightarrow> length (contents q) = cap"
proof -
  assume inv: "invar q"
  have "snd_op q x = None \<longleftrightarrow> \<not> length (contents q) + 1 \<le> cap"
    using snd_Some_iff[OF inv, of x] by (cases "snd_op q x") auto
  with within_cap[OF inv] show ?thesis by auto
qed

end

end
