(* ===== verification/Ziqa_Ipc.thy ===== *)
theory Ziqa_Ipc
  imports Ziqa_Fifo
begin

text \<open>
  Message-passing channels (\<open>src/ipc/mod.rs\<close>).  A channel is a ring of sixteen message
  slots behind a mutex; each operation below is one critical section.  The channel tables
  hold reference-counted channels, and \<open>register_channel\<close> stores the same channel in the
  legacy table and in the table that \<open>send\<close> and \<open>recv\<close> use, so channels live in an explicit
  store and the tables hold references into it.
\<close>

section \<open>Messages and channels\<close>

definition MSG_MAX :: nat where "MSG_MAX = 256"
definition RING_CAP :: nat where "RING_CAP = 16"
definition MAX_CHANNELS :: nat where "MAX_CHANNELS = 32"

lemmas ipc_consts = MSG_MAX_def RING_CAP_def MAX_CHANNELS_def

record message =
  sender :: u64
  msg_len :: nat
  msg_data :: bytes

definition message_new :: "u64 \<Rightarrow> bytes \<Rightarrow> message" where
  "message_new pid data =
     (let len = min (length data) MSG_MAX;
          buf = replicate MSG_MAX 0
      in \<lparr>sender = pid, msg_len = len, msg_data = take len data @ drop len buf\<rparr>)"

datatype ipc_error = Full | Empty | InvalidChannel

record channel_inner =
  ring :: "message option list"
  head :: nat
  tail :: nat

definition channel_new :: channel_inner where
  "channel_new = \<lparr>ring = replicate RING_CAP None, head = 0, tail = 0\<rparr>"

definition channel_send :: "channel_inner \<Rightarrow> message \<Rightarrow> (ipc_error + unit) \<times> channel_inner" where
  "channel_send inner msg =
     (let next_head = Suc (head inner) mod RING_CAP
      in if next_head = tail inner then (Inl Full, inner)
         else (Inr (), inner\<lparr>ring := (ring inner)[head inner := Some msg], head := next_head\<rparr>))"

definition channel_recv :: "channel_inner \<Rightarrow> (ipc_error + message) \<times> channel_inner" where
  "channel_recv inner =
     (if head inner = tail inner then (Inl Empty, inner)
      else case ring inner ! tail inner of
             None \<Rightarrow> (Inl Empty, inner)
           | Some msg \<Rightarrow>
               (Inr msg, inner\<lparr>ring := (ring inner)[tail inner := None],
                               tail := Suc (tail inner) mod RING_CAP\<rparr>))"

section \<open>The ring invariant and the queue it represents\<close>

definition channel_count :: "channel_inner \<Rightarrow> nat" where
  "channel_count c = ring_len RING_CAP (head c) (tail c)"

definition channel_contents :: "channel_inner \<Rightarrow> message list" where
  "channel_contents c =
     map (\<lambda>i. the (ring c ! ((tail c + i) mod RING_CAP))) [0..<channel_count c]"

definition channel_inv :: "channel_inner \<Rightarrow> bool" where
  "channel_inv c \<longleftrightarrow>
     length (ring c) = RING_CAP \<and> head c < RING_CAP \<and> tail c < RING_CAP \<and>
     (\<forall>i < RING_CAP. ring c ! ((tail c + i) mod RING_CAP) \<noteq> None \<longleftrightarrow> i < channel_count c)"

lemma RING_CAP_pos [simp]: "0 < RING_CAP" by (simp add: RING_CAP_def)

lemma channel_invD:
  assumes "channel_inv c"
  shows "length (ring c) = RING_CAP" "head c < RING_CAP" "tail c < RING_CAP"
    "i < RING_CAP \<Longrightarrow> ring c ! ((tail c + i) mod RING_CAP) \<noteq> None \<longleftrightarrow> i < channel_count c"
    "channel_count c < RING_CAP" "(tail c + channel_count c) mod RING_CAP = head c"
  using assms by (auto simp: channel_inv_def channel_count_def ring_len_less ring_idx_len)

lemma length_channel_contents [simp]: "length (channel_contents c) = channel_count c"
  by (simp add: channel_contents_def)

lemma channel_new_inv: "channel_inv channel_new" "channel_contents channel_new = []"
  by (simp_all add: channel_inv_def channel_new_def channel_count_def channel_contents_def
      ring_len_def)

lemma channel_send_slot:
  assumes inv: "channel_inv c" and ok: "Suc (head c) mod RING_CAP \<noteq> tail c"
    and c': "c' = c\<lparr>ring := (ring c)[head c := Some m], head := Suc (head c) mod RING_CAP\<rparr>"
  shows "channel_count c' = Suc (channel_count c)"
    and "i < RING_CAP \<Longrightarrow> ring c' ! ((tail c' + i) mod RING_CAP) =
           (if i = channel_count c then Some m else ring c ! ((tail c + i) mod RING_CAP))"
proof -
  note D = channel_invD[OF inv]
  show "channel_count c' = Suc (channel_count c)"
    using D ok by (simp add: c' channel_count_def ring_len_push)
  assume i: "i < RING_CAP"
  have "(tail c + i) mod RING_CAP = head c \<longleftrightarrow> i = channel_count c"
    using ring_idx_inj[OF D(3) i D(5)] D(6) by metis
  then show "ring c' ! ((tail c' + i) mod RING_CAP) =
      (if i = channel_count c then Some m else ring c ! ((tail c + i) mod RING_CAP))"
    using D(1,2) by (auto simp: c' nth_list_update)
qed

lemma channel_send_Ok:
  assumes inv: "channel_inv c" and snd: "channel_send c m = (Inr (), c')"
  shows "channel_inv c'" and "channel_contents c' = channel_contents c @ [m]"
proof -
  note D = channel_invD[OF inv]
  from snd have ok: "Suc (head c) mod RING_CAP \<noteq> tail c"
    and c': "c' = c\<lparr>ring := (ring c)[head c := Some m], head := Suc (head c) mod RING_CAP\<rparr>"
    by (auto simp: channel_send_def Let_def split: if_splits)
  note slot = channel_send_slot[OF inv ok c']
  show "channel_inv c'"
    unfolding channel_inv_def slot(1)
  proof (intro conjI allI impI)
    fix i assume i: "i < RING_CAP"
    show "(ring c' ! ((tail c' + i) mod RING_CAP) \<noteq> None) = (i < Suc (channel_count c))"
      using slot(2)[OF i] D(4)[OF i] by auto
  qed (use D c' in auto)
  have less: "i < channel_count c \<Longrightarrow> i < RING_CAP" for i using D(5) by simp
  show "channel_contents c' = channel_contents c @ [m]"
    unfolding channel_contents_def slot(1) upt_Suc using slot(2) less D(5) by simp
qed

lemma channel_send_Full:
  assumes "channel_inv c"
  shows "(\<exists>c'. channel_send c m = (Inr (), c')) \<longleftrightarrow> Suc (channel_count c) < RING_CAP"
    and "\<not> Suc (channel_count c) < RING_CAP \<Longrightarrow> channel_send c m = (Inl Full, c)"
  using ring_full_iff[OF channel_invD(2)[OF assms] channel_invD(3)[OF assms]] channel_invD(5)[OF assms]
  by (auto simp: channel_send_def Let_def channel_count_def)

lemma channel_recv_slot:
  assumes inv: "channel_inv c" and ne: "head c \<noteq> tail c"
    and c': "c' = c\<lparr>ring := (ring c)[tail c := None], tail := Suc (tail c) mod RING_CAP\<rparr>"
  shows "channel_count c = Suc (channel_count c')"
    and "(tail c' + i) mod RING_CAP = (tail c + Suc i) mod RING_CAP"
    and "i < RING_CAP \<Longrightarrow> ring c' ! ((tail c' + i) mod RING_CAP) =
           (if Suc i = RING_CAP then None else ring c ! ((tail c + Suc i) mod RING_CAP))"
proof -
  note D = channel_invD[OF inv]
  show "channel_count c = Suc (channel_count c')"
    using D ne by (simp add: c' channel_count_def ring_len_pop)
  show idx: "(tail c' + i) mod RING_CAP = (tail c + Suc i) mod RING_CAP"
    using mod_add_left_eq[of "Suc (tail c)" RING_CAP i] by (simp add: c')
  assume i: "i < RING_CAP"
  have t0: "(tail c + 0) mod RING_CAP = tail c" using D(3) by simp
  have "(tail c + Suc i) mod RING_CAP = tail c \<longleftrightarrow> Suc i = RING_CAP"
  proof (cases "Suc i = RING_CAP")
    case True
    then show ?thesis using D(3) by simp
  next
    case False
    with i have "Suc i < RING_CAP" by simp
    from ring_idx_inj[OF D(3) this RING_CAP_pos] t0 False show ?thesis by auto
  qed
  then show "ring c' ! ((tail c' + i) mod RING_CAP) =
      (if Suc i = RING_CAP then None else ring c ! ((tail c + Suc i) mod RING_CAP))"
    using D(1,3) idx by (auto simp: c' nth_list_update)
qed

lemma channel_recv_Empty:
  assumes "channel_inv c" "head c = tail c"
  shows "channel_recv c = (Inl Empty, c)" "channel_contents c = []"
  using assms channel_invD[OF assms(1)]
  by (simp_all add: channel_recv_def channel_contents_def channel_count_def ring_len_def)

lemma channel_recv_nonempty:
  assumes inv: "channel_inv c" and ne: "head c \<noteq> tail c"
  shows "\<exists>m c'. channel_recv c = (Inr m, c') \<and> channel_inv c' \<and>
           channel_contents c = m # channel_contents c'"
proof -
  note D = channel_invD[OF inv]
  have pos: "0 < channel_count c"
    using ring_len_0[OF D(2,3)] ne by (simp add: channel_count_def)
  have "ring c ! tail c \<noteq> None" using D(4)[of 0] pos D(3) by simp
  then obtain m where m: "ring c ! tail c = Some m" by auto
  define c' where
    c': "c' = c\<lparr>ring := (ring c)[tail c := None], tail := Suc (tail c) mod RING_CAP\<rparr>"
  note slot = channel_recv_slot[OF inv ne c']
  have inv': "channel_inv c'"
    unfolding channel_inv_def
  proof (intro conjI allI impI)
    fix i assume i: "i < RING_CAP"
    show "(ring c' ! ((tail c' + i) mod RING_CAP) \<noteq> None) = (i < channel_count c')"
    proof (cases "Suc i = RING_CAP")
      case True
      with slot(3)[OF i] slot(1) D(5) show ?thesis by simp
    next
      case False
      with i have "Suc i < RING_CAP" by simp
      from D(4)[OF this] slot(1) slot(3)[OF i] False show ?thesis by simp
    qed
  qed (use D c' in auto)
  have "[0..<Suc (channel_count c')] = 0 # map Suc [0..<channel_count c']"
    using map_Suc_upt upt_conv_Cons by simp
  moreover have "i < channel_count c' \<Longrightarrow> i < RING_CAP \<and> Suc i \<noteq> RING_CAP" for i
    using slot(1) D(5) by simp
  ultimately have "channel_contents c = m # channel_contents c'"
    unfolding channel_contents_def slot(1) using D(3) m slot(3) by simp
  moreover have "channel_recv c = (Inr m, c')"
    using ne m by (simp add: channel_recv_def c')
  ultimately show ?thesis using inv' by blast
qed

lemma channel_recv_Ok:
  assumes inv: "channel_inv c" and r: "channel_recv c = (Inr m, c')"
  shows "channel_inv c' \<and> channel_contents c = m # channel_contents c'"
proof -
  have "head c \<noteq> tail c" using r by (auto simp: channel_recv_def)
  from channel_recv_nonempty[OF inv this] r show ?thesis by auto
qed


text \<open>The channel as a queue for its clients: the error value is dropped, the state kept.\<close>

definition channel_snd :: "channel_inner \<Rightarrow> message \<Rightarrow> channel_inner option" where
  "channel_snd c m = (case channel_send c m of (Inl _, _) \<Rightarrow> None | (Inr _, c') \<Rightarrow> Some c')"

definition channel_rcv :: "channel_inner \<Rightarrow> (message \<times> channel_inner) option" where
  "channel_rcv c = (case channel_recv c of (Inl _, _) \<Rightarrow> None | (Inr m, c') \<Rightarrow> Some (m, c'))"

lemma channel_snd_Some: "channel_snd c m = Some c' \<longleftrightarrow> channel_send c m = (Inr (), c')"
  by (auto simp: channel_snd_def split: prod.splits sum.splits)

lemma channel_rcv_Some: "channel_rcv c = Some (m, c') \<longleftrightarrow> channel_recv c = (Inr m, c')"
  by (auto simp: channel_rcv_def split: prod.splits sum.splits)

lemma channel_rcv_None: "channel_inv c \<Longrightarrow> channel_rcv c = None \<longleftrightarrow> channel_contents c = []"
  using channel_recv_Empty[of c] channel_recv_nonempty[of c]
  by (cases "head c = tail c") (auto simp: channel_rcv_def)

interpretation chan: bounded_fifo channel_snd channel_rcv channel_contents channel_inv "RING_CAP - 1"
proof unfold_locales
  fix q x assume "channel_inv q"
  then show "(\<exists>q'. channel_snd q x = Some q') =
      (length (channel_contents q) + 1 \<le> RING_CAP - 1)"
    using channel_send_Full(1)[of q x] by (auto simp: channel_snd_Some RING_CAP_def)
next
  fix q x q' n assume "channel_inv q" "channel_snd q x = Some q'"
  then show "(length (channel_contents q') + n \<le> RING_CAP - 1) =
      (length (channel_contents q) + Suc n \<le> RING_CAP - 1)"
    using channel_send_Ok(2)[of q x q'] unfolding channel_snd_Some
    by (metis Suc_eq_plus1 add_Suc add_Suc_right length_append_singleton)
next
  fix q assume "channel_inv q"
  then show "length (channel_contents q) \<le> RING_CAP - 1"
    using channel_invD(5)[of q] by simp
qed (auto simp: channel_snd_Some channel_rcv_Some channel_rcv_None
       dest: channel_send_Ok channel_recv_Ok)

section \<open>Channel tables\<close>

text \<open>
  \<open>legacy\<close> is the static \<open>CHANNELS\<close>, \<open>table\<close> the \<open>ChannelTable\<close> behind \<open>IPC\<close>; both hold
  references into \<open>store\<close>, the channels allocated so far (\<open>Arc::new\<close> takes a fresh
  reference).
\<close>

record ipc =
  store :: "channel_inner list"
  legacy :: "nat option list"
  table :: "nat option list"

definition ipc_init :: ipc where
  "ipc_init = \<lparr>store = [], legacy = replicate MAX_CHANNELS None,
               table = replicate MAX_CHANNELS None\<rparr>"

definition arc_new :: "ipc \<Rightarrow> nat \<times> ipc" where
  "arc_new s = (length (store s), s\<lparr>store := store s @ [channel_new]\<rparr>)"

definition get_channel :: "ipc \<Rightarrow> nat \<Rightarrow> ipc_error + nat" where
  "get_channel s cid =
     (if cid < length (legacy s)
      then case legacy s ! cid of None \<Rightarrow> Inl InvalidChannel | Some r \<Rightarrow> Inr r
      else Inl InvalidChannel)"

text \<open>\<open>None\<close> is the panic of the out-of-range index \<open>channels[id]\<close>.\<close>

definition register_channel :: "ipc \<Rightarrow> nat \<Rightarrow> nat \<Rightarrow> ipc option" where
  "register_channel s cid r =
     (if cid < length (legacy s) then
        let s1 = s\<lparr>legacy := (legacy s)[cid := Some r]\<rparr>
        in Some (if 0 < cid \<and> cid \<le> MAX_CHANNELS
                 then s1\<lparr>table := (table s1)[cid - 1 := Some r]\<rparr> else s1)
      else None)"

definition table_create :: "ipc \<Rightarrow> u32 option \<times> ipc" where
  "table_create s =
     (case position (\<lambda>slot. slot = None) (table s) of
        None \<Rightarrow> (None, s)
      | Some i \<Rightarrow>
          (let (r, s') = arc_new s
           in (Some (of_nat (i + 1)), s'\<lparr>table := (table s')[i := Some r]\<rparr>)))"

definition table_get :: "ipc \<Rightarrow> u32 \<Rightarrow> nat option" where
  "table_get s cid =
     (if cid = 0 \<or> unat cid > MAX_CHANNELS then None else table s ! (unat (cid - 1)))"

definition table_destroy :: "ipc \<Rightarrow> u32 \<Rightarrow> bool \<times> ipc" where
  "table_destroy s cid =
     (if cid = 0 \<or> unat cid > MAX_CHANNELS then (False, s)
      else if table s ! (unat (cid - 1)) \<noteq> None
      then (True, s\<lparr>table := (table s)[unat (cid - 1) := None]\<rparr>)
      else (False, s))"

definition create_channel :: "ipc \<Rightarrow> u32 option \<times> ipc" where
  "create_channel s = table_create s"

definition destroy_channel :: "ipc \<Rightarrow> u32 \<Rightarrow> ipc" where
  "destroy_channel s cid = snd (table_destroy s cid)"

definition ipc_send :: "ipc \<Rightarrow> u32 \<Rightarrow> u64 \<Rightarrow> bytes \<Rightarrow> (ipc_error + unit) \<times> ipc" where
  "ipc_send s cid pid data =
     (case table_get s cid of
        None \<Rightarrow> (Inl InvalidChannel, s)
      | Some r \<Rightarrow>
          (let (res, c') = channel_send (store s ! r) (message_new pid data)
           in (res, s\<lparr>store := (store s)[r := c']\<rparr>)))"

definition ipc_recv :: "ipc \<Rightarrow> u32 \<Rightarrow> (ipc_error + message) \<times> ipc" where
  "ipc_recv s cid =
     (case table_get s cid of
        None \<Rightarrow> (Inl InvalidChannel, s)
      | Some r \<Rightarrow>
          (let (res, c') = channel_recv (store s ! r)
           in (res, s\<lparr>store := (store s)[r := c']\<rparr>)))"


section \<open>The tables' invariant\<close>

text \<open>
  Both tables keep their length, every reference points into the store, every channel of
  the store is a well-formed ring, and no two ids share a channel.
\<close>

definition ipc_inv :: "ipc \<Rightarrow> bool" where
  "ipc_inv s \<longleftrightarrow>
     length (table s) = MAX_CHANNELS \<and> length (legacy s) = MAX_CHANNELS \<and>
     (\<forall>c \<in> set (store s). channel_inv c) \<and>
     (\<forall>i r. i < MAX_CHANNELS \<longrightarrow> table s ! i = Some r \<longrightarrow> r < length (store s)) \<and>
     (\<forall>i j r. i < MAX_CHANNELS \<longrightarrow> j < MAX_CHANNELS \<longrightarrow>
        table s ! i = Some r \<longrightarrow> table s ! j = Some r \<longrightarrow> i = j)"

definition slot_of :: "u32 \<Rightarrow> nat" where
  "slot_of cid = unat (cid - 1)"

lemma slot_of_bound:
  assumes "cid \<noteq> 0" "unat cid \<le> MAX_CHANNELS"
  shows "slot_of cid < MAX_CHANNELS" "unat cid = Suc (slot_of cid)"
proof -
  have "1 \<le> unat cid" using assms(1) by (simp add: Suc_leI unat_gt_0)
  then have "(1::u32) \<le> cid" by (simp add: word_le_nat_alt)
  then have "unat (cid - 1) = unat cid - 1" by (simp add: unat_sub_le)
  with \<open>1 \<le> unat cid\<close> assms(2)
  show "slot_of cid < MAX_CHANNELS" "unat cid = Suc (slot_of cid)"
    by (simp_all add: slot_of_def)
qed

lemma slot_of_inj:
  "cid \<noteq> 0 \<Longrightarrow> unat cid \<le> MAX_CHANNELS \<Longrightarrow> cid' \<noteq> 0 \<Longrightarrow> unat cid' \<le> MAX_CHANNELS \<Longrightarrow>
     slot_of cid = slot_of cid' \<Longrightarrow> cid = cid'"
  by (metis slot_of_bound(2) word_unat_eq_iff)

lemma table_get_Some:
  assumes "table_get s cid = Some r"
  shows "cid \<noteq> 0" "unat cid \<le> MAX_CHANNELS" "slot_of cid < MAX_CHANNELS"
    "table s ! slot_of cid = Some r"
proof -
  from assms show c: "cid \<noteq> 0" "unat cid \<le> MAX_CHANNELS" and "table s ! slot_of cid = Some r"
    by (auto simp: table_get_def slot_of_def split: if_splits)
  from slot_of_bound[OF c] show "slot_of cid < MAX_CHANNELS" by simp
qed

lemma ipc_inv_store: "ipc_inv s \<Longrightarrow> table_get s cid = Some r \<Longrightarrow> r < length (store s)"
  using table_get_Some[of s cid r] unfolding ipc_inv_def by blast

lemma ipc_inv_chan: "ipc_inv s \<Longrightarrow> table_get s cid = Some r \<Longrightarrow> channel_inv (store s ! r)"
  using ipc_inv_store[of s cid r] by (simp add: ipc_inv_def)

lemma ipc_inv_distinct:
  "ipc_inv s \<Longrightarrow> table_get s a = Some r \<Longrightarrow> table_get s b = Some r \<Longrightarrow> a = b"
  using table_get_Some[of s a r] table_get_Some[of s b r] slot_of_inj[of a b]
  unfolding ipc_inv_def by blast

lemma ipc_init_inv: "ipc_inv ipc_init"
  by (simp add: ipc_inv_def ipc_init_def)

lemma ipc_inv_update:
  assumes "ipc_inv s" "channel_inv c"
  shows "ipc_inv (s\<lparr>store := (store s)[r := c]\<rparr>)"
  using assms set_update_subset_insert[of "store s" r c] by (auto simp: ipc_inv_def)

lemma channel_send_inv: "channel_inv c \<Longrightarrow> channel_inv (snd (channel_send c m))"
proof -
  assume inv: "channel_inv c"
  obtain res c' where e: "channel_send c m = (res, c')" by fastforce
  show ?thesis
  proof (cases res)
    case (Inl x)
    with e have "c' = c" by (auto simp: channel_send_def Let_def split: if_splits)
    with inv e show ?thesis by simp
  next
    case (Inr u)
    with e channel_send_Ok(1)[OF inv] show ?thesis by simp
  qed
qed

lemma channel_recv_inv: "channel_inv c \<Longrightarrow> channel_inv (snd (channel_recv c))"
  using channel_recv_Empty[of c] channel_recv_nonempty[of c]
  by (cases "head c = tail c") auto

lemma ipc_send_inv: "ipc_inv s \<Longrightarrow> ipc_inv (snd (ipc_send s cid pid data))"
  using channel_send_inv[of "store s ! the (table_get s cid)" "message_new pid data"]
    ipc_inv_chan[of s cid]
  by (cases "table_get s cid") (auto simp: ipc_send_def case_prod_beta intro!: ipc_inv_update)

lemma ipc_recv_inv: "ipc_inv s \<Longrightarrow> ipc_inv (snd (ipc_recv s cid))"
  using channel_recv_inv[of "store s ! the (table_get s cid)"] ipc_inv_chan[of s cid]
  by (cases "table_get s cid") (auto simp: ipc_recv_def case_prod_beta intro!: ipc_inv_update)

lemma table_create_Some:
  assumes "table_create s = (Some cid, s')" "ipc_inv s"
  shows "table_get s cid = None" "table_get s' cid = Some (length (store s))"
    "store s' = store s @ [channel_new]" "legacy s' = legacy s"
    "table s' = (table s)[slot_of cid := Some (length (store s))]"
    "slot_of cid < MAX_CHANNELS"
proof -
  from assms(1) obtain i where i: "position (\<lambda>slot. slot = None) (table s) = Some i"
    and cid: "cid = of_nat (i + 1)"
    and s': "s' = s\<lparr>store := store s @ [channel_new], table := (table s)[i := Some (length (store s))]\<rparr>"
    by (auto simp: table_create_def arc_new_def split: option.splits)
  from position_SomeD[OF i] assms(2) have b: "i < MAX_CHANNELS" "table s ! i = None"
    by (auto simp: ipc_inv_def)
  have u: "unat cid = i + 1"
    unfolding cid using b(1) by (intro unat_of_nat_small) (simp add: MAX_CHANNELS_def)
  then have nz: "cid \<noteq> 0" "unat cid \<le> MAX_CHANNELS" using b(1) by auto
  from slot_of_bound[OF nz] u have slot: "slot_of cid = i" by simp
  show "table_get s cid = None" "table_get s' cid = Some (length (store s))"
    "store s' = store s @ [channel_new]" "legacy s' = legacy s"
    "table s' = (table s)[slot_of cid := Some (length (store s))]"
    "slot_of cid < MAX_CHANNELS"
    using nz b slot assms(2)
    by (auto simp: table_get_def s' ipc_inv_def slot_of_def[symmetric])
qed

lemma table_create_inv:
  assumes inv: "ipc_inv s"
  shows "ipc_inv (snd (table_create s))"
proof (cases "table_create s")
  case (Pair res s')
  show ?thesis
  proof (cases res)
    case None
    with Pair have "s' = s" by (auto simp: table_create_def arc_new_def split: option.splits)
    with inv Pair show ?thesis by simp
  next
    case (Some cid)
    note c = table_create_Some[OF Pair[unfolded Some] inv]
    have "i < MAX_CHANNELS \<Longrightarrow> table s ! i \<noteq> Some (length (store s))" for i
      using inv unfolding ipc_inv_def by blast
    then show ?thesis
      using inv c Pair
      by (auto simp: ipc_inv_def channel_new_inv nth_list_update less_SucI split: if_splits)
  qed
qed

lemma table_destroy_inv:
  assumes "ipc_inv s"
  shows "ipc_inv (snd (table_destroy s cid))"
proof (cases "cid = 0 \<or> unat cid > MAX_CHANNELS")
  case True
  with assms show ?thesis by (auto simp: table_destroy_def)
next
  case False
  then have "slot_of cid < MAX_CHANNELS" using slot_of_bound[of cid] by simp
  with False assms show ?thesis
    by (auto simp: table_destroy_def ipc_inv_def nth_list_update slot_of_def[symmetric]
        split: if_splits)
qed


section \<open>Runs of the IPC system\<close>

inductive ipc_step :: "ipc \<Rightarrow> ipc \<Rightarrow> bool" where
  step_create: "ipc_step s (snd (create_channel s))"
| step_destroy: "ipc_step s (destroy_channel s cid)"
| step_send: "ipc_step s (snd (ipc_send s cid pid data))"
| step_recv: "ipc_step s (snd (ipc_recv s cid))"

inductive ipc_reachable :: "ipc \<Rightarrow> bool" where
  reach_init: "ipc_reachable ipc_init"
| reach_step: "ipc_reachable s \<Longrightarrow> ipc_step s s' \<Longrightarrow> ipc_reachable s'"

lemma ipc_step_inv: "ipc_step s s' \<Longrightarrow> ipc_inv s \<Longrightarrow> ipc_inv s'"
  by (induction rule: ipc_step.induct)
     (auto simp: create_channel_def destroy_channel_def
      intro: ipc_send_inv ipc_recv_inv table_create_inv table_destroy_inv)

lemma ipc_reachable_inv: "ipc_reachable s \<Longrightarrow> ipc_inv s"
  by (induction rule: ipc_reachable.induct) (auto intro: ipc_init_inv ipc_step_inv)

definition ipc_contents :: "ipc \<Rightarrow> u32 \<Rightarrow> message list" where
  "ipc_contents s cid =
     (case table_get s cid of None \<Rightarrow> [] | Some r \<Rightarrow> channel_contents (store s ! r))"

lemma table_get_store_update [simp]: "table_get (s\<lparr>store := st\<rparr>) cid = table_get s cid"
  by (simp add: table_get_def)

lemma ipc_contents_other:
  assumes "ipc_inv s" "table_get s a = Some r" "a \<noteq> b"
  shows "ipc_contents (s\<lparr>store := (store s)[r := c]\<rparr>) b = ipc_contents s b"
proof (cases "table_get s b")
  case None
  then show ?thesis by (simp add: ipc_contents_def)
next
  case (Some r')
  with ipc_inv_distinct[OF assms(1,2)] assms(3) have "r' \<noteq> r" by auto
  with Some show ?thesis by (simp add: ipc_contents_def)
qed

text \<open>A fixed open channel of the whole system is itself a bounded queue.\<close>

definition ipc_snd :: "u32 \<Rightarrow> ipc \<Rightarrow> message \<Rightarrow> ipc option" where
  "ipc_snd cid s m =
     (case table_get s cid of None \<Rightarrow> None
      | Some r \<Rightarrow> map_option (\<lambda>c'. s\<lparr>store := (store s)[r := c']\<rparr>) (channel_snd (store s ! r) m))"

definition ipc_rcv :: "u32 \<Rightarrow> ipc \<Rightarrow> (message \<times> ipc) option" where
  "ipc_rcv cid s =
     (case table_get s cid of None \<Rightarrow> None
      | Some r \<Rightarrow> map_option (\<lambda>(m, c'). (m, s\<lparr>store := (store s)[r := c']\<rparr>))
                    (channel_rcv (store s ! r)))"

definition ipc_open :: "u32 \<Rightarrow> ipc \<Rightarrow> bool" where
  "ipc_open cid s \<longleftrightarrow> ipc_inv s \<and> table_get s cid \<noteq> None"

lemma ipc_snd_send:
  "ipc_snd cid s (message_new pid data) = Some s' \<longleftrightarrow> ipc_send s cid pid data = (Inr (), s')"
  by (auto simp: ipc_snd_def ipc_send_def channel_snd_def split: option.splits prod.splits sum.splits)

lemma ipc_rcv_recv: "ipc_rcv cid s = Some (m, s') \<longleftrightarrow> ipc_recv s cid = (Inr m, s')"
  by (auto simp: ipc_rcv_def ipc_recv_def channel_rcv_def split: option.splits prod.splits sum.splits)

lemma ipc_openE:
  assumes "ipc_open cid s"
  obtains r where "table_get s cid = Some r" "r < length (store s)" "channel_inv (store s ! r)"
    "ipc_inv s" "ipc_contents s cid = channel_contents (store s ! r)"
  using assms ipc_inv_store ipc_inv_chan by (auto simp: ipc_open_def ipc_contents_def)

lemma ipc_update_open:
  assumes "ipc_open cid s" "table_get s cid = Some r" "r < length (store s)" "channel_inv c'"
  shows "ipc_open cid (s\<lparr>store := (store s)[r := c']\<rparr>)"
    and "ipc_contents (s\<lparr>store := (store s)[r := c']\<rparr>) cid = channel_contents c'"
  using assms ipc_inv_update[of s c' r] by (auto simp: ipc_open_def ipc_contents_def)

lemma ipc_snd_Some:
  assumes "ipc_open cid s" "ipc_snd cid s m = Some s'"
  shows "ipc_open cid s' \<and> ipc_contents s' cid = ipc_contents s cid @ [m]"
proof -
  from assms(1) obtain r where r: "table_get s cid = Some r" "r < length (store s)"
    "channel_inv (store s ! r)" "ipc_contents s cid = channel_contents (store s ! r)"
    by (rule ipc_openE)
  from assms(2) r obtain c' where c': "channel_snd (store s ! r) m = Some c'"
    and s': "s' = s\<lparr>store := (store s)[r := c']\<rparr>" by (auto simp: ipc_snd_def)
  from chan.snd_contents[OF r(3) c'] ipc_update_open[OF assms(1) r(1,2) chan.snd_invar[OF r(3) c']]
  show ?thesis by (simp add: s' r)
qed

lemma ipc_rcv_Some:
  assumes "ipc_open cid s" "ipc_rcv cid s = Some (m, s')"
  shows "ipc_open cid s' \<and> ipc_contents s cid = m # ipc_contents s' cid"
proof -
  from assms(1) obtain r where r: "table_get s cid = Some r" "r < length (store s)"
    "channel_inv (store s ! r)" "ipc_contents s cid = channel_contents (store s ! r)"
    by (rule ipc_openE)
  from assms(2) r obtain c' where c': "channel_rcv (store s ! r) = Some (m, c')"
    and s': "s' = s\<lparr>store := (store s)[r := c']\<rparr>" by (auto simp: ipc_rcv_def)
  from chan.rcv_contents[OF r(3) c'] ipc_update_open[OF assms(1) r(1,2) chan.rcv_invar[OF r(3) c']]
  show ?thesis by (simp add: s' r)
qed

interpretation ipcq: bounded_fifo "ipc_snd cid" "ipc_rcv cid" "\<lambda>s. ipc_contents s cid"
  "ipc_open cid" "RING_CAP - 1" for cid
proof unfold_locales
  fix q x assume "ipc_open cid q"
  then obtain r where r: "table_get q cid = Some r" "channel_inv (store q ! r)"
    "ipc_contents q cid = channel_contents (store q ! r)" by (rule ipc_openE)
  show "(\<exists>q'. ipc_snd cid q x = Some q') = (length (ipc_contents q cid) + 1 \<le> RING_CAP - 1)"
    using chan.snd_Some_iff[OF r(2), of x] r by (auto simp: ipc_snd_def)
next
  fix q x q' n assume "ipc_open cid q" "ipc_snd cid q x = Some q'"
  from ipc_snd_Some[OF this] show "(length (ipc_contents q' cid) + n \<le> RING_CAP - 1) =
      (length (ipc_contents q cid) + Suc n \<le> RING_CAP - 1)" by simp
next
  fix q assume "ipc_open cid q"
  then obtain r where r: "table_get q cid = Some r" "channel_inv (store q ! r)"
    "ipc_contents q cid = channel_contents (store q ! r)" by (rule ipc_openE)
  show "(ipc_rcv cid q = None) = (ipc_contents q cid = [])"
    using channel_rcv_None[OF r(2)] r by (auto simp: ipc_rcv_def)
  show "length (ipc_contents q cid) \<le> RING_CAP - 1" using chan.within_cap[OF r(2)] r by simp
qed (auto dest: ipc_snd_Some ipc_rcv_Some)

text \<open>Clients call \<open>send\<close> and \<open>recv\<close>; a run of sends of payloads, a run of receives.\<close>

fun ipc_send_all :: "ipc \<Rightarrow> u32 \<Rightarrow> u64 \<Rightarrow> bytes list \<Rightarrow> ipc option" where
  "ipc_send_all s cid pid [] = Some s"
| "ipc_send_all s cid pid (d # ds) =
     (case ipc_send s cid pid d of (Inl _, _) \<Rightarrow> None | (Inr _, s') \<Rightarrow> ipc_send_all s' cid pid ds)"

fun ipc_recv_n :: "ipc \<Rightarrow> u32 \<Rightarrow> nat \<Rightarrow> message list \<times> ipc" where
  "ipc_recv_n s cid 0 = ([], s)"
| "ipc_recv_n s cid (Suc n) =
     (case ipc_recv s cid of (Inl _, _) \<Rightarrow> ([], s)
      | (Inr m, s') \<Rightarrow> (let (ms, s'') = ipc_recv_n s' cid n in (m # ms, s'')))"

lemma ipc_send_all_fifo:
  "ipc_send_all s cid pid ds = send_all (ipc_snd cid) s (map (message_new pid) ds)"
proof (induction ds arbitrary: s)
  case Nil
  then show ?case by simp
next
  case (Cons d ds)
  obtain res s' where e: "ipc_send s cid pid d = (res, s')" by fastforce
  show ?case
  proof (cases res)
    case (Inl x)
    then have "ipc_snd cid s (message_new pid d) = None"
      using ipc_snd_send[of cid s pid d] e by (cases "ipc_snd cid s (message_new pid d)") auto
    with e Inl show ?thesis by simp
  next
    case (Inr x)
    with e ipc_snd_send[of cid s pid d s'] Cons.IH show ?thesis by simp
  qed
qed

lemma ipc_recv_n_fifo: "ipc_recv_n s cid n = recv_n (ipc_rcv cid) s n"
proof (induction n arbitrary: s)
  case 0
  then show ?case by simp
next
  case (Suc n)
  obtain res s' where e: "ipc_recv s cid = (res, s')" by fastforce
  show ?case
  proof (cases res)
    case (Inl x)
    then have "ipc_rcv cid s = None"
      using ipc_rcv_recv[of cid s] e by (cases "ipc_rcv cid s") auto
    with e Inl show ?thesis by simp
  next
    case (Inr m)
    with e ipc_rcv_recv[of cid s m s'] Suc.IH show ?thesis by simp
  qed
qed

section \<open>Properties\<close>

text \<open>(C5) Refinement of the channel ring to a bounded first-in-first-out queue: a
  well-formed ring accepts a message exactly while fewer than fifteen are queued and then
  appends it, otherwise answers \<open>Full\<close> and changes nothing; \<open>recv\<close> returns and removes the
  oldest message and answers \<open>Empty\<close>, changing nothing, when there is none.\<close>

theorem channel_refines_bounded_queue:
  assumes "channel_inv c"
  shows "(length (channel_contents c) < 15 \<longrightarrow>
            (\<exists>c'. channel_send c m = (Inr (), c') \<and> channel_inv c' \<and>
                  channel_contents c' = channel_contents c @ [m])) \<and>
         (\<not> length (channel_contents c) < 15 \<longrightarrow> channel_send c m = (Inl Full, c)) \<and>
         (case channel_contents c of
            [] \<Rightarrow> channel_recv c = (Inl Empty, c)
          | x # xs \<Rightarrow> \<exists>c'. channel_recv c = (Inr x, c') \<and> channel_inv c' \<and>
                          channel_contents c' = xs)"
proof (intro conjI impI)
  assume "length (channel_contents c) < 15"
  then obtain c' where c': "channel_send c m = (Inr (), c')"
    using channel_send_Full(1)[OF assms, of m] by (auto simp: RING_CAP_def)
  with channel_send_Ok[OF assms c'] show "\<exists>c'. channel_send c m = (Inr (), c') \<and>
      channel_inv c' \<and> channel_contents c' = channel_contents c @ [m]" by blast
next
  assume "\<not> length (channel_contents c) < 15"
  then show "channel_send c m = (Inl Full, c)"
    using channel_send_Full(2)[OF assms] by (simp add: RING_CAP_def)
next
  show "case channel_contents c of [] \<Rightarrow> channel_recv c = (Inl Empty, c)
    | x # xs \<Rightarrow> \<exists>c'. channel_recv c = (Inr x, c') \<and> channel_inv c' \<and> channel_contents c' = xs"
    using channel_recv_Empty[OF assms] channel_recv_nonempty[OF assms]
    by (cases "head c = tail c") auto
qed

theorem channel_refines_bounded_queue_witness:
  "channel_inv channel_new \<and>
   (\<exists>c'. channel_send channel_new (message_new 7 [1, 2]) = (Inr (), c') \<and> channel_inv c' \<and>
         channel_contents c' = [message_new 7 [1, 2]])"
  using channel_refines_bounded_queue[OF channel_new_inv(1), of "message_new 7 [1, 2]"]
    channel_new_inv by simp


text \<open>Round trip through the system: on a channel just created in a reachable state, up
  to fifteen payloads can be sent, each is accepted, and receiving returns them in order as
  messages of their sender, truncated to 256 bytes and padded with zeroes, leaving the
  channel empty.\<close>

theorem ipc_create_send_recv_roundtrip:
  assumes "ipc_reachable s" "create_channel s = (Some cid, s1)" "length ds \<le> 15"
  shows "\<exists>s2 s3. ipc_send_all s1 cid pid ds = Some s2 \<and>
           ipc_recv_n s2 cid (length ds) = (map (message_new pid) ds, s3) \<and>
           ipc_contents s3 cid = []"
proof -
  have inv: "ipc_inv s" by (rule ipc_reachable_inv[OF assms(1)])
  note c = table_create_Some[OF assms(2)[unfolded create_channel_def] inv]
  have "ipc_inv s1" using table_create_inv[OF inv] assms(2) by (simp add: create_channel_def)
  then have op: "ipc_open cid s1" "ipc_contents s1 cid = []"
    using c by (simp_all add: ipc_open_def ipc_contents_def channel_new_inv)
  have "length (ipc_contents s1 cid) + length (map (message_new pid) ds) \<le> RING_CAP - 1"
    using op assms(3) by (simp add: RING_CAP_def)
  from ipcq.send_recv_roundtrip[OF op this] show ?thesis
    by (simp add: ipc_send_all_fifo ipc_recv_n_fifo)
qed


theorem ipc_create_send_recv_roundtrip_witness:
  "\<exists>s1 s2 s3. create_channel ipc_init = (Some 1, s1) \<and> ipc_send_all s1 1 7 [[1], [2, 3]] = Some s2 \<and>
     ipc_recv_n s2 1 2 = ([message_new 7 [1], message_new 7 [2, 3]], s3)"
proof -
  have c: "create_channel ipc_init = (Some 1, snd (create_channel ipc_init))"
    by (simp add: create_channel_def table_create_def arc_new_def ipc_init_def MAX_CHANNELS_def
        numeral_eq_Suc)
  show ?thesis
    using ipc_create_send_recv_roundtrip[OF reach_init c, of "[[1], [2, 3]]" 7] c
    by (auto simp: numeral_2_eq_2)
qed

end
