(* ===== verification/Ziqa_BTree.thy ===== *)
theory Ziqa_BTree
  imports Ziqa_Prelude
begin

text \<open>
  The ordered collections of the Rust standard library that the kernel keeps its tables in.
  \<open>BTreeMap\<close> is an association list with strictly increasing keys, so that iteration visits
  the entries in the order the library does; \<open>BTreeSet\<close> is a strictly increasing list.  The
  locale \<open>kv_map\<close> is the contract the clients use of any keyed table; it is interpreted here
  on the ordered map and in later theories on the kernel's own tables.
\<close>

section \<open>Keyed tables as an interface\<close>

datatype ('k, 'v) kv_op = Put 'k 'v | Del 'k

fun kv_spec :: "('k \<Rightarrow> 'v option) \<Rightarrow> ('k, 'v) kv_op \<Rightarrow> 'k \<Rightarrow> 'v option" where
  "kv_spec f (Put k v) = f(k \<mapsto> v)"
| "kv_spec f (Del k) = f(k := None)"

locale kv_map =
  fixes get :: "'m \<Rightarrow> 'k \<Rightarrow> 'v option"
    and put :: "'m \<Rightarrow> 'k \<Rightarrow> 'v \<Rightarrow> 'm"
    and del :: "'m \<Rightarrow> 'k \<Rightarrow> 'm"
    and invar :: "'m \<Rightarrow> bool"
  assumes get_put: "invar m \<Longrightarrow> get (put m k v) = (get m)(k \<mapsto> v)"
    and get_del: "invar m \<Longrightarrow> get (del m k) = (get m)(k := None)"
    and invar_put: "invar m \<Longrightarrow> invar (put m k v)"
    and invar_del: "invar m \<Longrightarrow> invar (del m k)"
begin

fun apply_op :: "'m \<Rightarrow> ('k, 'v) kv_op \<Rightarrow> 'm" where
  "apply_op m (Put k v) = put m k v"
| "apply_op m (Del k) = del m k"

lemma apply_op_refines:
  "invar m \<Longrightarrow> invar (apply_op m op) \<and> get (apply_op m op) = kv_spec (get m) op"
  by (cases op) (simp_all add: get_put get_del invar_put invar_del)

lemma run_refines:
  "invar m \<Longrightarrow> invar (foldl apply_op m ops) \<and> get (foldl apply_op m ops) = foldl kv_spec (get m) ops"
  by (induction ops arbitrary: m) (simp_all add: apply_op_refines)

lemma get_put_same: "invar m \<Longrightarrow> get (put m k v) k = Some v"
  by (simp add: get_put)

lemma get_put_other: "invar m \<Longrightarrow> k \<noteq> k' \<Longrightarrow> get (put m k v) k' = get m k'"
  by (simp add: get_put)

lemma get_del_put: "invar m \<Longrightarrow> get m k = None \<Longrightarrow> get (del (put m k v) k) = get m"
  by (simp add: get_put get_del invar_put fun_upd_idem)

end

section \<open>\<open>BTreeMap\<close>\<close>

type_synonym ('k, 'v) btree = "('k \<times> 'v) list"

fun bt_insert :: "'k::linorder \<Rightarrow> 'v \<Rightarrow> ('k, 'v) btree \<Rightarrow> ('k, 'v) btree" where
  "bt_insert k v [] = [(k, v)]"
| "bt_insert k v ((k', v') # m) =
     (if k < k' then (k, v) # (k', v') # m
      else if k = k' then (k, v) # m
      else (k', v') # bt_insert k v m)"

fun bt_remove :: "'k::linorder \<Rightarrow> ('k, 'v) btree \<Rightarrow> ('k, 'v) btree" where
  "bt_remove k [] = []"
| "bt_remove k ((k', v') # m) = (if k = k' then m else (k', v') # bt_remove k m)"

abbreviation bt_get :: "('k, 'v) btree \<Rightarrow> 'k \<Rightarrow> 'v option" where
  "bt_get \<equiv> map_of"

definition bt_keys :: "('k, 'v) btree \<Rightarrow> 'k list" where
  "bt_keys m = map fst m"

definition bt_inv :: "('k::linorder, 'v) btree \<Rightarrow> bool" where
  "bt_inv m \<longleftrightarrow> sorted_wrt (<) (bt_keys m)"

text \<open>\<open>get_mut\<close> followed by an update of the borrowed value.\<close>

definition bt_modify :: "'k::linorder \<Rightarrow> ('v \<Rightarrow> 'v) \<Rightarrow> ('k, 'v) btree \<Rightarrow> ('k, 'v) btree" where
  "bt_modify k f m = (case bt_get m k of None \<Rightarrow> m | Some v \<Rightarrow> bt_insert k (f v) m)"

lemma bt_inv_Nil [simp]: "bt_inv []"
  by (simp add: bt_inv_def bt_keys_def)

lemma bt_inv_Cons [simp]: "bt_inv ((k, v) # m) \<longleftrightarrow> bt_inv m \<and> (\<forall>k' \<in> fst ` set m. k < k')"
  by (auto simp: bt_inv_def bt_keys_def)

lemma keys_insert: "fst ` set (bt_insert k v m) = insert k (fst ` set m)"
  by (induction k v m rule: bt_insert.induct) auto

lemma keys_remove: "fst ` set (bt_remove k m) \<subseteq> fst ` set m"
  by (induction k m rule: bt_remove.induct) auto

lemma set_remove: "set (bt_remove k m) \<subseteq> set m"
  by (induction k m rule: bt_remove.induct) auto

lemma bt_insert_inv [simp]: "bt_inv m \<Longrightarrow> bt_inv (bt_insert k v m)"
  by (induction k v m rule: bt_insert.induct) (auto simp: keys_insert)

lemma bt_remove_inv [simp]: "bt_inv m \<Longrightarrow> bt_inv (bt_remove k m)"
  by (induction k m rule: bt_remove.induct) (use keys_remove in fastforce)+

lemma bt_get_insert [simp]: "bt_get (bt_insert k v m) = (bt_get m)(k \<mapsto> v)"
  by (induction k v m rule: bt_insert.induct) (auto simp: fun_eq_iff)

lemma bt_get_below: "\<forall>x \<in> set m. (k::'k::linorder) < fst x \<Longrightarrow> bt_get m k = None"
  by (auto simp: map_of_eq_None_iff)

lemma bt_get_in: "bt_get m k = Some v \<Longrightarrow> \<exists>x \<in> set m. fst x = k"
  by (force dest: map_of_SomeD)

lemma bt_get_remove [simp]: "bt_inv m \<Longrightarrow> bt_get (bt_remove k m) = (bt_get m)(k := None)"
  by (induction k m rule: bt_remove.induct) (auto simp: fun_eq_iff bt_get_below)

lemma bt_get_modify [simp]:
  "bt_get (bt_modify k f m) = (bt_get m)(k := map_option f (bt_get m k))"
  by (auto simp: bt_modify_def fun_eq_iff split: option.split)

lemma bt_modify_inv [simp]: "bt_inv m \<Longrightarrow> bt_inv (bt_modify k f m)"
  by (simp add: bt_modify_def split: option.split)

lemma bt_inv_distinct: "bt_inv m \<Longrightarrow> distinct (map fst m)"
  by (simp add: bt_inv_def bt_keys_def strict_sorted_iff)

lemma bt_keys_overwrite: "bt_inv m \<Longrightarrow> bt_get m k = Some v \<Longrightarrow> bt_keys (bt_insert k w m) = bt_keys m"
proof (induction m)
  case (Cons e m)
  obtain k' v' where e: "e = (k', v')" by fastforce
  have "\<not> k < k'"
  proof
    assume "k < k'"
    with Cons.prems(1) e have "bt_get (e # m) k = None"
      by (auto simp: map_of_eq_None_iff)
    with Cons.prems(2) show False by simp
  qed
  with Cons e show ?case by (auto simp: bt_keys_def)
qed simp

lemma bt_keys_modify [simp]: "bt_inv m \<Longrightarrow> bt_keys (bt_modify k f m) = bt_keys m"
  by (auto simp: bt_modify_def bt_keys_overwrite split: option.split)

lemma bt_keys_get: "k \<in> set (bt_keys m) \<longleftrightarrow> bt_get m k \<noteq> None"
  by (force simp: bt_keys_def map_of_eq_None_iff)

interpretation bt: kv_map bt_get "\<lambda>m k v. bt_insert k v m" "\<lambda>m k. bt_remove k m" bt_inv
  by unfold_locales simp_all

section \<open>\<open>BTreeSet\<close>\<close>

definition bs_inv :: "'a::linorder list \<Rightarrow> bool" where
  "bs_inv xs \<longleftrightarrow> sorted_wrt (<) xs"

definition bs_insert :: "'a::linorder \<Rightarrow> 'a list \<Rightarrow> 'a list" where
  "bs_insert x xs = (if x \<in> set xs then xs else insort x xs)"

definition bs_pop_first :: "'a list \<Rightarrow> ('a \<times> 'a list) option" where
  "bs_pop_first xs = (case xs of [] \<Rightarrow> None | x # ys \<Rightarrow> Some (x, ys))"

lemma bs_inv_Nil [simp]: "bs_inv []"
  by (simp add: bs_inv_def)

lemma bs_insert_inv [simp]: "bs_inv xs \<Longrightarrow> bs_inv (bs_insert x xs)"
  by (auto simp: bs_inv_def bs_insert_def strict_sorted_iff sorted_insort distinct_insort)

lemma set_bs_insert [simp]: "set (bs_insert x xs) = insert x (set xs)"
  by (auto simp: bs_insert_def set_insort_key)

lemma bs_inv_Cons: "bs_inv (x # xs) \<longleftrightarrow> bs_inv xs \<and> (\<forall>y \<in> set xs. x < y)"
  by (auto simp: bs_inv_def)

lemma bs_insert_last: "\<forall>y \<in> set xs. y < x \<Longrightarrow> bs_insert x xs = xs @ [x]"
  by (induction xs) (auto simp: bs_insert_def split: if_splits)

lemma bs_inv_filter [simp]: "bs_inv xs \<Longrightarrow> bs_inv (filter P xs)"
  by (simp add: bs_inv_def sorted_wrt_filter)

end
