(* ===== verification/Ziqa_Capability.thy ===== *)
theory Ziqa_Capability
  imports Ziqa_BTree
begin

text \<open>
  \<open>src/src/capability/mod.rs\<close>: permission bits, capability tokens, the per-process
  capability space and the global revocation tree.  \<open>cap_global\<close> holds the two statics
  \<open>NEXT_ID\<close> and \<open>REVOCATION_TREE\<close>.  The recursion of \<open>get_all_descendants\<close> has no visited
  set, so it is a partial function: \<open>None\<close> stands for a recursion that does not end.  The
  system-wide revocation over the process table is in \<open>Ziqa_Revocation\<close>.
\<close>

section \<open>Tokens\<close>

datatype resource_kind =
  Memory | File | Network | DeviceIo | ProcessCreate | AbiPlugin | ProcessDebug | IpcChannel
| ZiqaFsMount

record permissions =
  p_read :: bool
  p_write :: bool
  p_execute :: bool
  p_delegate :: bool

definition read_only :: permissions where
  "read_only = \<lparr>p_read = True, p_write = False, p_execute = False, p_delegate = False\<rparr>"

definition read_write :: permissions where
  "read_write = \<lparr>p_read = True, p_write = True, p_execute = False, p_delegate = False\<rparr>"

definition full_perm :: permissions where
  "full_perm = \<lparr>p_read = True, p_write = True, p_execute = True, p_delegate = True\<rparr>"

record capability_token =
  cap_id :: u64
  cap_parent :: "u64 option"
  cap_resource :: resource_kind
  cap_perms :: permissions
  cap_target :: u64

definition token_new :: "u64 \<Rightarrow> u64 option \<Rightarrow> resource_kind \<Rightarrow> permissions \<Rightarrow> u64 \<Rightarrow> capability_token" where
  "token_new i parent resource perms target =
     \<lparr>cap_id = i, cap_parent = parent, cap_resource = resource, cap_perms = perms,
      cap_target = target\<rparr>"

definition allows :: "capability_token \<Rightarrow> resource_kind \<Rightarrow> bool \<Rightarrow> bool \<Rightarrow> bool" where
  "allows cap resource needs_write needs_exec =
     (if cap_resource cap \<noteq> resource then False
      else if needs_write \<and> \<not> p_write (cap_perms cap) then False
      else if needs_exec \<and> \<not> p_execute (cap_perms cap) then False
      else True)"

section \<open>The global tables\<close>

type_synonym rev_tree = "(u64, u64 list) btree"

record cap_global =
  next_id :: u64
  revocation_tree :: rev_tree

definition cap_global_init :: cap_global where
  "cap_global_init = \<lparr>next_id = 1, revocation_tree = []\<rparr>"

definition alloc_id :: "cap_global \<Rightarrow> u64 \<times> cap_global" where
  "alloc_id g = (next_id g, g\<lparr>next_id := next_id g + 1\<rparr>)"

definition tree_kids :: "rev_tree \<Rightarrow> u64 \<Rightarrow> u64 list" where
  "tree_kids t i = (case bt_get t i of None \<Rightarrow> [] | Some kids \<Rightarrow> kids)"

definition add_child :: "rev_tree \<Rightarrow> u64 \<Rightarrow> u64 \<Rightarrow> rev_tree" where
  "add_child t parent child = bt_insert parent (tree_kids t parent @ [child]) t"

definition remove_node :: "rev_tree \<Rightarrow> u64 \<Rightarrow> rev_tree" where
  "remove_node t i = bt_remove i t"

text \<open>The loop over the children of a node, each child pushed and then visited.\<close>

partial_function (option) visit_kids :: "rev_tree \<Rightarrow> u64 list \<Rightarrow> u64 list \<Rightarrow> u64 list option" where
  "visit_kids t kids out =
     (case kids of
        [] \<Rightarrow> Some out
      | kid # ks \<Rightarrow>
          Option.bind (visit_kids t (tree_kids t kid) (out @ [kid])) (\<lambda>out'. visit_kids t ks out'))"

definition get_all_descendants :: "rev_tree \<Rightarrow> u64 \<Rightarrow> u64 list \<Rightarrow> u64 list option" where
  "get_all_descendants t i out = visit_kids t (tree_kids t i) out"

section \<open>Capability spaces\<close>

type_synonym capability_space = "capability_token list"

definition space_new :: capability_space where
  "space_new = []"

definition grant ::
  "cap_global \<Rightarrow> capability_space \<Rightarrow> resource_kind \<Rightarrow> permissions \<Rightarrow> u64 \<Rightarrow> u64 option \<Rightarrow>
   u64 option \<times> cap_global \<times> capability_space" where
  "grant g caps resource perms target parent =
     (let (i, g) = alloc_id g;
          token = token_new i parent resource perms target;
          g = (case parent of None \<Rightarrow> g
               | Some p \<Rightarrow> g\<lparr>revocation_tree := add_child (revocation_tree g) p i\<rparr>)
      in (Some i, g, caps @ [token]))"

definition revoke_local :: "capability_space \<Rightarrow> u64 \<Rightarrow> bool \<times> capability_space" where
  "revoke_local caps i =
     (case position (\<lambda>cap. cap_id cap = i) caps of
        Some pos \<Rightarrow> (True, take pos caps @ drop (Suc pos) caps)
      | None \<Rightarrow> (False, caps))"

definition cap_lookup :: "capability_space \<Rightarrow> u64 \<Rightarrow> capability_token option" where
  "cap_lookup caps i = find (\<lambda>cap. cap_id cap = i) caps"

definition has_permission :: "capability_space \<Rightarrow> resource_kind \<Rightarrow> bool \<Rightarrow> bool \<Rightarrow> bool" where
  "has_permission caps resource needs_write needs_exec =
     list_ex (\<lambda>cap. allows cap resource needs_write needs_exec) caps"

section \<open>Spaces with unique tokens\<close>

definition space_inv :: "cap_global \<Rightarrow> capability_space \<Rightarrow> bool" where
  "space_inv g caps \<longleftrightarrow>
     distinct (map cap_id caps) \<and> (\<forall>cap \<in> set caps. cap_id cap < next_id g)"

definition ids_left :: "cap_global \<Rightarrow> bool" where
  "ids_left g \<longleftrightarrow> unat (next_id g) + 1 < 2 ^ 64"

lemma next_id_less: "ids_left g \<Longrightarrow> next_id g < next_id g + 1"
  unfolding ids_left_def by (rule less_Suc_word) simp

lemma grant_inv:
  assumes "space_inv g caps" "ids_left g" "grant g caps r p t parent = (i, g', caps')"
  shows "space_inv g' caps'" "i = Some (next_id g)" "next_id g' = next_id g + 1"
    "caps' = caps @ [token_new (next_id g) parent r p t]"
proof -
  from assms(3) show i: "i = Some (next_id g)" "next_id g' = next_id g + 1"
    "caps' = caps @ [token_new (next_id g) parent r p t]"
    by (auto simp: grant_def alloc_id_def Let_def split: option.splits)
  from assms(1) have "\<forall>cap \<in> set caps. cap_id cap < next_id g + 1"
    using next_id_less[OF assms(2)] by (auto simp: space_inv_def intro: less_trans)
  with assms(1) i next_id_less[OF assms(2)] show "space_inv g' caps'"
    by (auto simp: space_inv_def token_new_def)
qed

lemma space_inv_mono: "space_inv g caps \<Longrightarrow> next_id g \<le> next_id g' \<Longrightarrow> space_inv g' caps"
  by (auto simp: space_inv_def)

lemma revoke_local_filter:
  assumes "distinct (map cap_id caps)"
  shows "snd (revoke_local caps i) = filter (\<lambda>cap. cap_id cap \<noteq> i) caps"
proof (cases "position (\<lambda>cap. cap_id cap = i) caps")
  case None
  then have "filter (\<lambda>cap. cap_id cap \<noteq> i) caps = caps" by simp
  then show ?thesis by (simp only: revoke_local_def None option.case snd_conv)
next
  case (Some n)
  then have n: "n < length caps" "cap_id (caps ! n) = i" by (auto dest: position_SomeD)
  define as bs where "as = take n caps" and "bs = drop (Suc n) caps"
  from n have split: "caps = as @ caps ! n # bs" by (simp add: as_def bs_def id_take_nth_drop)
  with assms have "distinct (map cap_id (as @ caps ! n # bs))" by simp
  with n have "\<forall>cap \<in> set as \<union> set bs. cap_id cap \<noteq> i" by (auto simp: image_iff)
  then have "filter (\<lambda>cap. cap_id cap \<noteq> i) (as @ caps ! n # bs) = as @ bs"
    using n by (simp add: filter_id_conv)
  with Some split show ?thesis by (simp add: revoke_local_def as_def bs_def)
qed

lemma distinct_map_filter_id: "distinct (map cap_id caps) \<Longrightarrow> distinct (map cap_id (filter P caps))"
  by (rule distinct_map_filter)

lemma revoke_local_inv: "space_inv g caps \<Longrightarrow> space_inv g (snd (revoke_local caps i))"
  by (auto simp: space_inv_def revoke_local_filter distinct_map_filter_id)

lemma revoke_all_filter:
  "distinct (map cap_id caps) \<Longrightarrow>
   foldl (\<lambda>c i. snd (revoke_local c i)) caps ids = filter (\<lambda>cap. cap_id cap \<notin> set ids) caps"
proof (induction ids arbitrary: caps)
  case (Cons i ids)
  from Cons.IH[OF distinct_map_filter_id[OF Cons.prems, of "\<lambda>cap. cap_id cap \<noteq> i"]]
  show ?case by (simp add: revoke_local_filter[OF Cons.prems])
qed simp

section \<open>Termination and result of the descendant search\<close>

text \<open>A tree all of whose edges go to a larger identifier, below a bound.\<close>

definition tree_inv :: "cap_global \<Rightarrow> bool" where
  "tree_inv g \<longleftrightarrow> bt_inv (revocation_tree g) \<and>
     (\<forall>p. \<forall>k \<in> set (tree_kids (revocation_tree g) p). p < k \<and> k < next_id g)"

definition child :: "rev_tree \<Rightarrow> u64 \<Rightarrow> u64 \<Rightarrow> bool" where
  "child t p k \<longleftrightarrow> k \<in> set (tree_kids t p)"

lemma visit_kids_Nil [simp]: "visit_kids t [] out = Some out"
  by (simp add: visit_kids.simps)

lemma visit_kids_Cons:
  "visit_kids t (k # ks) out =
     Option.bind (visit_kids t (tree_kids t k) (out @ [k])) (visit_kids t ks)"
  by (subst visit_kids.simps) simp

lemma descend_from_kid:
  "{d. (child t)\<^sup>*\<^sup>* k d} = insert k {d. \<exists>k' \<in> set (tree_kids t k). (child t)\<^sup>*\<^sup>* k' d}"
proof (intro set_eqI iffI)
  fix d assume "d \<in> {d. (child t)\<^sup>*\<^sup>* k d}"
  then have "(child t)\<^sup>*\<^sup>* k d" by simp
  then show "d \<in> insert k {d. \<exists>k' \<in> set (tree_kids t k). (child t)\<^sup>*\<^sup>* k' d}"
    by (cases rule: converse_rtranclpE) (auto simp: child_def)
qed (auto simp: child_def intro: converse_rtranclp_into_rtranclp)

lemma visit_kids_total:
  assumes "\<forall>p. \<forall>k \<in> set (tree_kids t p). unat p < unat k \<and> unat k < M"
    and "\<forall>k \<in> set kids. M - unat k \<le> n"
  shows "\<exists>out'. visit_kids t kids out = Some out' \<and>
           set out' = set out \<union> {d. \<exists>k \<in> set kids. (child t)\<^sup>*\<^sup>* k d}"
  using assms(2)
proof (induction n arbitrary: kids out)
  case 0
  have "tree_kids t k = []" if "k \<in> set kids" for k
  proof -
    from 0 that have "M \<le> unat k" by simp
    with assms(1) have "k' \<notin> set (tree_kids t k)" for k' by (meson leD le_less_trans less_le_trans less_trans)
    then show ?thesis by (metis list.set_intros(1) neq_Nil_conv)
  qed
  then show ?case
  proof (induction kids arbitrary: out)
    case (Cons k ks)
    then show ?case using descend_from_kid[of t k] by (force simp: visit_kids_Cons)
  qed simp
next
  case (Suc n)
  from Suc.prems show ?case
  proof (induction kids arbitrary: out)
    case (Cons k ks)
    have "\<forall>k' \<in> set (tree_kids t k). M - unat k' \<le> n"
      using assms(1) Cons.prems by fastforce
    from Suc.IH[OF this, of "out @ [k]"] obtain out1 where
      o1: "visit_kids t (tree_kids t k) (out @ [k]) = Some out1"
        "set out1 = set (out @ [k]) \<union> {d. \<exists>k' \<in> set (tree_kids t k). (child t)\<^sup>*\<^sup>* k' d}" by blast
    from Cons.IH[of out1] Cons.prems obtain out2 where
      o2: "visit_kids t ks out1 = Some out2"
        "set out2 = set out1 \<union> {d. \<exists>k \<in> set ks. (child t)\<^sup>*\<^sup>* k d}" by auto
    show ?case using descend_from_kid[of t k] by (force simp: visit_kids_Cons o1 o2)
  qed simp
qed

lemma get_all_descendants_total:
  assumes "tree_inv g"
  shows "\<exists>out'. get_all_descendants (revocation_tree g) i out = Some out' \<and>
           set out' = set out \<union> {d. (child (revocation_tree g))\<^sup>+\<^sup>+ i d}"
proof -
  let ?t = "revocation_tree g"
  have "\<forall>p. \<forall>k \<in> set (tree_kids ?t p). unat p < unat k \<and> unat k < unat (next_id g)"
    using assms by (simp add: tree_inv_def word_less_nat_alt)
  from visit_kids_total[OF this, of "tree_kids ?t i" "unat (next_id g)" out]
  obtain out' where "visit_kids ?t (tree_kids ?t i) out = Some out'"
    "set out' = set out \<union> {d. \<exists>k \<in> set (tree_kids ?t i). (child ?t)\<^sup>*\<^sup>* k d}" by auto
  moreover have "{d. \<exists>k \<in> set (tree_kids ?t i). (child ?t)\<^sup>*\<^sup>* k d} = {d. (child ?t)\<^sup>+\<^sup>+ i d}"
    by (auto simp: child_def tranclp_unfold_left OO_def)
  ultimately show ?thesis by (simp add: get_all_descendants_def)
qed

lemma tree_kids_add_child:
  "tree_kids (add_child t p c) q = (if q = p then tree_kids t p @ [c] else tree_kids t q)"
  by (simp add: tree_kids_def add_child_def)

lemma add_child_inv [simp]: "bt_inv t \<Longrightarrow> bt_inv (add_child t p c)"
  by (simp add: add_child_def)

lemma tree_kids_remove_node:
  "bt_inv t \<Longrightarrow> tree_kids (remove_node t i) q = (if q = i then [] else tree_kids t q)"
  by (simp add: tree_kids_def remove_node_def)

lemma grant_tree_inv:
  assumes "tree_inv g" "ids_left g" "\<forall>p. parent = Some p \<longrightarrow> p < next_id g"
    "grant g caps r perms t parent = (i, g', caps')"
  shows "tree_inv g'"
proof -
  have "next_id g < next_id g + 1" by (rule next_id_less[OF assms(2)])
  then have "k < next_id g + 1" if "k < next_id g" for k using that by (rule less_trans[rotated])
  with assms \<open>next_id g < next_id g + 1\<close> show ?thesis
    by (auto simp: tree_inv_def grant_def alloc_id_def Let_def tree_kids_add_child
        split: option.splits if_splits)
qed

lemma remove_node_inv:
  "tree_inv g \<Longrightarrow> tree_inv (g\<lparr>revocation_tree := remove_node (revocation_tree g) i\<rparr>)"
  by (auto simp: tree_inv_def tree_kids_remove_node) (simp add: remove_node_def)

end
