(* ===== verification/Ziqa_Signal.thy ===== *)
theory Ziqa_Signal
  imports Ziqa_Prelude
begin

text \<open>
  \<open>src/src/process/signal.rs\<close> and \<open>src/src/ipc/signal.rs\<close>: the pending and blocked bit
  masks of a process, its action table, the default dispositions, the part of
  \<open>deliver_signal_to_user\<close> that runs on the process found, and the small signal queue.  The
  masks are 32-bit words; signal \<open>n\<close> is bit \<open>n - 1\<close>.
\<close>

section \<open>Signal numbers and actions\<close>

definition SIGHUP :: u8 where "SIGHUP = 1"
definition SIGINT :: u8 where "SIGINT = 2"
definition SIGQUIT :: u8 where "SIGQUIT = 3"
definition SIGILL :: u8 where "SIGILL = 4"
definition SIGTRAP :: u8 where "SIGTRAP = 5"
definition SIGABRT :: u8 where "SIGABRT = 6"
definition SIGBUS :: u8 where "SIGBUS = 7"
definition SIGFPE :: u8 where "SIGFPE = 8"
definition SIGKILL :: u8 where "SIGKILL = 9"
definition SIGUSR1 :: u8 where "SIGUSR1 = 10"
definition SIGSEGV :: u8 where "SIGSEGV = 11"
definition SIGUSR2 :: u8 where "SIGUSR2 = 12"
definition SIGPIPE :: u8 where "SIGPIPE = 13"
definition SIGALRM :: u8 where "SIGALRM = 14"
definition SIGTERM :: u8 where "SIGTERM = 15"
definition SIGCHLD :: u8 where "SIGCHLD = 17"
definition SIGCONT :: u8 where "SIGCONT = 18"
definition SIGSTOP :: u8 where "SIGSTOP = 19"
definition SIG_MAX :: u8 where "SIG_MAX = 32"

lemmas sig_defs = SIGHUP_def SIGINT_def SIGQUIT_def SIGILL_def SIGTRAP_def SIGABRT_def
  SIGBUS_def SIGFPE_def SIGKILL_def SIGUSR1_def SIGSEGV_def SIGUSR2_def SIGPIPE_def
  SIGALRM_def SIGTERM_def SIGCHLD_def SIGCONT_def SIGSTOP_def SIG_MAX_def

datatype signal_action = Default | Ignore | Handler u64

record signal_state =
  pending :: u32
  blocked :: u32
  actions :: "signal_action list"
  pending_signal :: u8
  handler_addr :: u64

definition signal_new :: signal_state where
  "signal_new = \<lparr>pending = 0, blocked = 0, actions = replicate 32 Default,
                 pending_signal = 0, handler_addr = 0\<rparr>"

definition signal_send :: "signal_state \<Rightarrow> u8 \<Rightarrow> bool \<times> signal_state" where
  "signal_send s signum =
     (if signum = 0 \<or> signum > SIG_MAX then (False, s)
      else (True, s\<lparr>pending := pending s OR push_bit (unat (signum - 1)) 1\<rparr>))"

definition has_pending :: "signal_state \<Rightarrow> bool" where
  "has_pending s = ((pending s AND NOT (blocked s)) \<noteq> 0)"

fun trailing_zeros_from :: "nat \<Rightarrow> nat \<Rightarrow> u32 \<Rightarrow> nat" where
  "trailing_zeros_from 0 i w = i"
| "trailing_zeros_from (Suc n) i w = (if bit w i then i else trailing_zeros_from n (Suc i) w)"

definition trailing_zeros :: "u32 \<Rightarrow> nat" where
  "trailing_zeros w = trailing_zeros_from 32 0 w"

definition dequeue :: "signal_state \<Rightarrow> u8 \<times> signal_state" where
  "dequeue s =
     (let deliverable = pending s AND NOT (blocked s)
      in if deliverable = 0 then (0, s)
         else let b = trailing_zeros deliverable
              in (of_nat b + 1, s\<lparr>pending := pending s AND NOT (push_bit b 1)\<rparr>))"

definition set_action :: "signal_state \<Rightarrow> u8 \<Rightarrow> signal_action \<Rightarrow> bool \<times> signal_state" where
  "set_action s signum action =
     (if signum = 0 \<or> signum > SIG_MAX then (False, s)
      else if signum = SIGKILL \<or> signum = SIGSTOP then (False, s)
      else (True, s\<lparr>actions := (actions s)[unat (signum - 1) := action]\<rparr>))"

definition get_action :: "signal_state \<Rightarrow> u8 \<Rightarrow> signal_action" where
  "get_action s signum =
     (if signum = 0 \<or> signum > SIG_MAX then Default else actions s ! unat (signum - 1))"

datatype default_disposition = Terminate | CoreDump | DispIgnore | Stop

definition default_action :: "u8 \<Rightarrow> default_disposition" where
  "default_action signum =
     (if signum = SIGCHLD \<or> signum = SIGCONT then DispIgnore
      else if signum = SIGSTOP then Stop
      else if signum \<in> {SIGKILL, SIGTERM, SIGHUP, SIGINT, SIGQUIT, SIGPIPE, SIGALRM, SIGUSR1, SIGUSR2}
      then Terminate
      else if signum \<in> {SIGSEGV, SIGBUS, SIGFPE, SIGILL, SIGTRAP, SIGABRT} then CoreDump
      else Terminate)"

text \<open>The closure that \<open>deliver_signal_to_user\<close> runs on the process: whether a handler was
  set up, and the new state.\<close>

definition deliver_signal :: "signal_state \<Rightarrow> unit option \<times> signal_state" where
  "deliver_signal s =
     (let (sig, s) = dequeue s
      in if sig = 0 then (None, s)
         else case get_action s sig of
                Ignore \<Rightarrow> (None, s)
              | Handler addr \<Rightarrow> (Some (), s\<lparr>pending_signal := sig, handler_addr := addr\<rparr>)
              | Default \<Rightarrow> (None, s))"

section \<open>The signal queue of the IPC layer\<close>

datatype ipc_signal = Kill | StopSig | Continue | Usr1 | Usr2

definition signal_number :: "ipc_signal \<Rightarrow> nat" where
  "signal_number g = (case g of Kill \<Rightarrow> 9 | StopSig \<Rightarrow> 19 | Continue \<Rightarrow> 18 | Usr1 \<Rightarrow> 10 | Usr2 \<Rightarrow> 12)"

definition signal_of_number :: "nat \<Rightarrow> ipc_signal option" where
  "signal_of_number i =
     (if i = 9 then Some Kill else if i = 19 then Some StopSig else if i = 18 then Some Continue
      else if i = 10 then Some Usr1 else if i = 12 then Some Usr2 else None)"

definition queue_push :: "u32 \<Rightarrow> ipc_signal \<Rightarrow> u32" where
  "queue_push q g = q OR push_bit (signal_number g) 1"

fun queue_pop_from :: "nat list \<Rightarrow> u32 \<Rightarrow> ipc_signal option \<times> u32" where
  "queue_pop_from [] q = (None, q)"
| "queue_pop_from (i # is) q =
     (if bit q i
      then let q = q AND NOT (push_bit i 1)
           in case signal_of_number i of Some g \<Rightarrow> (Some g, q) | None \<Rightarrow> queue_pop_from is q
      else queue_pop_from is q)"

definition queue_pop :: "u32 \<Rightarrow> ipc_signal option \<times> u32" where
  "queue_pop q = (if q = 0 then (None, q) else queue_pop_from [0..<32] q)"

section \<open>Masks as sets of signals\<close>

text \<open>The set of signal numbers pending in a mask.\<close>

definition signals_of :: "u32 \<Rightarrow> nat set" where
  "signals_of w = {n. 1 \<le> n \<and> n \<le> 32 \<and> bit w (n - 1)}"

definition deliverable :: "signal_state \<Rightarrow> nat set" where
  "deliverable s = signals_of (pending s) - signals_of (blocked s)"

lemma bit_bound32: "bit (w::u32) n \<Longrightarrow> n < 32"
  using bit_imp_le_length[of w n] by simp

lemma u32_eq_0: "(w::u32) = 0 \<longleftrightarrow> (\<forall>n<32. \<not> bit w n)"
  by (auto simp: bit_eq_iff dest: bit_bound32)

lemma trailing_zeros_from_least:
  assumes "\<exists>k. i \<le> k \<and> k < i + n \<and> bit w k"
  shows "bit w (trailing_zeros_from n i w) \<and> trailing_zeros_from n i w < i + n \<and>
         (\<forall>k. i \<le> k \<and> k < trailing_zeros_from n i w \<longrightarrow> \<not> bit w k)"
  using assms
proof (induction n arbitrary: i)
  case (Suc n)
  show ?case
  proof (cases "bit w i")
    case False
    with Suc.prems obtain k where "i \<le> k" "k < i + Suc n" "bit w k" "k \<noteq> i" by metis
    then have "\<exists>k. Suc i \<le> k \<and> k < Suc i + n \<and> bit w k" by (intro exI[of _ k]) simp
    from Suc.IH[OF this] False show ?thesis
      by (auto simp: Suc_le_eq) (metis le_neq_implies_less)
  qed auto
qed auto

lemma trailing_zeros_least:
  assumes "w \<noteq> 0"
  shows "bit w (trailing_zeros w)" "trailing_zeros w < 32" "k < trailing_zeros w \<Longrightarrow> \<not> bit w k"
  using trailing_zeros_from_least[of 0 32 w] assms by (auto simp: trailing_zeros_def u32_eq_0)

lemma bit_exp32: "bit ((2::u32) ^ b) n \<longleftrightarrow> n = b \<and> b < 32"
  by (auto simp: bit_exp_iff)

lemma deliverable_bits: "n \<in> deliverable s \<longleftrightarrow> 1 \<le> n \<and> bit (pending s AND NOT (blocked s)) (n - 1)"
  by (auto simp: deliverable_def signals_of_def bit_and_iff bit_not_iff dest: bit_bound32)

lemma has_pending_iff: "has_pending s \<longleftrightarrow> deliverable s \<noteq> {}"
proof -
  have "(\<exists>n<32. bit w n) \<longleftrightarrow> (\<exists>n. 1 \<le> n \<and> bit w (n - 1))" for w :: u32
    by (metis Suc_leI bit_bound32 diff_Suc_1 zero_less_Suc One_nat_def)
  then show ?thesis by (auto simp: has_pending_def u32_eq_0 deliverable_bits set_eq_iff)
qed

lemma dequeue_empty: "deliverable s = {} \<Longrightarrow> dequeue s = (0, s)"
  using has_pending_iff[of s] by (simp add: dequeue_def has_pending_def)

lemma dequeue_least:
  assumes "deliverable s \<noteq> {}"
  obtains n s' where "dequeue s = (of_nat n, s')" "n \<in> deliverable s" "\<forall>k \<in> deliverable s. n \<le> k"
    "signals_of (pending s') = signals_of (pending s) - {n}" "s' = s\<lparr>pending := pending s'\<rparr>"
    "1 \<le> n" "n \<le> 32"
proof -
  let ?d = "pending s AND NOT (blocked s)"
  from assms have nz: "?d \<noteq> 0" using has_pending_iff[of s] by (simp add: has_pending_def)
  note tz = trailing_zeros_least[OF nz]
  show ?thesis
  proof (rule that)
    show "dequeue s = (of_nat (Suc (trailing_zeros ?d)),
                       s\<lparr>pending := pending s AND NOT (push_bit (trailing_zeros ?d) 1)\<rparr>)"
      using nz by (simp add: dequeue_def Let_def add.commute)
    show "Suc (trailing_zeros ?d) \<in> deliverable s" using tz(1) by (simp add: deliverable_bits)
    show "\<forall>k \<in> deliverable s. Suc (trailing_zeros ?d) \<le> k"
    proof
      fix k assume "k \<in> deliverable s"
      then have "1 \<le> k" "bit ?d (k - 1)" by (simp_all add: deliverable_bits)
      with tz(3)[of "k - 1"] show "Suc (trailing_zeros ?d) \<le> k" by linarith
    qed
  qed (use tz in \<open>auto simp: signals_of_def bit_and_iff bit_not_iff bit_exp32\<close>)
qed

lemma signal_send_pending:
  assumes "1 \<le> n" "n \<le> 32"
  shows "fst (signal_send s (of_nat n))"
    "signals_of (pending (snd (signal_send s (of_nat n)))) = insert n (signals_of (pending s))"
proof -
  have n: "unat (of_nat n :: u8) = n" "(of_nat n :: u8) \<noteq> 0" "\<not> (of_nat n :: u8) > SIG_MAX"
    using assms by (auto simp: unat_of_nat_small SIG_MAX_def word_less_nat_alt
        dest!: arg_cong[where f = unat])
  then have "unat ((of_nat n :: u8) - 1) = n - 1" using assms by (simp add: unat_minus_one)
  with n assms show "fst (signal_send s (of_nat n))"
    "signals_of (pending (snd (signal_send s (of_nat n)))) = insert n (signals_of (pending s))"
    by (auto simp: signal_send_def signals_of_def bit_or_iff bit_exp32)
qed

definition signal_inv :: "signal_state \<Rightarrow> bool" where
  "signal_inv s \<longleftrightarrow> length (actions s) = 32 \<and> get_action s SIGKILL = Default \<and>
     get_action s SIGSTOP = Default"

lemma signal_new_inv: "signal_inv signal_new"
  by (simp add: signal_inv_def signal_new_def get_action_def sig_defs)

lemma unat_sub1_inj:
  fixes a b :: u8
  assumes "a \<noteq> 0" "b \<noteq> 0" "unat (a - 1) = unat (b - 1)"
  shows "a = b"
  using assms(3) by (simp add: word_unat_eq_iff[symmetric])

lemma set_action_get:
  assumes "length (actions s) = 32" "set_action s signum act = (True, s')"
  shows "get_action s' signum = act" "signum' \<noteq> signum \<Longrightarrow> get_action s' signum' = get_action s signum'"
    "length (actions s') = 32"
proof -
  from assms(2) have n: "signum \<noteq> 0" "\<not> signum > SIG_MAX"
    and s': "s' = s\<lparr>actions := (actions s)[unat (signum - 1) := act]\<rparr>"
    by (auto simp: set_action_def split: if_splits)
  have "unat (signum - 1) < 32"
    using n by (simp add: unat_minus_one SIG_MAX_def word_less_nat_alt)
  then show "get_action s' signum = act" "length (actions s') = 32"
    using n assms(1) by (simp_all add: get_action_def s')
  assume "signum' \<noteq> signum"
  show "get_action s' signum' = get_action s signum'"
  proof (cases "signum' = 0")
    case False
    with \<open>signum' \<noteq> signum\<close> n have "unat (signum - 1) \<noteq> unat (signum' - 1)"
      using unat_sub1_inj by metis
    then show ?thesis by (simp add: get_action_def s')
  qed (simp add: get_action_def)
qed

lemma set_action_inv: "signal_inv s \<Longrightarrow> signal_inv (snd (set_action s signum act))"
proof (cases "fst (set_action s signum act)")
  case True
  assume inv: "signal_inv s"
  from True have eq: "set_action s signum act = (True, snd (set_action s signum act))"
    by (metis prod.collapse)
  from True have "signum \<noteq> SIGKILL" "signum \<noteq> SIGSTOP" by (auto simp: set_action_def split: if_splits)
  with set_action_get[OF _ eq] inv show ?thesis by (auto simp: signal_inv_def)
qed (auto simp: set_action_def split: if_splits)

lemma deliver_signal_inv: "signal_inv s \<Longrightarrow> signal_inv (snd (deliver_signal s))"
  by (auto simp: signal_inv_def deliver_signal_def dequeue_def get_action_def Let_def
      split: signal_action.split)

lemma signal_send_inv: "signal_inv s \<Longrightarrow> signal_inv (snd (signal_send s signum))"
  by (auto simp: signal_inv_def signal_send_def get_action_def)

lemma dequeue_inv: "signal_inv s \<Longrightarrow> signal_inv (snd (dequeue s))"
  by (auto simp: signal_inv_def dequeue_def get_action_def Let_def)

lemma mask_inv: "signal_inv s \<Longrightarrow> signal_inv (s\<lparr>blocked := m\<rparr>)"
  by (simp add: signal_inv_def get_action_def sig_defs)

text \<open>Everything the kernel does with the signal state of a process.\<close>

datatype sig_op = OpSend u8 | OpDequeue | OpSetAction u8 signal_action | OpDeliver | OpMask u32

fun sig_apply :: "signal_state \<Rightarrow> sig_op \<Rightarrow> signal_state" where
  "sig_apply s (OpSend n) = snd (signal_send s n)"
| "sig_apply s OpDequeue = snd (dequeue s)"
| "sig_apply s (OpSetAction n a) = snd (set_action s n a)"
| "sig_apply s OpDeliver = snd (deliver_signal s)"
| "sig_apply s (OpMask m) = s\<lparr>blocked := m\<rparr>"

lemma sig_apply_inv: "signal_inv s \<Longrightarrow> signal_inv (sig_apply s op)"
  by (cases op)
     (simp_all add: signal_send_inv dequeue_inv set_action_inv deliver_signal_inv mask_inv)

lemma sig_run_inv: "signal_inv s \<Longrightarrow> signal_inv (foldl sig_apply s ops)"
  by (induction ops arbitrary: s) (simp_all add: sig_apply_inv)

lemma deliver_handler:
  assumes "deliver_signal s = (Some (), s')"
  shows "get_action s (pending_signal s') = Handler (handler_addr s')" "pending_signal s' \<noteq> 0"
  using assms
  by (auto simp: deliver_signal_def dequeue_def get_action_def Let_def
      split: signal_action.splits if_splits)

section \<open>Properties\<close>

text \<open>\<open>dequeue\<close> takes the lowest-numbered pending signal that is not blocked, clears its
  bit and no other, and leaves mask and actions alone; it answers 0 and changes nothing
  exactly when no unblocked signal is pending.\<close>

theorem dequeue_lowest_unblocked:
  "if deliverable s = {} then dequeue s = (0, s)
   else \<exists>p. dequeue s = (of_nat (Min (deliverable s)), s\<lparr>pending := p\<rparr>) \<and>
            1 \<le> Min (deliverable s) \<and> Min (deliverable s) \<le> 32 \<and>
            signals_of p = signals_of (pending s) - {Min (deliverable s)}"
proof (cases "deliverable s = {}")
  case True
  then show ?thesis by (simp add: dequeue_empty)
next
  case False
  then obtain n s' where d: "dequeue s = (of_nat n, s')" "n \<in> deliverable s"
    "\<forall>k \<in> deliverable s. n \<le> k" "signals_of (pending s') = signals_of (pending s) - {n}"
    "s' = s\<lparr>pending := pending s'\<rparr>" "1 \<le> n" "n \<le> 32" by (rule dequeue_least)
  have "finite (deliverable s)"
    by (rule finite_subset[of _ "{..32}"]) (auto simp: deliverable_def signals_of_def)
  with d(2,3) have "Min (deliverable s) = n" by (intro Min_eqI) auto
  with d False show ?thesis by metis
qed



end
