(* ===== verification/Ziqa_Vma.thy ===== *)
theory Ziqa_Vma
  imports Ziqa_Prelude
begin

text \<open>
  \<open>src/src/process/vma.rs\<close> and the region types of \<open>src/src/memory/paging.rs\<close>.  Virtual
  addresses are 64-bit words.  The arithmetic on them belongs to the \<open>x86_64\<close> crate: \<open>va_ops\<close>
  collects the operations the code calls (\<open>new\<close>, addition and \<open>align_up\<close>, which panic on a
  non-canonical result, and \<open>is_aligned\<close>); \<open>va_lower_half\<close> is what the crate documents of
  them below the canonical hole.  A panic is \<open>None\<close>.
\<close>

section \<open>Regions\<close>

record va_ops =
  va_new :: "u64 \<Rightarrow> u64 option"
  va_add :: "u64 \<Rightarrow> u64 \<Rightarrow> u64 option"
  va_align_up :: "u64 \<Rightarrow> u64 \<Rightarrow> u64 option"
  va_is_aligned :: "u64 \<Rightarrow> u64 \<Rightarrow> bool"

definition va_lower_half :: "va_ops \<Rightarrow> bool" where
  "va_lower_half va \<longleftrightarrow>
     (\<forall>a. unat a < 2 ^ 47 \<longrightarrow> va_new va a = Some a) \<and>
     (\<forall>a b. unat a + unat b < 2 ^ 47 \<longrightarrow> va_add va a b = Some (a + b)) \<and>
     (\<forall>a. unat a < 2 ^ 46 \<longrightarrow>
        (\<exists>c. va_align_up va a 4096 = Some c \<and> unat a \<le> unat c \<and> unat c < unat a + 4096 \<and>
             unat c mod 4096 = 0)) \<and>
     (\<forall>a. va_is_aligned va a 4096 \<longleftrightarrow> unat a mod 4096 = 0)"

record region_flags =
  readable :: bool
  writable :: bool
  executable :: bool
  user_accessible :: bool
  copy_on_write :: bool

definition flags_empty :: region_flags where
  "flags_empty = \<lparr>readable = False, writable = False, executable = False,
                  user_accessible = False, copy_on_write = False\<rparr>"

definition flags_read_write :: region_flags where
  "flags_read_write = \<lparr>readable = True, writable = True, executable = False,
                       user_accessible = True, copy_on_write = False\<rparr>"

record memory_region =
  r_start :: u64
  r_size :: u64
  r_flags :: region_flags
  r_is_file_backed :: bool
  r_file_path :: "string option"
  r_file_offset :: u64
  r_file_size :: u64
  r_bco_hook :: "u32 option"

definition grant_contains :: "memory_region \<Rightarrow> u64 \<Rightarrow> bool" where
  "grant_contains g addr = (r_start g \<le> addr \<and> addr < r_start g + r_size g)"

record vma =
  v_start :: u64
  v_end :: u64
  v_flags :: region_flags
  v_is_file_backed :: bool
  v_file_path :: "string option"
  v_file_offset :: u64
  v_file_size :: u64
  v_bco_hook :: "u32 option"

definition vma_new :: "va_ops \<Rightarrow> u64 \<Rightarrow> u64 \<Rightarrow> region_flags \<Rightarrow> vma option" where
  "vma_new va start sz flags =
     (case va_add va start sz of
        None \<Rightarrow> None
      | Some e \<Rightarrow> Some \<lparr>v_start = start, v_end = e, v_flags = flags, v_is_file_backed = False,
                        v_file_path = None, v_file_offset = 0, v_file_size = 0,
                        v_bco_hook = None\<rparr>)"

definition vma_contains :: "vma \<Rightarrow> u64 \<Rightarrow> bool" where
  "vma_contains v addr = (v_start v \<le> addr \<and> addr < v_end v)"

definition vma_from :: "va_ops \<Rightarrow> memory_region \<Rightarrow> vma option" where
  "vma_from va region =
     (case va_add va (r_start region) (r_size region) of
        None \<Rightarrow> None
      | Some e \<Rightarrow> Some \<lparr>v_start = r_start region, v_end = e, v_flags = r_flags region,
                        v_is_file_backed = r_is_file_backed region, v_file_path = None,
                        v_file_offset = r_file_offset region, v_file_size = r_file_size region,
                        v_bco_hook = r_bco_hook region\<rparr>)"

definition is_range_free :: "vma list \<Rightarrow> u64 \<Rightarrow> u64 \<Rightarrow> bool" where
  "is_range_free vmas start sz =
     (let e = start + sz in \<not> list_ex (\<lambda>v. start < v_end v \<and> v_start v < e) vmas)"

text \<open>The loop of \<open>find_free_range\<close>; a panic of \<open>current + sz\<close> is \<open>None\<close>.\<close>

fun scan_gaps :: "va_ops \<Rightarrow> u64 \<Rightarrow> vma list \<Rightarrow> u64 \<Rightarrow> u64 option" where
  "scan_gaps va sz [] current = Some current"
| "scan_gaps va sz (v # vs) current =
     (if v_end v \<le> current then scan_gaps va sz vs current
      else case va_add va current sz of
             None \<Rightarrow> None
           | Some e \<Rightarrow> if e \<le> v_start v then Some current else scan_gaps va sz vs (v_end v))"

definition find_free_range :: "va_ops \<Rightarrow> vma list \<Rightarrow> u64 \<Rightarrow> u64 \<Rightarrow> u64 option" where
  "find_free_range va vmas sz start_hint =
     (if start_hint \<noteq> 0 \<and> va_is_aligned va start_hint 4096 \<and> is_range_free vmas start_hint sz
      then Some start_hint
      else case (if start_hint \<noteq> 0 then va_align_up va start_hint 4096 else Some 0x40000000) of
             None \<Rightarrow> None
           | Some current \<Rightarrow> scan_gaps va sz vmas current)"

text \<open>\<open>Process::add_region\<close>: \<open>binary_search_by_key\<close> on the start address gives the position of
  an entry with that start, or else the insertion point; on a list sorted by start these are
  the index of the first entry with that start and the number of smaller entries.\<close>

definition region_pos :: "vma list \<Rightarrow> u64 \<Rightarrow> nat" where
  "region_pos vmas start = length (takeWhile (\<lambda>v. v_start v < start) vmas)"

definition insert_region :: "vma list \<Rightarrow> vma \<Rightarrow> vma list" where
  "insert_region vmas v =
     (let pos = region_pos vmas (v_start v) in take pos vmas @ v # drop pos vmas)"

section \<open>Address spaces without overlap\<close>

definition vmas_inv :: "vma list \<Rightarrow> bool" where
  "vmas_inv vmas \<longleftrightarrow> (\<forall>v \<in> set vmas. v_start v \<le> v_end v) \<and>
     sorted_wrt (\<lambda>v w. v_end v \<le> v_start w) vmas"

definition covers :: "vma list \<Rightarrow> u64 set" where
  "covers vmas = {a. \<exists>v \<in> set vmas. vma_contains v a}"

lemma vmas_inv_Nil [simp]: "vmas_inv []"
  by (simp add: vmas_inv_def)

lemma vmas_inv_Cons:
  "vmas_inv (v # vs) \<longleftrightarrow> v_start v \<le> v_end v \<and> (\<forall>w \<in> set vs. v_end v \<le> v_start w) \<and> vmas_inv vs"
  by (auto simp: vmas_inv_def)

lemma is_range_free_Cons [simp]:
  "is_range_free (v # vs) s n \<longleftrightarrow> \<not> (s < v_end v \<and> v_start v < s + n) \<and> is_range_free vs s n"
  by (auto simp: is_range_free_def Let_def)

lemma is_range_free_Nil [simp]: "is_range_free [] s n"
  by (simp add: is_range_free_def)

lemma is_range_free_above: "\<forall>w \<in> set vs. s + n \<le> v_start w \<Longrightarrow> is_range_free vs s n"
  by (induction vs) auto

lemma is_range_free_covers:
  assumes "is_range_free vmas s n" "a \<in> covers vmas"
  shows "\<not> (s \<le> a \<and> a < s + n)"
  using assms by (fastforce simp: is_range_free_def Let_def covers_def vma_contains_def list_ex_iff)

lemma scan_gaps_free:
  assumes "va_lower_half va" "vmas_inv vs" "unat cur + unat sz < 2 ^ 47"
    "\<forall>v \<in> set vs. unat (v_end v) + unat sz < 2 ^ 47"
  shows "\<exists>r. scan_gaps va sz vs cur = Some r \<and> is_range_free vs r sz \<and> cur \<le> r"
  using assms(2-)
proof (induction vs arbitrary: cur)
  case (Cons v vs)
  have add: "va_add va cur sz = Some (cur + sz)"
    using assms(1) Cons.prems(2) by (simp add: va_lower_half_def)
  note prems = Cons.prems[unfolded vmas_inv_Cons]
  show ?case
  proof (cases "v_end v \<le> cur")
    case True
    from Cons.IH[of cur] prems obtain r where
      "scan_gaps va sz vs cur = Some r" "is_range_free vs r sz" "cur \<le> r" by auto
    with True show ?thesis by auto
  next
    case False
    show ?thesis
    proof (cases "cur + sz \<le> v_start v")
      case True
      with prems have "\<forall>w \<in> set vs. cur + sz \<le> v_start w" by (meson order_trans)
      with True False add show ?thesis by (auto simp: is_range_free_above)
    next
      case below: False
      from Cons.IH[of "v_end v"] prems obtain r where
        "scan_gaps va sz vs (v_end v) = Some r" "is_range_free vs r sz" "v_end v \<le> r" by auto
      with False below add show ?thesis by auto
    qed
  qed
qed simp

lemma sorted_takeWhile_drop:
  assumes "vmas_inv vmas" "v \<in> set (drop (region_pos vmas s) vmas)"
  shows "s \<le> v_start v"
  using assms
proof (induction vmas)
  case (Cons w vs)
  show ?case
  proof (cases "v_start w < s")
    case True
    with Cons show ?thesis by (simp add: region_pos_def vmas_inv_Cons)
  next
    case False
    with Cons.prems show ?thesis
      by (auto simp: region_pos_def vmas_inv_Cons dest!: bspec[of _ _ v] intro: order_trans)
  qed
qed simp

lemma insert_region_inv:
  assumes inv: "vmas_inv vmas" and free: "is_range_free vmas (v_start v) n"
    and v: "v_end v = v_start v + n" "v_start v < v_end v"
    and ne: "\<forall>w \<in> set vmas. v_start w < v_end w"
  shows "vmas_inv (insert_region vmas v)"
proof -
  define pos where "pos = region_pos vmas (v_start v)"
  have out: "v_end w \<le> v_start v \<or> v_end v \<le> v_start w" if "w \<in> set vmas" for w
    using free that v(1) by (auto simp: is_range_free_def Let_def list_ex_iff not_less)
  have lo: "v_end w \<le> v_start v" if "w \<in> set (take pos vmas)" for w
  proof -
    from that have "w \<in> set (takeWhile (\<lambda>w. v_start w < v_start v) vmas)"
      by (simp add: pos_def region_pos_def takeWhile_eq_take[symmetric])
    then have "v_start w < v_start v" "w \<in> set vmas" by (auto dest: set_takeWhileD)
    with out v(2) show ?thesis by (meson leD less_trans le_less_trans order_trans)
  qed
  have hi: "v_end v \<le> v_start w" if "w \<in> set (drop pos vmas)" for w
  proof -
    from that have "v_start v \<le> v_start w" unfolding pos_def
      by (rule sorted_takeWhile_drop[OF inv])
    moreover from that have "w \<in> set vmas" by (rule in_set_dropD)
    ultimately show ?thesis using out ne by (meson leD order_trans le_less_trans)
  qed
  have "sorted_wrt (\<lambda>v w. v_end v \<le> v_start w) (take pos vmas) \<and>
        sorted_wrt (\<lambda>v w. v_end v \<le> v_start w) (drop pos vmas) \<and>
        (\<forall>x \<in> set (take pos vmas). \<forall>y \<in> set (drop pos vmas). v_end x \<le> v_start y)"
    using inv sorted_wrt_append[of "\<lambda>v w. v_end v \<le> v_start w" "take pos vmas" "drop pos vmas"]
    by (simp add: vmas_inv_def)
  with inv lo hi v(2) show ?thesis
    by (auto simp: vmas_inv_def insert_region_def Let_def pos_def[symmetric] sorted_wrt_append
        dest: in_set_takeD in_set_dropD)
qed

section \<open>Properties\<close>


definition va_concrete :: va_ops where
  "va_concrete =
     \<lparr>va_new = (\<lambda>a. if unat a < 2 ^ 47 then Some a else None),
      va_add = (\<lambda>a b. if unat a + unat b < 2 ^ 47 then Some (a + b) else None),
      va_align_up = (\<lambda>a n. if unat a < 2 ^ 46
                            then Some (of_nat ((unat a + (unat n - 1)) div unat n * unat n)) else None),
      va_is_aligned = (\<lambda>a n. unat a mod unat n = 0)\<rparr>"

lemma va_concrete_lower_half: "va_lower_half va_concrete"
proof -
  have "\<exists>c. va_align_up va_concrete a 4096 = Some c \<and> unat a \<le> unat c \<and> unat c < unat a + 4096 \<and>
            unat c mod 4096 = 0" if "unat a < 2 ^ 46" for a
  proof -
    let ?n = "(unat a + 4095) div 4096 * 4096"
    have "?n + (unat a + 4095) mod 4096 = unat a + 4095" "(unat a + 4095) mod 4096 < 4096"
      by (rule div_mult_mod_eq) simp
    then have n: "unat a \<le> ?n" "?n < unat a + 4096" by linarith+
    with that have "unat (of_nat ?n :: u64) = ?n" by (intro unat_of_nat_small) simp
    with n that show ?thesis by (simp add: va_concrete_def)
  qed
  then show ?thesis by (simp add: va_lower_half_def va_concrete_def)
qed

definition demo_vma :: vma where
  "demo_vma = \<lparr>v_start = 0x40000000, v_end = 0x40002000, v_flags = flags_read_write,
              v_is_file_backed = False, v_file_path = None, v_file_offset = 0, v_file_size = 0,
              v_bco_hook = None\<rparr>"


text \<open>(C27) Mapping a free range keeps the address space well formed: inserting a non-empty region
  whose range \<open>is_range_free\<close> accepts leaves the list sorted with pairwise disjoint regions.\<close>

theorem insert_region_keeps_disjoint:
  assumes "vmas_inv vmas" "\<forall>w \<in> set vmas. v_start w < v_end w"
    "is_range_free vmas (v_start v) n" "v_end v = v_start v + n" "v_start v < v_end v"
  shows "vmas_inv (insert_region vmas v) \<and> set (insert_region vmas v) = insert v (set vmas)"
proof
  show "vmas_inv (insert_region vmas v)" by (rule insert_region_inv[OF assms(1,3-5,2)])
  have "set (take k vmas) \<union> set (drop k vmas) = set vmas" for k
    by (metis append_take_drop_id set_append)
  then show "set (insert_region vmas v) = insert v (set vmas)"
    by (simp add: insert_region_def Let_def)
qed

theorem insert_region_keeps_disjoint_witness:
  "vmas_inv (insert_region [demo_vma] (demo_vma\<lparr>v_start := 0x1000, v_end := 0x3000\<rparr>))"
  using insert_region_keeps_disjoint[of "[demo_vma]" "demo_vma\<lparr>v_start := 0x1000, v_end := 0x3000\<rparr>" "0x2000"]
  by (simp add: vmas_inv_def demo_vma_def)

end
