(* ===== verification/Ziqa_Process.thy ===== *)
theory Ziqa_Process
  imports Ziqa_Capability Ziqa_Signal Ziqa_Vma
begin

text \<open>
  \<open>src/src/process/mod.rs\<close>: processor state, file descriptor tables, the process record and
  the PID allocator; and the ABI plugin registry of \<open>src/src/abi/mod.rs\<close>, which the
  scheduler asks for a loader.  Heap addresses of kernel stacks and the GDT selectors are
  arguments; a plugin is a record of the functions of the trait.
\<close>

section \<open>Processor state\<close>

type_synonym pid = u64

datatype abi_kind = LinuxElf | Wasm | ZiqaNative | RedoxElf

datatype process_state = Created | Ready | Running | Blocked | Canceled | Exited int

record cpu_state =
  rax :: u64
  rcx :: u64
  rdx :: u64
  rbx :: u64
  rbp :: u64
  rsi :: u64
  rdi :: u64
  r8 :: u64
  r9 :: u64
  r10 :: u64
  r11 :: u64
  r12 :: u64
  r13 :: u64
  r14 :: u64
  r15 :: u64
  rip :: u64
  cs :: u64
  rflags :: u64
  rsp :: u64
  ss :: u64

definition cpu_zero :: cpu_state where
  "cpu_zero = \<lparr>rax = 0, rcx = 0, rdx = 0, rbx = 0, rbp = 0, rsi = 0, rdi = 0, r8 = 0, r9 = 0,
               r10 = 0, r11 = 0, r12 = 0, r13 = 0, r14 = 0, r15 = 0, rip = 0, cs = 8,
               rflags = 0x202, rsp = 0, ss = 0\<rparr>"

record trap_frame =
  tf_rip :: u64
  tf_cs :: u64
  tf_rflags :: u64
  tf_rsp :: u64
  tf_ss :: u64

record signal_frame =
  return_ip :: u64
  sf_signal :: u64
  sf_cpu_state :: cpu_state

definition signal_frame_new :: "u8 \<Rightarrow> cpu_state \<Rightarrow> signal_frame" where
  "signal_frame_new sig cpu = \<lparr>return_ip = 0, sf_signal = ucast sig, sf_cpu_state = cpu\<rparr>"

section \<open>File descriptor tables\<close>

datatype fd_target =
  Stdin | Stdout | Stderr | PipeRead u32 | PipeWrite u32 | FdFile u8 | FdScheme u8 nat

record file_desc =
  fd_target :: fd_target
  fd_flags :: u32
  fd_offset :: nat

definition MAX_FDS :: nat where "MAX_FDS = 8"

record fd_table =
  entries :: "file_desc option list"
  paths :: "bytes list"
  path_lens :: "nat list"

definition std_desc :: "fd_target \<Rightarrow> file_desc option" where
  "std_desc tgt = Some \<lparr>fd_target = tgt, fd_flags = 0, fd_offset = 0\<rparr>"

definition fd_new :: fd_table where
  "fd_new = \<lparr>entries = (replicate MAX_FDS None)[0 := std_desc Stdin, 1 := std_desc Stdout,
                                                2 := std_desc Stderr],
             paths = replicate MAX_FDS (replicate 64 0), path_lens = replicate MAX_FDS 0\<rparr>"

text \<open>The loop header \<open>entries.iter_mut().enumerate().skip(3)\<close> with its test for a free slot.\<close>

definition free_fd :: "fd_table \<Rightarrow> nat option" where
  "free_fd t = map_option (\<lambda>i. i + 3) (position Option.is_none (drop 3 (entries t)))"

definition put_path :: "fd_table \<Rightarrow> nat \<Rightarrow> bytes \<Rightarrow> fd_table" where
  "put_path t i path =
     (let n = min (length path) 63
      in t\<lparr>paths := (paths t)[i := take n path @ [0] @ drop (Suc n) (paths t ! i)],
           path_lens := (path_lens t)[i := n]\<rparr>)"

definition alloc_file :: "fd_table \<Rightarrow> bytes \<Rightarrow> u32 \<Rightarrow> nat option \<times> fd_table" where
  "alloc_file t path flags =
     (case free_fd t of
        None \<Rightarrow> (None, t)
      | Some i \<Rightarrow>
          let t = put_path t i path;
              desc = \<lparr>fd_target = FdFile (of_nat i), fd_flags = flags, fd_offset = 0\<rparr>
          in (Some i, t\<lparr>entries := (entries t)[i := Some desc]\<rparr>))"

definition alloc_scheme :: "fd_table \<Rightarrow> bytes \<Rightarrow> u32 \<Rightarrow> nat \<Rightarrow> nat option \<times> fd_table" where
  "alloc_scheme t path flags handle_id =
     (case free_fd t of
        None \<Rightarrow> (None, t)
      | Some i \<Rightarrow>
          let t = put_path t i path;
              desc = \<lparr>fd_target = FdScheme (of_nat i) handle_id, fd_flags = flags, fd_offset = 0\<rparr>
          in (Some i, t\<lparr>entries := (entries t)[i := Some desc]\<rparr>))"

definition fd_alloc :: "fd_table \<Rightarrow> file_desc \<Rightarrow> nat option \<times> fd_table" where
  "fd_alloc t desc =
     (case free_fd t of
        None \<Rightarrow> (None, t)
      | Some i \<Rightarrow> (Some i, t\<lparr>entries := (entries t)[i := Some desc]\<rparr>))"

definition fd_get :: "fd_table \<Rightarrow> nat \<Rightarrow> file_desc option" where
  "fd_get t fd = (if fd < length (entries t) then entries t ! fd else None)"

definition fd_path_of :: "fd_table \<Rightarrow> nat \<Rightarrow> bytes option" where
  "fd_path_of t fd =
     (case fd_get t fd of
        None \<Rightarrow> None
      | Some desc \<Rightarrow>
          (case fd_target desc of
             FdFile _ \<Rightarrow> Some (take (path_lens t ! fd) (paths t ! fd))
           | FdScheme _ _ \<Rightarrow> Some (take (path_lens t ! fd) (paths t ! fd))
           | _ \<Rightarrow> None))"

definition fd_close :: "fd_table \<Rightarrow> nat \<Rightarrow> bool \<times> fd_table" where
  "fd_close t fd =
     (if fd < 3 then (False, t)
      else if fd_get t fd \<noteq> None
      then (True, t\<lparr>entries := (entries t)[fd := None], path_lens := (path_lens t)[fd := 0]\<rparr>)
      else (False, t))"

definition dup_to :: "fd_table \<Rightarrow> nat \<Rightarrow> file_desc \<Rightarrow> nat \<Rightarrow> fd_table" where
  "dup_to t src_fd desc d =
     t\<lparr>entries := (entries t)[d := Some (desc\<lparr>fd_offset := 0\<rparr>)],
       paths := (paths t)[d := paths t ! src_fd],
       path_lens := (path_lens t)[d := path_lens t ! src_fd]\<rparr>"

definition fd_dup :: "fd_table \<Rightarrow> nat \<Rightarrow> nat option \<Rightarrow> nat option \<times> fd_table" where
  "fd_dup t src_fd dst_fd =
     (case fd_get t src_fd of
        None \<Rightarrow> (None, t)
      | Some desc \<Rightarrow>
          (case dst_fd of
             Some d \<Rightarrow> if d < MAX_FDS then (Some d, dup_to t src_fd desc d) else (None, t)
           | None \<Rightarrow>
               (case free_fd t of None \<Rightarrow> (None, t)
                | Some i \<Rightarrow> (Some i, dup_to t src_fd desc i))))"

definition open_count :: "fd_table \<Rightarrow> nat" where
  "open_count t = length (filter (\<lambda>e. \<not> Option.is_none e) (entries t))"

definition fd_clone_from :: "fd_table \<Rightarrow> fd_table \<Rightarrow> fd_table" where
  "fd_clone_from t other =
     t\<lparr>entries := map (\<lambda>i. entries other ! i) [0..<MAX_FDS],
       paths := map (\<lambda>i. paths other ! i) [0..<MAX_FDS],
       path_lens := map (\<lambda>i. path_lens other ! i) [0..<MAX_FDS]\<rparr>"

section \<open>Processes\<close>

record process =
  p_pid :: pid
  p_state :: process_state
  p_abi :: abi_kind
  p_priority :: u8
  p_capabilities :: capability_space
  p_cpu :: cpu_state
  p_fpu :: bytes
  p_vmas :: "vma list"
  p_entry_point :: u64
  p_stack_top :: u64
  p_signals :: signal_state
  p_parent :: u64
  p_exit_code :: int
  p_join_waiters :: "u64 list"
  p_fds :: fd_table
  p_brk :: u64
  p_cwd :: bytes
  p_cwd_len :: nat
  p_mmap_bump :: u64
  p_binary_data :: bytes
  p_page_table_frame :: "u64 option"
  p_kernel_stack_ptr :: u64
  p_kernel_stack :: "bytes option"
  p_kernel_stack_top :: u64
  p_total_ticks :: u64
  p_vruntime :: u64
  p_fs_base :: u64
  p_gs_base :: u64
  p_timed_out :: bool
  p_interpreter :: "string option"
  p_elf_phdr :: u64
  p_elf_phent :: u64
  p_elf_phnum :: u64
  p_argv :: "bytes list"
  p_envp :: "bytes list"

record kernel_env =
  env_va :: va_ops
  user_code_selector :: u64
  user_data_selector :: u64
  frame_containing :: "u64 \<Rightarrow> u64"
  init_process_stack :: "process \<Rightarrow> process"

text \<open>\<open>kbase\<close> is the address at which the allocator places the 64 KiB kernel stack.\<close>

definition process_new :: "kernel_env \<Rightarrow> u64 \<Rightarrow> pid \<Rightarrow> abi_kind \<Rightarrow> u64 \<Rightarrow> u64 \<Rightarrow> process" where
  "process_new env kbase p abi entry stack =
     (let cpu = cpu_zero\<lparr>rip := entry, rsp := stack, cs := user_code_selector env,
                         ss := user_data_selector env\<rparr>;
          (kstack, kstack_top) =
            (if stack \<noteq> 0 then (Some (replicate 65536 0), kbase + 65536) else (None, 0))
      in \<lparr>p_pid = p, p_state = Created, p_abi = abi, p_priority = 2,
          p_capabilities = space_new, p_cpu = cpu, p_fpu = replicate 512 0, p_vmas = [],
          p_entry_point = entry, p_stack_top = stack, p_signals = signal_new, p_parent = 0,
          p_exit_code = 0, p_join_waiters = [], p_fds = fd_new, p_brk = 0x20000000,
          p_cwd = 47 # replicate 127 0, p_cwd_len = 1, p_mmap_bump = 0x70000000,
          p_binary_data = [], p_page_table_frame = None, p_kernel_stack_ptr = kstack_top,
          p_kernel_stack = kstack, p_kernel_stack_top = kstack_top, p_total_ticks = 0,
          p_vruntime = 0, p_fs_base = 0, p_gs_base = 0, p_timed_out = False,
          p_interpreter = None, p_elf_phdr = 0, p_elf_phent = 0, p_elf_phnum = 0,
          p_argv = [], p_envp = []\<rparr>)"

definition add_region :: "process \<Rightarrow> vma \<Rightarrow> process" where
  "add_region p v = p\<lparr>p_vmas := insert_region (p_vmas p) v\<rparr>"

definition set_state_ready :: "process \<Rightarrow> process" where
  "set_state_ready p = p\<lparr>p_state := Ready\<rparr>"

definition process_exit :: "process \<Rightarrow> int \<Rightarrow> process" where
  "process_exit p code = p\<lparr>p_state := Exited code\<rparr>"

definition set_priority :: "process \<Rightarrow> u8 \<Rightarrow> process" where
  "set_priority p prio = p\<lparr>p_priority := min prio 4\<rparr>"

definition block :: "process \<Rightarrow> process" where
  "block p = p\<lparr>p_state := Blocked\<rparr>"

definition unblock :: "process \<Rightarrow> process" where
  "unblock p = p\<lparr>p_state := Ready\<rparr>"

definition prepare_trap_frame :: "process \<Rightarrow> trap_frame" where
  "prepare_trap_frame p =
     \<lparr>tf_rip = rip (p_cpu p), tf_cs = cs (p_cpu p), tf_rflags = rflags (p_cpu p),
      tf_rsp = rsp (p_cpu p), tf_ss = ss (p_cpu p)\<rparr>"

text \<open>\<open>ProcessTable\<close> is the PID allocator; its state is the next PID.\<close>

definition pid_allocator_new :: u64 where
  "pid_allocator_new = 1"

definition alloc_pid :: "u64 \<Rightarrow> pid \<times> u64" where
  "alloc_pid next_pid = (next_pid, next_pid + 1)"

section \<open>ABI plugins\<close>

record abi_plugin =
  plugin_name :: string
  plugin_kind :: abi_kind
  can_load :: "bytes \<Rightarrow> bool"
  plugin_load :: "bytes \<Rightarrow> process \<Rightarrow> (abi_error + unit) \<times> process"

definition MAX_PLUGINS :: nat where "MAX_PLUGINS = 8"

record abi_registry =
  plugins :: "abi_plugin option list"
  plugin_count :: nat

definition registry_new :: abi_registry where
  "registry_new = \<lparr>plugins = replicate MAX_PLUGINS None, plugin_count = 0\<rparr>"

definition registry_register :: "abi_registry \<Rightarrow> abi_plugin \<Rightarrow> (abi_error + unit) \<times> abi_registry" where
  "registry_register r plugin =
     (if plugin_count r \<ge> MAX_PLUGINS then (Inl (Other ''ABI registry full''), r)
      else case position Option.is_none (plugins r) of
             Some i \<Rightarrow> (Inr (), r\<lparr>plugins := (plugins r)[i := Some plugin],
                                 plugin_count := plugin_count r + 1\<rparr>)
           | None \<Rightarrow> (Inl (Other ''ABI registry full''), r))"

definition somes :: "'a option list \<Rightarrow> 'a list" where
  "somes xs = List.map_filter id xs"

definition registry_detect :: "abi_registry \<Rightarrow> bytes \<Rightarrow> abi_plugin option" where
  "registry_detect r binary = find (\<lambda>pl. can_load pl binary) (somes (plugins r))"

definition registry_get :: "abi_registry \<Rightarrow> abi_kind \<Rightarrow> abi_plugin option" where
  "registry_get r kind = find (\<lambda>pl. plugin_kind pl = kind) (somes (plugins r))"

section \<open>Descriptor tables: invariant and life cycle\<close>

definition fd_inv :: "fd_table \<Rightarrow> bool" where
  "fd_inv t \<longleftrightarrow> length (entries t) = MAX_FDS \<and> length (paths t) = MAX_FDS \<and>
     length (path_lens t) = MAX_FDS \<and> (\<forall>p \<in> set (paths t). length p = 64) \<and>
     (\<forall>n \<in> set (path_lens t). n \<le> 63)"

lemma fd_new_inv: "fd_inv fd_new"
  by (simp add: fd_inv_def fd_new_def)

lemma free_fd_Some:
  assumes "free_fd t = Some i"
  shows "3 \<le> i" "i < length (entries t)" "entries t ! i = None"
    "3 \<le> j \<Longrightarrow> j < i \<Longrightarrow> entries t ! j \<noteq> None"
proof -
  from assms obtain k where k: "position Option.is_none (drop 3 (entries t)) = Some k" "i = k + 3"
    by (auto simp: free_fd_def)
  note D = position_SomeD[OF k(1)]
  show "3 \<le> i" "i < length (entries t)" using k D by auto
  have "3 \<le> length (entries t)" using D by auto
  then show "entries t ! i = None" using k D by (simp add: Option.is_none_def add.commute[of k])
  assume "3 \<le> j" "j < i"
  then have "\<not> Option.is_none (drop 3 (entries t) ! (j - 3))" using k D by simp
  with \<open>3 \<le> j\<close> \<open>j < i\<close> \<open>i < length (entries t)\<close> show "entries t ! j \<noteq> None"
    by (simp add: Option.is_none_def)
qed

lemma free_fd_None:
  assumes "free_fd t = None" "3 \<le> j" "j < length (entries t)"
  shows "entries t ! j \<noteq> None"
proof -
  have "\<forall>e \<in> set (drop 3 (entries t)). \<not> Option.is_none e"
    using assms(1) by (simp add: free_fd_def)
  moreover have "entries t ! j \<in> set (drop 3 (entries t))"
    using assms(2,3) by (auto simp: in_set_conv_nth intro!: exI[of _ "j - 3"])
  ultimately show ?thesis by (auto simp: Option.is_none_def)
qed

lemma put_path_inv:
  assumes "fd_inv t" "i < MAX_FDS"
  shows "fd_inv (put_path t i path)"
    and "take (path_lens (put_path t i path) ! i) (paths (put_path t i path) ! i) = take 63 path"
  using assms
  by (auto simp: fd_inv_def put_path_def Let_def min_def dest!: set_update_subset_insert[THEN subsetD])

lemma entries_update_inv [simp]:
  "length es = length (entries t) \<Longrightarrow> fd_inv (t\<lparr>entries := es\<rparr>) \<longleftrightarrow> fd_inv t"
  by (simp add: fd_inv_def)

lemma entries_put_path [simp]: "entries (put_path t i path) = entries t"
  by (simp add: put_path_def Let_def)

lemma free_fd_bound: "fd_inv t \<Longrightarrow> free_fd t = Some i \<Longrightarrow> i < MAX_FDS"
  using free_fd_Some(2)[of t i] by (simp add: fd_inv_def)

lemma alloc_file_inv: "fd_inv t \<Longrightarrow> fd_inv (snd (alloc_file t path flags))"
  by (simp add: alloc_file_def Let_def put_path_inv free_fd_bound split: option.split)

lemma alloc_scheme_inv: "fd_inv t \<Longrightarrow> fd_inv (snd (alloc_scheme t path flags h))"
  by (simp add: alloc_scheme_def Let_def put_path_inv free_fd_bound split: option.split)

lemma fd_alloc_inv: "fd_inv t \<Longrightarrow> fd_inv (snd (fd_alloc t desc))"
  by (simp add: fd_alloc_def split: option.split)

lemma fd_close_inv: "fd_inv t \<Longrightarrow> fd_inv (snd (fd_close t fd))"
  by (auto simp: fd_close_def fd_inv_def dest!: set_update_subset_insert[THEN subsetD])

lemma fd_get_Some: "fd_get t fd = Some d \<Longrightarrow> fd < length (entries t)"
  by (simp add: fd_get_def split: if_splits)

lemma dup_to_inv: "fd_inv t \<Longrightarrow> fd_get t fd = Some desc \<Longrightarrow> fd_inv (dup_to t fd desc d)"
  by (auto simp: fd_inv_def dup_to_def dest!: set_update_subset_insert[THEN subsetD] fd_get_Some)

lemma fd_dup_inv: "fd_inv t \<Longrightarrow> fd_inv (snd (fd_dup t src dst))"
  by (simp add: fd_dup_def dup_to_inv split: option.split)

lemma fd_clone_from_inv: "fd_inv other \<Longrightarrow> fd_inv (fd_clone_from t other)"
  by (auto simp: fd_inv_def fd_clone_from_def)

lemma map_nth_len: "length xs = n \<Longrightarrow> map ((!) xs) [0..<n] = xs"
  by (metis map_nth)

lemma fd_clone_from_eq: "fd_inv other \<Longrightarrow> fd_clone_from t other = other"
  by (cases other, cases t) (simp add: fd_inv_def fd_clone_from_def map_nth_len)

section \<open>Properties\<close>

text \<open>(C35) Life cycle of a file descriptor: opening a path in a well-formed table takes the
  lowest free descriptor from 3 up, stores the path cut to 63 bytes with offset 0, and leaves
  every other descriptor as it was; closing it frees exactly that descriptor; with no free
  descriptor the call answers \<open>None\<close> and changes nothing.\<close>

theorem alloc_file_lifecycle:
  assumes "fd_inv t"
  shows "case alloc_file t path flags of
           (None, t') \<Rightarrow> t' = t \<and> (\<forall>j. 3 \<le> j \<and> j < 8 \<longrightarrow> fd_get t j \<noteq> None)
         | (Some i, t') \<Rightarrow>
             3 \<le> i \<and> i < 8 \<and> fd_get t i = None \<and> (\<forall>j. 3 \<le> j \<and> j < i \<longrightarrow> fd_get t j \<noteq> None) \<and>
             fd_inv t' \<and> fd_path_of t' i = Some (take 63 path) \<and>
             fd_get t' i = Some \<lparr>fd_target = FdFile (of_nat i), fd_flags = flags, fd_offset = 0\<rparr> \<and>
             (\<forall>j. j \<noteq> i \<longrightarrow> fd_get t' j = fd_get t j \<and> fd_path_of t' j = fd_path_of t j) \<and>
             fst (fd_close t' i) \<and> (\<forall>j. fd_get (snd (fd_close t' i)) j = fd_get t j)"
proof (cases "free_fd t")
  case None
  then show ?thesis
    using free_fd_None[OF None] assms by (simp add: alloc_file_def fd_get_def fd_inv_def MAX_FDS_def)
next
  case (Some i)
  note f = free_fd_Some[OF Some]
  have len: "length (entries t) = 8" "i < 8" using assms f(2) by (simp_all add: fd_inv_def MAX_FDS_def)
  have i: "i < MAX_FDS" using len by (simp add: MAX_FDS_def)
  have other: "paths (put_path t i path) ! j = paths t ! j"
    "path_lens (put_path t i path) ! j = path_lens t ! j" if "j \<noteq> i" for j
    using that by (simp_all add: put_path_def Let_def)
  show ?thesis
    using Some f len put_path_inv[OF assms i, of path] other
    by (auto simp: alloc_file_def Let_def fd_get_def fd_path_of_def fd_close_def nth_list_update
        split: option.splits fd_target.split)
qed

theorem alloc_file_lifecycle_witness:
  "\<exists>t'. alloc_file fd_new [47, 97] 2 = (Some 3, t') \<and> fd_path_of t' 3 = Some [47, 97]"
proof -
  have "fst (alloc_file fd_new [47, 97] 2) = Some 3" by code_simp
  then have "alloc_file fd_new [47, 97] 2 = (Some 3, snd (alloc_file fd_new [47, 97] 2))"
    by (metis prod.collapse)
  with alloc_file_lifecycle[OF fd_new_inv, of "[47, 97]" 2] show ?thesis by auto
qed

text \<open>Duplicating a descriptor: onto a given descriptor or the lowest free one, the copy names
  the same target and path with offset 0, and no other descriptor changes.\<close>

theorem fd_dup_copies:
  assumes "fd_inv t" "fd_get t src = Some desc" "fd_dup t src dst = (Some d, t')"
  shows "fd_get t' d = Some (desc\<lparr>fd_offset := 0\<rparr>) \<and> fd_path_of t' d = fd_path_of t src \<and>
         (\<forall>j. j \<noteq> d \<longrightarrow> fd_get t' j = fd_get t j \<and> fd_path_of t' j = fd_path_of t j) \<and> fd_inv t' \<and>
         (dst = None \<longrightarrow> 3 \<le> d \<and> fd_get t d = None) \<and> (\<forall>d'. dst = Some d' \<longrightarrow> d = d')"
proof -
  have len: "length (entries t) = MAX_FDS" "length (paths t) = MAX_FDS" "length (path_lens t) = MAX_FDS"
    using assms(1) by (simp_all add: fd_inv_def)
  from assms(2,3) have t': "t' = dup_to t src desc d" and d: "d < MAX_FDS"
    "dst = None \<longrightarrow> 3 \<le> d \<and> fd_get t d = None" "\<forall>d'. dst = Some d' \<longrightarrow> d = d'"
    using free_fd_Some[of t d] len
    by (auto simp: fd_dup_def fd_get_def split: option.splits if_splits)
  have other: "j \<noteq> d \<Longrightarrow> fd_get t' j = fd_get t j \<and> fd_path_of t' j = fd_path_of t j" for j
    by (auto simp: t' dup_to_def fd_get_def fd_path_of_def split: option.split fd_target.split)
  have "fd_get t' d = Some (desc\<lparr>fd_offset := 0\<rparr>)" "fd_path_of t' d = fd_path_of t src"
    using d len assms(2) by (simp_all add: t' dup_to_def fd_get_def fd_path_of_def split: fd_target.split)
  moreover have "fd_inv t'" using dup_to_inv[OF assms(1,2)] t' by simp
  ultimately show ?thesis using other d by blast
qed

theorem fd_dup_copies_witness:
  "\<exists>t'. fd_dup fd_new 1 (Some 5) = (Some 5, t') \<and> fd_get t' 5 = fd_get fd_new 1"
proof -
  have g: "fd_get fd_new 1 = std_desc Stdout" by (simp add: fd_get_def fd_new_def MAX_FDS_def)
  have d: "fd_dup fd_new 1 (Some 5) = (Some 5, snd (fd_dup fd_new 1 (Some 5)))"
    using g by (simp add: fd_dup_def std_desc_def MAX_FDS_def)
  from fd_dup_copies[OF fd_new_inv g[unfolded std_desc_def] d] d g show ?thesis
    by (auto simp: std_desc_def)
qed

end
