(* ===== verification/Ziqa_Scheduler.thy ===== *)
theory Ziqa_Scheduler
  imports Ziqa_Process "HOL-Library.Product_Lexorder"
begin

text \<open>
  \<open>src/src/process/scheduler.rs\<close>, with the per-CPU variables and the context switch it uses
  from \<open>src/src/arch/x86_64\<close>.  The state is the process table, the ready set, the counters
  and one processor.  The pointer \<open>current_process_raw\<close> is the PID of the process record it
  points to.  The calls run with interrupts off, so an operation is one step.  An operation
  answers \<open>None\<close> where the code panics, deadlocks on a lock it holds, or follows a dangling
  pointer.  Results of page-table construction and heap placement are arguments.
\<close>

section \<open>State\<close>

text \<open>One processor: \<open>current\<close> is the per-CPU word \<open>current_pid\<close>, with the largest value for
  no process; \<open>trap_stack\<close> is the stack set by \<open>update_trap_stacks\<close>; \<open>cpu_sp\<close> the stack
  pointer around the call of \<open>switch_context\<close>; \<open>fpu_regs\<close> what \<open>fxsave\<close> stores.\<close>

record cpu =
  current :: u64
  current_process_raw :: "pid option"
  fs_msr :: u64
  kgs_msr :: u64
  cr3 :: u64
  trap_stack :: u64
  cpu_sp :: u64
  fpu_regs :: bytes

record ready_set =
  queues :: "(u64 \<times> pid) list"
  counter :: u64

record sched =
  tasks :: "(pid, process) btree"
  ready_queues :: ready_set
  ticks :: u64
  pid_allocator :: u64
  the_cpu :: cpu
  kernel_cr3 :: u64
  preemption :: bool

definition ready_new :: ready_set where
  "ready_new = \<lparr>queues = [], counter = 0\<rparr>"

definition ready_push :: "ready_set \<Rightarrow> pid \<Rightarrow> u64 \<Rightarrow> ready_set" where
  "ready_push q p vruntime =
     (let c = counter q + 1 in q\<lparr>counter := c, queues := bs_insert (c, p) (queues q)\<rparr>)"

definition pop_lowest :: "ready_set \<Rightarrow> pid option \<times> ready_set" where
  "pop_lowest q =
     (case bs_pop_first (queues q) of
        None \<Rightarrow> (None, q)
      | Some ((_, p), rest) \<Rightarrow> (Some p, q\<lparr>queues := rest\<rparr>))"

definition sched_new :: "cpu \<Rightarrow> sched" where
  "sched_new c = \<lparr>tasks = [], ready_queues = ready_new, ticks = 0,
                  pid_allocator = pid_allocator_new, the_cpu = c, kernel_cr3 = 0,
                  preemption = False\<rparr>"

definition current_pid :: "sched \<Rightarrow> pid option" where
  "current_pid s = (if current (the_cpu s) = - 1 then None else Some (current (the_cpu s)))"

definition set_current_pid :: "sched \<Rightarrow> pid option \<Rightarrow> sched" where
  "set_current_pid s p =
     s\<lparr>the_cpu := (the_cpu s)\<lparr>current := (case p of None \<Rightarrow> - 1 | Some v \<Rightarrow> v)\<rparr>\<rparr>"

definition get_process :: "sched \<Rightarrow> pid \<Rightarrow> process option" where
  "get_process s p = bt_get (tasks s) p"

definition put_process :: "sched \<Rightarrow> pid \<Rightarrow> process \<Rightarrow> sched" where
  "put_process s k p = s\<lparr>tasks := bt_insert k p (tasks s)\<rparr>"

definition modify_process :: "sched \<Rightarrow> pid \<Rightarrow> (process \<Rightarrow> process) \<Rightarrow> sched" where
  "modify_process s k f = s\<lparr>tasks := bt_modify k f (tasks s)\<rparr>"

definition push_ready :: "sched \<Rightarrow> pid \<Rightarrow> u64 \<Rightarrow> sched" where
  "push_ready s p vruntime = s\<lparr>ready_queues := ready_push (ready_queues s) p vruntime\<rparr>"

definition total_ticks :: "sched \<Rightarrow> u64" where
  "total_ticks s = ticks s"

definition sched_set_current :: "sched \<Rightarrow> pid \<Rightarrow> bool \<times> sched" where
  "sched_set_current s p =
     (if get_process s p \<noteq> None then (True, set_current_pid s (Some p)) else (False, s))"

definition list_pids :: "sched \<Rightarrow> pid list" where
  "list_pids s = bt_keys (tasks s)"

definition enable_preemption :: "sched \<Rightarrow> sched" where
  "enable_preemption s = s\<lparr>preemption := True\<rparr>"

definition disable_preemption :: "sched \<Rightarrow> sched" where
  "disable_preemption s = s\<lparr>preemption := False\<rparr>"

definition with_process_mut :: "sched \<Rightarrow> pid \<Rightarrow> (process \<Rightarrow> 'r \<times> process) \<Rightarrow> 'r option \<times> sched" where
  "with_process_mut s p f =
     (case get_process s p of
        None \<Rightarrow> (None, s)
      | Some proc \<Rightarrow> let (r, proc') = f proc in (Some r, put_process s p proc'))"

definition with_process :: "sched \<Rightarrow> pid \<Rightarrow> (process \<Rightarrow> 'r) \<Rightarrow> 'r option" where
  "with_process s p f = map_option f (get_process s p)"

definition with_current_task :: "sched \<Rightarrow> (process \<Rightarrow> 'r) \<Rightarrow> 'r option" where
  "with_current_task s f =
     (case current_pid s of None \<Rightarrow> None | Some p \<Rightarrow> map_option f (get_process s p))"

definition with_current_task_mut :: "sched \<Rightarrow> (process \<Rightarrow> 'r \<times> process) \<Rightarrow> 'r option \<times> sched" where
  "with_current_task_mut s f =
     (case current_pid s of None \<Rightarrow> (None, s) | Some p \<Rightarrow> with_process_mut s p f)"

text \<open>\<open>Process::schedule_ready\<close> on the process with key \<open>k\<close> of the table.\<close>

definition schedule_ready :: "sched \<Rightarrow> pid \<Rightarrow> sched" where
  "schedule_ready s k =
     (case get_process s k of
        None \<Rightarrow> s
      | Some proc \<Rightarrow> push_ready (put_process s k (set_state_ready proc)) (p_pid proc) (p_vruntime proc))"

section \<open>The context switch\<close>

text \<open>The process record the switch saves into: the one \<open>current_process_raw\<close> points to when
  that is the old process, else the table entry of the old PID.  Following a pointer to a
  process that has left the table is \<open>None\<close>.\<close>

definition old_process :: "sched \<Rightarrow> pid option \<Rightarrow> pid option option" where
  "old_process s old_pid =
     (let from_table = (case old_pid of None \<Rightarrow> None
                        | Some p \<Rightarrow> if get_process s p = None then None else Some p)
      in case current_process_raw (the_cpu s) of
           None \<Rightarrow> Some from_table
         | Some r \<Rightarrow> (case get_process s r of
                        None \<Rightarrow> None
                      | Some proc \<Rightarrow> if old_pid = Some (p_pid proc) then Some (Some r)
                                     else Some from_table))"

definition save_bases :: "sched \<Rightarrow> pid option \<Rightarrow> sched" where
  "save_bases s old =
     (case old of
        None \<Rightarrow> s
      | Some k \<Rightarrow> modify_process s k
          (\<lambda>p. p\<lparr>p_fs_base := fs_msr (the_cpu s), p_gs_base := kgs_msr (the_cpu s)\<rparr>))"

definition new_cr3 :: "kernel_env \<Rightarrow> sched \<Rightarrow> process \<Rightarrow> u64 option" where
  "new_cr3 env s proc =
     (if p_abi proc = ZiqaNative \<and> p_page_table_frame proc = None
      then if kernel_cr3 s \<noteq> 0 then Some (frame_containing env (kernel_cr3 s)) else None
      else p_page_table_frame proc)"

text \<open>Marking the new process Running and loading its registers, up to \<open>restore_fpu\<close>.\<close>

definition load_new :: "kernel_env \<Rightarrow> sched \<Rightarrow> pid \<Rightarrow> sched" where
  "load_new env s new_pid =
     (case get_process s new_pid of
        None \<Rightarrow> s
      | Some proc \<Rightarrow>
          let s = put_process s new_pid (proc\<lparr>p_state := Running\<rparr>)
          in s\<lparr>the_cpu := (the_cpu s)
                 \<lparr>current_process_raw := Some new_pid, fs_msr := p_fs_base proc,
                  kgs_msr := p_gs_base proc,
                  cr3 := (case new_cr3 env s proc of None \<Rightarrow> cr3 (the_cpu s) | Some f \<Rightarrow> f),
                  trap_stack := p_kernel_stack_top proc, fpu_regs := p_fpu proc\<rparr>\<rparr>)"

text \<open>Requeueing the old process, \<open>save_fpu\<close> into it and \<open>switch_context\<close>, which pushes the
  return address and six registers and stores the stack pointer in the old process.\<close>

definition leave_old :: "sched \<Rightarrow> pid option \<Rightarrow> sched" where
  "leave_old s old =
     (case old of
        None \<Rightarrow> s
      | Some k \<Rightarrow>
          (case get_process s k of
             None \<Rightarrow> s
           | Some proc \<Rightarrow>
               let s = (if p_state proc = Running
                        then push_ready (put_process s k (proc\<lparr>p_state := Ready\<rparr>))
                               (p_pid proc) (p_vruntime proc)
                        else s)
               in modify_process s k
                    (\<lambda>p. p\<lparr>p_fpu := fpu_regs (the_cpu s),
                           p_kernel_stack_ptr := cpu_sp (the_cpu s) - 56\<rparr>)))"

definition switch_to :: "kernel_env \<Rightarrow> sched \<Rightarrow> pid \<Rightarrow> process \<Rightarrow> sched option" where
  "switch_to env s new_pid new_proc =
     (let old_pid = current_pid s; s = set_current_pid s (Some new_pid)
      in case old_process s old_pid of
           None \<Rightarrow> None
         | Some old \<Rightarrow>
             let s = save_bases s old;
                 s = load_new env s new_pid;
                 s = leave_old s old
             in Some (s\<lparr>the_cpu := (the_cpu s)\<lparr>cpu_sp := p_kernel_stack_ptr new_proc + 56\<rparr>\<rparr>))"

text \<open>The loop of \<open>schedule\<close>; every round pops one entry of the ready set.\<close>

fun schedule_from :: "kernel_env \<Rightarrow> (u64 \<times> pid) list \<Rightarrow> sched \<Rightarrow> sched option" where
  "schedule_from env [] s = Some s"
| "schedule_from env ((c, new_pid) # rest) s =
     (let s = s\<lparr>ready_queues := (ready_queues s)\<lparr>queues := rest\<rparr>\<rparr>
      in case get_process s new_pid of
           None \<Rightarrow> schedule_from env rest s
         | Some new_proc \<Rightarrow>
             if current_pid s = Some new_pid \<and> p_state new_proc = Running then Some s
             else if p_state new_proc \<noteq> Ready then schedule_from env rest s
             else switch_to env s new_pid new_proc)"

definition schedule :: "kernel_env \<Rightarrow> sched \<Rightarrow> sched option" where
  "schedule env s = schedule_from env (queues (ready_queues s)) s"

section \<open>Life cycle of processes\<close>

definition init_boot_process :: "kernel_env \<Rightarrow> u64 \<Rightarrow> sched \<Rightarrow> sched" where
  "init_boot_process env kbase s =
     (let (p, np) = alloc_pid (pid_allocator s);
          proc = (process_new env 0 p ZiqaNative 0 0)
                   \<lparr>p_kernel_stack := Some (replicate 65536 0), p_kernel_stack_top := kbase + 65536,
                    p_state := Running\<rparr>;
          s = put_process (s\<lparr>pid_allocator := np\<rparr>) p proc
      in set_current_pid s (Some p))"

definition STACK_SIZE :: u64 where "STACK_SIZE = 0x40000"

definition stack_region :: "kernel_env \<Rightarrow> u64 \<Rightarrow> vma option" where
  "stack_region env stack_start =
     (case va_new (env_va env) stack_start of
        None \<Rightarrow> None
      | Some start \<Rightarrow>
          vma_from (env_va env)
            \<lparr>r_start = start, r_size = STACK_SIZE, r_flags = flags_read_write,
             r_is_file_backed = False, r_file_path = None, r_file_offset = 0, r_file_size = 0,
             r_bco_hook = None\<rparr>)"

definition set_page_table :: "process \<Rightarrow> u64 option \<Rightarrow> process" where
  "set_page_table proc pt =
     (case pt of None \<Rightarrow> proc | Some frame \<Rightarrow> proc\<lparr>p_page_table_frame := Some frame\<rparr>)"

definition spawn ::
  "kernel_env \<Rightarrow> u64 \<Rightarrow> u64 option \<Rightarrow> sched \<Rightarrow> abi_kind \<Rightarrow> u64 \<Rightarrow> u64 \<Rightarrow> (pid option \<times> sched) option" where
  "spawn env kbase pt s abi entry stack =
     (let (p, np) = alloc_pid (pid_allocator s);
          s = s\<lparr>pid_allocator := np\<rparr>;
          proc = set_priority (process_new env kbase p abi entry stack) 0;
          proc = set_page_table proc pt
      in case checked_sub stack STACK_SIZE of
           None \<Rightarrow> Some (None, s)
         | Some stack_start \<Rightarrow>
             (case stack_region env stack_start of
                None \<Rightarrow> None
              | Some v \<Rightarrow>
                  let proc = init_process_stack env (add_region proc v);
                      s = put_process s p proc
                  in Some (Some p, schedule_ready s p)))"

definition init_kthread_stack :: "process \<Rightarrow> u64 \<Rightarrow> u64 \<Rightarrow> process" where
  "init_kthread_stack proc entry arg =
     (case p_kernel_stack proc of
        None \<Rightarrow> proc
      | Some kstack \<Rightarrow>
          let slots = concat (map (le_bytes 8) [0, 0, entry, arg, 0, 0, p_entry_point proc])
          in proc\<lparr>p_kernel_stack := Some (put_bytes kstack (length kstack - 56) slots),
                  p_kernel_stack_ptr := p_kernel_stack_top proc - 56\<rparr>)"

definition spawn_kthread ::
  "kernel_env \<Rightarrow> u64 \<Rightarrow> u64 \<Rightarrow> sched \<Rightarrow> u64 \<Rightarrow> u64 \<Rightarrow> pid option \<times> sched" where
  "spawn_kthread env kbase trampoline s entry arg =
     (let (p, np) = alloc_pid (pid_allocator s);
          s = s\<lparr>pid_allocator := np\<rparr>;
          proc = (process_new env 0 p ZiqaNative trampoline 0)
                   \<lparr>p_kernel_stack := Some (replicate 65536 0), p_kernel_stack_top := kbase + 65536\<rparr>;
          proc = proc\<lparr>p_cpu := (p_cpu proc)\<lparr>cs := 0x8, ss := 0x10, rflags := 0x202\<rparr>,
                      p_page_table_frame := None\<rparr>;
          proc = init_kthread_stack proc entry arg;
          s = put_process s p proc
      in (Some p, schedule_ready s p))"

text \<open>The common part of the five ELF spawns: a second kernel stack at \<open>kbase2\<close>, the page
  table, the user stack region, the plugin, and on success the new Ready process.\<close>

definition ELF_ENTRY :: u64 where "ELF_ENTRY = 0x1000000"
definition ELF_STACK :: u64 where "ELF_STACK = 0x7FFFFFFF000"

definition prepare_elf :: "kernel_env \<Rightarrow> u64 \<Rightarrow> u64 option \<Rightarrow> process \<Rightarrow> process option" where
  "prepare_elf env kbase2 pt proc =
     (let proc = proc\<lparr>p_kernel_stack := Some (replicate 65536 0), p_kernel_stack_top := kbase2 + 65536\<rparr>;
          proc = set_page_table proc pt;
          stack_start = (case checked_sub ELF_STACK STACK_SIZE of None \<Rightarrow> 0 | Some v \<Rightarrow> v)
      in map_option (add_region proc) (stack_region env stack_start))"

definition install :: "kernel_env \<Rightarrow> sched \<Rightarrow> pid \<Rightarrow> process \<Rightarrow> pid option \<times> sched" where
  "install env s p proc =
     (let s = put_process s p (set_state_ready (init_process_stack env proc))
      in (Some p, push_ready s p 0))"

definition spawn_elf ::
  "kernel_env \<Rightarrow> abi_registry \<Rightarrow> u64 \<Rightarrow> u64 \<Rightarrow> u64 option \<Rightarrow> sched \<Rightarrow> bytes \<Rightarrow> (pid option \<times> sched) option" where
  "spawn_elf env registry kbase kbase2 pt s binary =
     (case registry_detect registry binary of
        None \<Rightarrow> Some (None, s)
      | Some plugin \<Rightarrow>
          let (p, np) = alloc_pid (pid_allocator s);
              s = s\<lparr>pid_allocator := np\<rparr>;
              proc = (process_new env kbase p (plugin_kind plugin) ELF_ENTRY ELF_STACK)
                       \<lparr>p_binary_data := binary\<rparr>
          in case prepare_elf env kbase2 pt proc of
               None \<Rightarrow> None
             | Some proc \<Rightarrow>
                 (case plugin_load plugin binary proc of
                    (Inl _, _) \<Rightarrow> Some (None, s)
                  | (Inr _, proc) \<Rightarrow> Some (install env s p proc)))"

text \<open>The \<open>from_vec\<close> variants: the binary is moved out of the process during the load and put
  back afterwards; the plugin and the argument vectors vary.\<close>

definition spawn_moved ::
  "kernel_env \<Rightarrow> abi_plugin \<Rightarrow> abi_kind \<Rightarrow> u64 \<Rightarrow> u64 \<Rightarrow> u64 option \<Rightarrow> sched \<Rightarrow> bytes \<Rightarrow> bytes list \<Rightarrow>
   bytes list \<Rightarrow> (pid option \<times> sched) option" where
  "spawn_moved env plugin kind kbase kbase2 pt s binary argv envp =
     (let (p, np) = alloc_pid (pid_allocator s);
          s = s\<lparr>pid_allocator := np\<rparr>;
          proc = (process_new env kbase p kind ELF_ENTRY ELF_STACK)
                   \<lparr>p_binary_data := binary, p_argv := argv, p_envp := envp\<rparr>
      in case prepare_elf env kbase2 pt proc of
           None \<Rightarrow> None
         | Some proc \<Rightarrow>
             let binary = p_binary_data proc; proc = proc\<lparr>p_binary_data := []\<rparr>
             in case plugin_load plugin binary proc of
                  (Inl _, _) \<Rightarrow> Some (None, s)
                | (Inr _, proc) \<Rightarrow> Some (install env s p (proc\<lparr>p_binary_data := binary\<rparr>)))"

definition spawn_elf_from_vec ::
  "kernel_env \<Rightarrow> abi_registry \<Rightarrow> u64 \<Rightarrow> u64 \<Rightarrow> u64 option \<Rightarrow> sched \<Rightarrow> bytes \<Rightarrow> (pid option \<times> sched) option" where
  "spawn_elf_from_vec env registry kbase kbase2 pt s binary =
     (case registry_detect registry binary of
        None \<Rightarrow> Some (None, s)
      | Some plugin \<Rightarrow> spawn_moved env plugin (plugin_kind plugin) kbase kbase2 pt s binary [] [])"

definition spawn_redox_elf ::
  "kernel_env \<Rightarrow> abi_plugin \<Rightarrow> u64 \<Rightarrow> u64 \<Rightarrow> u64 option \<Rightarrow> sched \<Rightarrow> bytes \<Rightarrow> (pid option \<times> sched) option" where
  "spawn_redox_elf env redox kbase kbase2 pt s binary =
     (let (p, np) = alloc_pid (pid_allocator s);
          s = s\<lparr>pid_allocator := np\<rparr>;
          proc = (process_new env kbase p RedoxElf ELF_ENTRY ELF_STACK)\<lparr>p_binary_data := binary\<rparr>
      in case prepare_elf env kbase2 pt proc of
           None \<Rightarrow> None
         | Some proc \<Rightarrow>
             (case plugin_load redox binary proc of
                (Inl _, _) \<Rightarrow> Some (None, s)
              | (Inr _, proc) \<Rightarrow> Some (install env s p proc)))"

definition ascii :: "string \<Rightarrow> bytes" where
  "ascii str = map of_char str"

definition spawn_redox_elf_from_vec ::
  "kernel_env \<Rightarrow> abi_plugin \<Rightarrow> u64 \<Rightarrow> u64 \<Rightarrow> u64 option \<Rightarrow> sched \<Rightarrow> bytes \<Rightarrow> (pid option \<times> sched) option" where
  "spawn_redox_elf_from_vec env redox kbase kbase2 pt s binary =
     spawn_moved env redox RedoxElf kbase kbase2 pt s binary
       [ascii ''orbital'', ascii ''/bin/launcher''] [ascii ''VT=1'']"

definition spawn_redox_elf_with_args ::
  "kernel_env \<Rightarrow> abi_plugin \<Rightarrow> u64 \<Rightarrow> u64 \<Rightarrow> u64 option \<Rightarrow> sched \<Rightarrow> bytes \<Rightarrow> bytes list \<Rightarrow> bytes list \<Rightarrow>
   (pid option \<times> sched) option" where
  "spawn_redox_elf_with_args env redox kbase kbase2 pt s binary argv envp =
     spawn_moved env redox RedoxElf kbase kbase2 pt s binary argv envp"

definition mark_cow :: "vma \<Rightarrow> vma" where
  "mark_cow v = (if writable (v_flags v) then v\<lparr>v_flags := (v_flags v)\<lparr>copy_on_write := True\<rparr>\<rparr> else v)"

text \<open>\<open>child_l4\<close> is the answer of \<open>cow_fork_parent\<close>, the copied page table.\<close>

definition fork :: "kernel_env \<Rightarrow> u64 \<Rightarrow> u64 option \<Rightarrow> sched \<Rightarrow> pid \<Rightarrow> pid option \<times> sched" where
  "fork env kbase child_l4 s parent_pid =
     (case get_process s parent_pid of
        None \<Rightarrow> (None, s)
      | Some parent \<Rightarrow>
          let (child_pid, np) = alloc_pid (pid_allocator s);
              s = s\<lparr>pid_allocator := np\<rparr>;
              child = process_new env kbase child_pid (p_abi parent) (p_entry_point parent)
                        (p_stack_top parent);
              child = child\<lparr>p_cpu := p_cpu parent, p_priority := p_priority parent,
                            p_parent := parent_pid, p_vmas := p_vmas parent,
                            p_binary_data := p_binary_data parent, p_state := Ready,
                            p_fds := fd_clone_from (p_fds child) (p_fds parent)\<rparr>;
              child = set_page_table child child_l4;
              parent = parent\<lparr>p_vmas := map mark_cow (p_vmas parent)\<rparr>;
              child = child\<lparr>p_vmas := map mark_cow (p_vmas child)\<rparr>;
              s = put_process (put_process s parent_pid parent) child_pid child
          in (Some child_pid, push_ready s child_pid 0))"

definition send_signal :: "sched \<Rightarrow> pid \<Rightarrow> u8 \<Rightarrow> bool \<times> sched" where
  "send_signal s target signum =
     (case get_process s target of
        None \<Rightarrow> (False, s)
      | Some proc \<Rightarrow>
          let proc = proc\<lparr>p_signals := snd (signal_send (p_signals proc) signum)\<rparr>
          in (True,
              if signum = SIGKILL
              then put_process s target (proc\<lparr>p_exit_code := - 1, p_state := Exited (- 1)\<rparr>)
              else if signum = SIGSTOP then put_process s target (proc\<lparr>p_state := Blocked\<rparr>)
              else if signum = SIGCONT \<and> p_state proc = Blocked
              then push_ready (put_process s target (proc\<lparr>p_state := Ready\<rparr>)) target (p_vruntime proc)
              else put_process s target proc))"

definition exit_process :: "kernel_env \<Rightarrow> sched \<Rightarrow> pid \<Rightarrow> int \<Rightarrow> sched option" where
  "exit_process env s p code =
     (case get_process s p of
        None \<Rightarrow> Some s
      | Some proc \<Rightarrow>
          if p_parent proc \<noteq> 0 \<and> p_parent proc = p then None
          else
            let s = put_process s p
                      (proc\<lparr>p_exit_code := code, p_state := Exited code, p_join_waiters := []\<rparr>);
                s = (if p_parent proc \<noteq> 0 then snd (send_signal s (p_parent proc) SIGCHLD) else s);
                s = foldl schedule_ready s (p_join_waiters proc)
            in if with_current_task s p_pid = Some p then schedule env s else Some s)"

definition block_current_task :: "kernel_env \<Rightarrow> sched \<Rightarrow> sched option" where
  "block_current_task env s =
     (case current_pid s of
        None \<Rightarrow> Some s
      | Some p \<Rightarrow>
          let s = (case get_process s p of
                     None \<Rightarrow> s
                   | Some proc \<Rightarrow> if p_state proc = Running then put_process s p (block proc) else s)
          in schedule env s)"

definition join_kthread :: "kernel_env \<Rightarrow> sched \<Rightarrow> pid \<Rightarrow> (int \<times> sched) option" where
  "join_kthread env s p =
     (case with_current_task s p_pid of
        None \<Rightarrow> None
      | Some cur \<Rightarrow>
          (case get_process s p of
             None \<Rightarrow> None
           | Some proc \<Rightarrow>
               (case p_state proc of
                  Exited code \<Rightarrow> Some (code, s)
                | _ \<Rightarrow>
                    let s = put_process s p (proc\<lparr>p_join_waiters := p_join_waiters proc @ [cur]\<rparr>)
                    in map_option (Pair 0) (block_current_task env s))))"

definition cancel_kthread :: "kernel_env \<Rightarrow> sched \<Rightarrow> pid \<Rightarrow> (bool \<times> sched) option" where
  "cancel_kthread env s p =
     (case get_process s p of
        None \<Rightarrow> Some (False, s)
      | Some proc \<Rightarrow>
          (case p_state proc of
             Exited _ \<Rightarrow> Some (False, s)
           | _ \<Rightarrow>
               map_option (Pair True)
                 (exit_process env (put_process s p (proc\<lparr>p_state := Canceled\<rparr>)) p (- 1))))"

definition waitpid_matches :: "pid \<Rightarrow> int \<Rightarrow> process \<Rightarrow> bool" where
  "waitpid_matches parent child_pid proc =
     (if child_pid = - 1 then p_parent proc = parent
      else p_pid proc = of_int child_pid \<and> p_parent proc = parent)"

fun waitpid_scan :: "pid \<Rightarrow> int \<Rightarrow> (pid \<times> process) list \<Rightarrow> (pid \<times> int) option" where
  "waitpid_scan parent child_pid [] = None"
| "waitpid_scan parent child_pid ((k, proc) # rest) =
     (case p_state proc of
        Exited code \<Rightarrow>
          if waitpid_matches parent child_pid proc then Some (p_pid proc, code)
          else waitpid_scan parent child_pid rest
      | _ \<Rightarrow> waitpid_scan parent child_pid rest)"

definition waitpid :: "sched \<Rightarrow> pid \<Rightarrow> int \<Rightarrow> (pid \<times> int) option \<times> sched" where
  "waitpid s parent child_pid =
     (case waitpid_scan parent child_pid (tasks s) of
        None \<Rightarrow> (None, s)
      | Some (p, code) \<Rightarrow> (Some (p, code), s\<lparr>tasks := bt_remove p (tasks s)\<rparr>))"

definition tick :: "sched \<Rightarrow> sched" where
  "tick s =
     (let s = s\<lparr>ticks := ticks s + 1\<rparr>
      in case current_pid s of
           None \<Rightarrow> s
         | Some p \<Rightarrow> modify_process s p (\<lambda>proc. proc\<lparr>p_vruntime := p_vruntime proc + 1\<rparr>))"

definition wake_one :: "u64 \<Rightarrow> sched \<Rightarrow> pid \<Rightarrow> sched" where
  "wake_one woken_mask s k =
     (case get_process s k of
        None \<Rightarrow> s
      | Some proc \<Rightarrow>
          if p_state proc = Blocked \<and> p_pid proc < 64 \<and> bit woken_mask (unat (p_pid proc))
          then push_ready (put_process s k (proc\<lparr>p_state := Ready\<rparr>)) (p_pid proc) (p_vruntime proc)
          else s)"

definition wake_sleeping_mask :: "sched \<Rightarrow> u64 \<Rightarrow> sched" where
  "wake_sleeping_mask s woken_mask = foldl (wake_one woken_mask) s (bt_keys (tasks s))"

definition exec_process ::
  "kernel_env \<Rightarrow> abi_registry \<Rightarrow> u64 option \<Rightarrow> sched \<Rightarrow> pid \<Rightarrow> bytes \<Rightarrow> (string + unit) \<times> sched" where
  "exec_process env registry pt s p binary =
     (case registry_detect registry binary of
        None \<Rightarrow> (Inl ''exec: unrecognized binary format'', s)
      | Some plugin \<Rightarrow>
          (case get_process s p of
             None \<Rightarrow> (Inl ''exec: process not found'', s)
           | Some proc \<Rightarrow>
               let proc = proc\<lparr>p_page_table_frame := pt, p_vmas := [], p_binary_data := binary,
                               p_cpu := cpu_zero, p_stack_top := ELF_STACK, p_brk := 0x20000000,
                               p_mmap_bump := 0x70000000\<rparr>
               in case plugin_load plugin binary proc of
                    (Inl _, proc) \<Rightarrow> (Inl ''exec: ELF load failed'', put_process s p proc)
                  | (Inr _, proc) \<Rightarrow>
                      let proc = init_process_stack env proc;
                          c = (p_cpu proc)\<lparr>rip := p_entry_point proc, rsp := p_stack_top proc,
                                           cs := user_code_selector env,
                                           ss := user_data_selector env, rflags := 0x202\<rparr>
                      in (Inr (), put_process s p (proc\<lparr>p_cpu := c, p_state := Ready\<rparr>))))"

definition deliver_signal_to_user :: "sched \<Rightarrow> pid \<Rightarrow> bool \<times> sched" where
  "deliver_signal_to_user s p =
     (let (result, s) = with_process_mut s p
            (\<lambda>proc. let (r, sigs) = deliver_signal (p_signals proc) in (r, proc\<lparr>p_signals := sigs\<rparr>))
      in (result \<noteq> None, s))"

end
