(* ===== verification/Ziqa_Sched_Inv.thy ===== *)
theory Ziqa_Sched_Inv
  imports Ziqa_Scheduler
begin

text \<open>
  The invariant of the scheduler and its preservation by every operation: the table is keyed
  by PID, PIDs come from the allocator, a Running process is the current one, every Ready
  process has an entry in the ready set, and the raw process pointer names the current
  process.
\<close>

section \<open>Reading the state after an update\<close>

lemma get_put [simp]: "get_process (put_process s k p) k' = (if k' = k then Some p else get_process s k')"
  by (simp add: get_process_def put_process_def)

lemma get_modify [simp]:
  "get_process (modify_process s k f) k' =
     (if k' = k then map_option f (get_process s k) else get_process s k')"
  by (simp add: get_process_def modify_process_def)

lemma get_push [simp]: "get_process (push_ready s p v) k = get_process s k"
  by (simp add: get_process_def push_ready_def)

lemma get_set_current [simp]: "get_process (set_current_pid s p) k = get_process s k"
  by (simp add: get_process_def set_current_pid_def)

lemma get_cpu [simp]: "get_process (s\<lparr>the_cpu := c\<rparr>) k = get_process s k"
  by (simp add: get_process_def)

lemma get_queues [simp]: "get_process (s\<lparr>ready_queues := q\<rparr>) k = get_process s k"
  by (simp add: get_process_def)

lemma get_alloc [simp]: "get_process (s\<lparr>pid_allocator := n\<rparr>) k = get_process s k"
  by (simp add: get_process_def)

lemma get_ticks [simp]: "get_process (s\<lparr>ticks := n\<rparr>) k = get_process s k"
  by (simp add: get_process_def)

lemma current_put [simp]: "current_pid (put_process s k p) = current_pid s"
  by (simp add: current_pid_def put_process_def)

lemma current_modify [simp]: "current_pid (modify_process s k f) = current_pid s"
  by (simp add: current_pid_def modify_process_def)

lemma current_push [simp]: "current_pid (push_ready s p v) = current_pid s"
  by (simp add: current_pid_def push_ready_def)

lemma current_queues [simp]: "current_pid (s\<lparr>ready_queues := q\<rparr>) = current_pid s"
  by (simp add: current_pid_def)

lemma current_alloc [simp]: "current_pid (s\<lparr>pid_allocator := n\<rparr>) = current_pid s"
  by (simp add: current_pid_def)

lemma current_tasks [simp]: "current_pid (s\<lparr>tasks := t\<rparr>) = current_pid s"
  by (simp add: current_pid_def)

lemma current_ticks [simp]: "current_pid (s\<lparr>ticks := n\<rparr>) = current_pid s"
  by (simp add: current_pid_def)

lemma put_fields [simp]:
  "ready_queues (put_process s k p) = ready_queues s" "the_cpu (put_process s k p) = the_cpu s"
  "pid_allocator (put_process s k p) = pid_allocator s" "kernel_cr3 (put_process s k p) = kernel_cr3 s"
  by (simp_all add: put_process_def)

lemma modify_fields [simp]:
  "ready_queues (modify_process s k f) = ready_queues s" "the_cpu (modify_process s k f) = the_cpu s"
  "pid_allocator (modify_process s k f) = pid_allocator s"
  by (simp_all add: modify_process_def)

lemma push_fields [simp]:
  "tasks (push_ready s p v) = tasks s" "the_cpu (push_ready s p v) = the_cpu s"
  "pid_allocator (push_ready s p v) = pid_allocator s"
  by (simp_all add: push_ready_def)

lemma set_current_fields [simp]:
  "tasks (set_current_pid s p) = tasks s" "ready_queues (set_current_pid s p) = ready_queues s"
  "pid_allocator (set_current_pid s p) = pid_allocator s"
  by (simp_all add: set_current_pid_def)

definition queued :: "sched \<Rightarrow> pid set" where
  "queued s = snd ` set (queues (ready_queues s))"

lemma queued_put [simp]: "queued (put_process s k p) = queued s"
  by (simp add: queued_def)

lemma queued_modify [simp]: "queued (modify_process s k f) = queued s"
  by (simp add: queued_def)

lemma queued_push [simp]: "queued (push_ready s p v) = insert p (queued s)"
  by (simp add: queued_def push_ready_def ready_push_def Let_def)

lemma queued_set_current [simp]: "queued (set_current_pid s p) = queued s"
  by (simp add: queued_def)

lemma queued_others [simp]:
  "queued (s\<lparr>the_cpu := c\<rparr>) = queued s" "queued (s\<lparr>pid_allocator := n\<rparr>) = queued s"
  "queued (s\<lparr>tasks := t\<rparr>) = queued s" "queued (s\<lparr>ticks := u\<rparr>) = queued s"
  by (simp_all add: queued_def)

section \<open>The invariant\<close>

definition sched_inv :: "sched \<Rightarrow> bool" where
  "sched_inv s \<longleftrightarrow>
     bt_inv (tasks s) \<and> 0 < pid_allocator s \<and>
     (\<forall>k p. get_process s k = Some p \<longrightarrow>
        p_pid p = k \<and> 0 < k \<and> k < pid_allocator s \<and> p_parent p < k) \<and>
     (\<forall>r. current_process_raw (the_cpu s) = Some r \<longrightarrow>
        current_pid s = Some r \<and> get_process s r \<noteq> None) \<and>
     (\<forall>k p. get_process s k = Some p \<longrightarrow> p_state p = Running \<longrightarrow> current_pid s = Some k) \<and>
     (\<forall>k p. get_process s k = Some p \<longrightarrow> p_state p = Ready \<longrightarrow> k \<in> queued s)"

lemma sched_invD:
  assumes "sched_inv s"
  shows "bt_inv (tasks s)"
    "get_process s k = Some p \<Longrightarrow> p_pid p = k"
    "get_process s k = Some p \<Longrightarrow> 0 < k"
    "get_process s k = Some p \<Longrightarrow> k < pid_allocator s"
    "get_process s k = Some p \<Longrightarrow> p_parent p < k"
    "current_process_raw (the_cpu s) = Some r \<Longrightarrow> current_pid s = Some r"
    "current_process_raw (the_cpu s) = Some r \<Longrightarrow> get_process s r \<noteq> None"
    "get_process s k = Some p \<Longrightarrow> p_state p = Running \<Longrightarrow> current_pid s = Some k"
    "get_process s k = Some p \<Longrightarrow> p_state p = Ready \<Longrightarrow> k \<in> queued s"
    "0 < pid_allocator s"
  using assms unfolding sched_inv_def by blast+

lemma bt_inv_put [simp]: "bt_inv (tasks s) \<Longrightarrow> bt_inv (tasks (put_process s k p))"
  by (simp add: put_process_def)

lemma bt_inv_modify_process [simp]: "bt_inv (tasks s) \<Longrightarrow> bt_inv (tasks (modify_process s k f))"
  by (simp add: modify_process_def)

lemma sched_inv_put:
  assumes inv: "sched_inv s" and k: "p_pid p = k" "0 < k" "k < pid_allocator s" "p_parent p < k"
    and r: "p_state p = Running \<Longrightarrow> current_pid s = Some k"
    and q: "p_state p = Ready \<Longrightarrow> k \<in> queued s"
  shows "sched_inv (put_process s k p)"
proof -
  note D = sched_invD[OF inv]
  show ?thesis unfolding sched_inv_def
    using D k r q by (auto split: if_splits)
qed

lemma sched_inv_update:
  assumes "sched_inv s" "get_process s k = Some p" "p_pid p' = p_pid p" "p_parent p' = p_parent p"
    "p_state p' = p_state p \<or> p_state p' \<notin> {Running, Ready}"
  shows "sched_inv (put_process s k p')"
  using sched_invD[OF assms(1)] assms by (intro sched_inv_put) auto

lemma sched_inv_push: "sched_inv s \<Longrightarrow> sched_inv (push_ready s p v)"
  unfolding sched_inv_def by auto

lemma push_put_swap: "push_ready (put_process s k p) x v = put_process (push_ready s x v) k p"
  by (simp add: push_ready_def put_process_def)

lemma sched_inv_make_ready:
  assumes "sched_inv s" "p_pid p = k" "0 < k" "k < pid_allocator s" "p_parent p < k" "p_state p \<noteq> Running"
  shows "sched_inv (push_ready (put_process s k p) k v)"
  unfolding push_put_swap
  using assms sched_inv_push[OF assms(1), of k v] by (intro sched_inv_put) auto

lemma schedule_ready_put:
  "schedule_ready (put_process s k p) k = push_ready (put_process s k (set_state_ready p)) (p_pid p) (p_vruntime p)"
proof -
  have twice: "bt_insert k b (bt_insert k a m) = bt_insert k b m" for a b :: process and m
    by (induction m) auto
  show ?thesis by (simp add: schedule_ready_def) (simp add: put_process_def twice)
qed

lemma schedule_ready_inv: "sched_inv s \<Longrightarrow> sched_inv (schedule_ready s k)"
proof (cases "get_process s k")
  case (Some p)
  assume inv: "sched_inv s"
  note D = sched_invD[OF inv]
  show ?thesis
    using sched_inv_make_ready[OF inv, of "set_state_ready p" k "p_vruntime p"] D Some
    by (simp add: schedule_ready_def set_state_ready_def)
qed (simp add: schedule_ready_def)

lemma schedule_ready_fields [simp]:
  "pid_allocator (schedule_ready s k) = pid_allocator s" "current_pid (schedule_ready s k) = current_pid s"
  "the_cpu (schedule_ready s k) = the_cpu s"
  by (simp_all add: schedule_ready_def split: option.split)

lemma sched_inv_alloc:
  assumes "sched_inv s" "pid_allocator s \<le> n"
  shows "sched_inv (s\<lparr>pid_allocator := n\<rparr>)"
  using assms unfolding sched_inv_def by (fastforce intro: less_le_trans)

section \<open>The context switch\<close>

definition table_current :: "sched \<Rightarrow> pid option" where
  "table_current s =
     (case current_pid s of None \<Rightarrow> None | Some p \<Rightarrow> if get_process s p = None then None else Some p)"

lemma table_current_Some:
  "table_current s = Some k \<longleftrightarrow> current_pid s = Some k \<and> get_process s k \<noteq> None"
  by (auto simp: table_current_def split: option.splits if_splits)

definition raw_ok :: "sched \<Rightarrow> bool" where
  "raw_ok s \<longleftrightarrow> (\<forall>k p. get_process s k = Some p \<longrightarrow> p_pid p = k) \<and>
     (\<forall>r. current_process_raw (the_cpu s) = Some r \<longrightarrow>
        current_pid s = Some r \<and> get_process s r \<noteq> None)"

lemma sched_inv_raw_ok: "sched_inv s \<Longrightarrow> raw_ok s"
  by (simp add: sched_inv_def raw_ok_def)

lemma raw_set_current [simp]:
  "current_process_raw (the_cpu (set_current_pid s p)) = current_process_raw (the_cpu s)"
  by (simp add: set_current_pid_def)

lemma old_process_eq:
  assumes "raw_ok s"
  shows "old_process (set_current_pid s x) (current_pid s) = Some (table_current s)"
proof (cases "current_process_raw (the_cpu s)")
  case None
  then show ?thesis by (simp add: old_process_def table_current_def split: option.split)
next
  case (Some r)
  with assms obtain p where "current_pid s = Some r" "get_process s r = Some p" "p_pid p = r"
    by (auto simp: raw_ok_def)
  with Some show ?thesis by (simp add: old_process_def table_current_def)
qed

text \<open>What one switch does, process by process.\<close>

definition saved :: "sched \<Rightarrow> process \<Rightarrow> bytes \<Rightarrow> process \<Rightarrow> process" where
  "saved s new_proc fpu p =
     p\<lparr>p_fs_base := fs_msr (the_cpu s), p_gs_base := kgs_msr (the_cpu s),
       p_state := (if p_state p = Running then Ready else p_state p),
       p_fpu := fpu, p_kernel_stack_ptr := cpu_sp (the_cpu s) - 56\<rparr>"

lemma saved_fields [simp]:
  "p_pid (saved s np fpu p) = p_pid p" "p_parent (saved s np fpu p) = p_parent p"
  "p_state (saved s np fpu p) = (if p_state p = Running then Ready else p_state p)"
  "p_vruntime (saved s np fpu p) = p_vruntime p" "p_fpu (saved s np fpu p) = fpu"
  by (simp_all add: saved_def)

lemma switch_to_other:
  assumes "raw_ok s" "get_process s new = Some np" "current_pid s \<noteq> Some new"
    "switch_to env s new np = Some s'"
  shows "get_process s' k =
           (if k = new then Some (np\<lparr>p_state := Running\<rparr>)
            else if table_current s = Some k then map_option (saved s np (p_fpu np)) (get_process s k)
            else get_process s k)" (is ?get)
    and "current (the_cpu s') = new" "current_process_raw (the_cpu s') = Some new"
    and "pid_allocator s' = pid_allocator s"
    and "ready_queues s' =
           (case table_current s of
              None \<Rightarrow> ready_queues s
            | Some o' \<Rightarrow> (case get_process s o' of None \<Rightarrow> ready_queues s
                | Some op \<Rightarrow> if p_state op = Running
                            then ready_push (ready_queues s) (p_pid op) (p_vruntime op)
                            else ready_queues s))" (is ?rq)
    and "bt_inv (tasks s) \<Longrightarrow> bt_inv (tasks s')"
    and "fpu_regs (the_cpu s') = p_fpu np" "cpu_sp (the_cpu s') = p_kernel_stack_ptr np + 56"
    and "fs_msr (the_cpu s') = p_fs_base np" "kgs_msr (the_cpu s') = p_gs_base np"
    and "trap_stack (the_cpu s') = p_kernel_stack_top np"
proof -
  have s': "s' = (let t = leave_old (load_new env (save_bases (set_current_pid s (Some new))
                     (table_current s)) new) (table_current s)
                  in t\<lparr>the_cpu := (the_cpu t)\<lparr>cpu_sp := p_kernel_stack_ptr np + 56\<rparr>\<rparr>)"
    using assms(4) old_process_eq[OF assms(1), of "Some new"] by (simp add: switch_to_def Let_def)
  consider (none) "table_current s = None"
    | (some) o' op where "table_current s = Some o'" "get_process s o' = Some op" "o' \<noteq> new"
    using assms(3) by (cases "table_current s") (auto simp: table_current_Some)
  then have *: "?get \<and> current (the_cpu s') = new \<and> current_process_raw (the_cpu s') = Some new \<and>
     pid_allocator s' = pid_allocator s \<and> ?rq \<and> (bt_inv (tasks s) \<longrightarrow> bt_inv (tasks s')) \<and>
     fpu_regs (the_cpu s') = p_fpu np \<and> cpu_sp (the_cpu s') = p_kernel_stack_ptr np + 56 \<and>
     fs_msr (the_cpu s') = p_fs_base np \<and> kgs_msr (the_cpu s') = p_gs_base np \<and>
     trap_stack (the_cpu s') = p_kernel_stack_top np"
  proof cases
    case none
    then show ?thesis using assms(2)
      by (simp add: s' Let_def save_bases_def load_new_def leave_old_def set_current_pid_def)
  next
    case some
    then show ?thesis using assms(2)
      by (simp add: s' Let_def save_bases_def load_new_def leave_old_def)
         (auto simp: set_current_pid_def push_ready_def saved_def)
  qed
  then show ?get ?rq "current (the_cpu s') = new" "current_process_raw (the_cpu s') = Some new"
    "pid_allocator s' = pid_allocator s" "bt_inv (tasks s) \<Longrightarrow> bt_inv (tasks s')"
    "fpu_regs (the_cpu s') = p_fpu np" "cpu_sp (the_cpu s') = p_kernel_stack_ptr np + 56"
    "fs_msr (the_cpu s') = p_fs_base np" "kgs_msr (the_cpu s') = p_gs_base np"
    "trap_stack (the_cpu s') = p_kernel_stack_top np"
    by simp_all
qed

lemma switch_to_total: "raw_ok s \<Longrightarrow> \<exists>s'. switch_to env s new np = Some s'"
  using old_process_eq[of s "Some new"] by (simp add: switch_to_def Let_def)

text \<open>A switch to the process that is already current.\<close>

lemma switch_to_self:
  assumes "raw_ok s" "get_process s new = Some np" "current_pid s = Some new"
    "switch_to env s new np = Some s'"
  shows "get_process s' k =
           (if k = new then Some (np\<lparr>p_fs_base := fs_msr (the_cpu s), p_gs_base := kgs_msr (the_cpu s),
                                    p_state := Ready, p_kernel_stack_ptr := cpu_sp (the_cpu s) - 56\<rparr>)
            else get_process s k)" (is ?get)
    and "current (the_cpu s') = new" "current_process_raw (the_cpu s') = Some new"
    and "pid_allocator s' = pid_allocator s"
    and "ready_queues s' = ready_push (ready_queues s) (p_pid np) (p_vruntime np)" (is ?rq)
    and "bt_inv (tasks s) \<Longrightarrow> bt_inv (tasks s')"
    and "cpu_sp (the_cpu s') = p_kernel_stack_ptr np + 56"
proof -
  have o: "table_current s = Some new" using assms(2,3) by (simp add: table_current_Some)
  have s': "s' = (let t = leave_old (load_new env (save_bases (set_current_pid s (Some new))
                     (Some new)) new) (Some new)
                  in t\<lparr>the_cpu := (the_cpu t)\<lparr>cpu_sp := p_kernel_stack_ptr np + 56\<rparr>\<rparr>)"
    using assms(4) old_process_eq[OF assms(1), of "Some new"] o by (simp add: switch_to_def Let_def)
  have *: "?get \<and> current (the_cpu s') = new \<and> current_process_raw (the_cpu s') = Some new \<and>
     pid_allocator s' = pid_allocator s \<and> ?rq \<and> (bt_inv (tasks s) \<longrightarrow> bt_inv (tasks s')) \<and>
     cpu_sp (the_cpu s') = p_kernel_stack_ptr np + 56"
    using assms(2)
    by (simp add: s' Let_def save_bases_def load_new_def leave_old_def)
       (simp add: set_current_pid_def push_ready_def)
  then show ?get ?rq "current (the_cpu s') = new" "current_process_raw (the_cpu s') = Some new"
    "pid_allocator s' = pid_allocator s" "bt_inv (tasks s) \<Longrightarrow> bt_inv (tasks s')"
    "cpu_sp (the_cpu s') = p_kernel_stack_ptr np + 56" by simp_all
qed

section \<open>\<open>schedule\<close> keeps the invariant\<close>

text \<open>While \<open>schedule\<close> holds the PID it has popped, that process alone may be Ready without an
  entry in the ready set.\<close>

definition sched_inv_popped :: "pid \<Rightarrow> sched \<Rightarrow> bool" where
  "sched_inv_popped n s \<longleftrightarrow>
     bt_inv (tasks s) \<and> 0 < pid_allocator s \<and>
     (\<forall>k p. get_process s k = Some p \<longrightarrow>
        p_pid p = k \<and> 0 < k \<and> k < pid_allocator s \<and> p_parent p < k) \<and>
     (\<forall>r. current_process_raw (the_cpu s) = Some r \<longrightarrow>
        current_pid s = Some r \<and> get_process s r \<noteq> None) \<and>
     (\<forall>k p. get_process s k = Some p \<longrightarrow> p_state p = Running \<longrightarrow> current_pid s = Some k) \<and>
     (\<forall>k p. get_process s k = Some p \<longrightarrow> p_state p = Ready \<longrightarrow> k \<in> queued s \<or> k = n)"

abbreviation popped :: "(u64 \<times> pid) list \<Rightarrow> sched \<Rightarrow> sched" where
  "popped rest s \<equiv> s\<lparr>ready_queues := (ready_queues s)\<lparr>queues := rest\<rparr>\<rparr>"

lemma sched_inv_pop:
  assumes "sched_inv s" "queues (ready_queues s) = (c, n) # rest"
  shows "sched_inv_popped n (popped rest s)"
proof -
  have "queued s = insert n (queued (popped rest s))" using assms(2) by (simp add: queued_def)
  with assms(1) show ?thesis unfolding sched_inv_def sched_inv_popped_def by auto
qed

lemma sched_inv_unpop:
  "sched_inv_popped n s \<Longrightarrow> (\<And>p. get_process s n = Some p \<Longrightarrow> p_state p \<noteq> Ready) \<Longrightarrow> sched_inv s"
  unfolding sched_inv_def sched_inv_popped_def by blast

lemma popped_raw_ok: "sched_inv_popped n s \<Longrightarrow> raw_ok s"
  by (simp add: sched_inv_popped_def raw_ok_def)

lemma current_pid_of: "current (the_cpu s) = k \<Longrightarrow> k \<noteq> - 1 \<Longrightarrow> current_pid s = Some k"
  by (simp add: current_pid_def)

lemma alloc_not_max: "(k::u64) < n \<Longrightarrow> k \<noteq> - 1"
  using word_order.extremum_strict by blast

lemma switch_to_inv:
  assumes inv: "sched_inv_popped new s" and new: "get_process s new = Some np" "p_state np = Ready"
    and sw: "switch_to env s new np = Some s'"
  shows "sched_inv s' \<and> current_pid s' = Some new"
proof -
  note D = inv[unfolded sched_inv_popped_def]
  have nm: "new \<noteq> - 1" using D new alloc_not_max by blast
  show ?thesis
  proof (cases "current_pid s = Some new")
    case True
    note S = switch_to_self[OF popped_raw_ok[OF inv] new(1) True sw]
    have "queued s' = insert new (queued s)"
      using S(5) D new by (simp add: queued_def ready_push_def Let_def)
    moreover have "current_pid s' = Some new" using S(2) nm by (rule current_pid_of)
    moreover have "p_state p \<noteq> Running" if "get_process s k = Some p" "k \<noteq> new" for k p
      using that D True by force
    ultimately show ?thesis
      using S(1,3,4,6) D new by (auto simp: sched_inv_def split: if_splits)
  next
    case False
    note S = switch_to_other[OF popped_raw_ok[OF inv] new(1) False sw]
    have cur: "current_pid s' = Some new" using S(2) nm by (rule current_pid_of)
    have q: "queued s \<subseteq> queued s'" "\<And>o' op. table_current s = Some o' \<Longrightarrow> get_process s o' = Some op \<Longrightarrow>
        p_state op = Running \<Longrightarrow> o' \<in> queued s'"
      using S(5) D by (auto simp: queued_def ready_push_def Let_def split: option.splits if_splits)
    have run: "p_state p \<noteq> Running" if "get_process s k = Some p" "table_current s \<noteq> Some k" for k p
      using that D by (auto simp: table_current_Some)
    have rdy: "k \<in> queued s'" if "get_process s k = Some p" "p_state p = Ready" "k \<noteq> new" for k p
      using that D q(1) by blast
    show ?thesis
      using cur S(1,3,4,6) D q run rdy new
      by (auto simp: sched_inv_def split: if_splits)
  qed
qed

lemma schedule_from_inv:
  assumes "sched_inv s" "queues (ready_queues s) = q"
  shows "\<exists>s'. schedule_from env q s = Some s' \<and> sched_inv s'"
  using assms
proof (induction env q s rule: schedule_from.induct)
  case (2 env c n rest s)
  let ?s = "popped rest s"
  have pop: "sched_inv_popped n ?s" by (rule sched_inv_pop[OF 2(3,4)])
  have q: "queues (ready_queues ?s) = rest" by simp
  show ?case
  proof (cases "get_process ?s n")
    case None
    then have "sched_inv ?s" using sched_inv_unpop[OF pop] by simp
    from 2(1)[OF refl None this q] None show ?thesis by simp
  next
    case (Some np)
    show ?thesis
    proof (cases "p_state np = Ready")
      case True
      from switch_to_total[OF popped_raw_ok[OF pop]] obtain s' where sw: "switch_to env ?s n np = Some s'"
        by blast
      with switch_to_inv[OF pop Some True sw] Some True show ?thesis by simp
    next
      case False
      then have inv: "sched_inv ?s" using sched_inv_unpop[OF pop] Some by simp
      show ?thesis
      proof (cases "current_pid ?s = Some n \<and> p_state np = Running")
        case True
        with inv Some show ?thesis by simp
      next
        case nr: False
        from 2(2)[OF refl Some nr False inv q] Some False nr show ?thesis by (auto simp: Let_def)
      qed
    qed
  qed
qed simp

lemma schedule_inv:
  assumes "sched_inv s"
  shows "\<exists>s'. schedule env s = Some s' \<and> sched_inv s'"
  using schedule_from_inv[OF assms refl] by (simp add: schedule_def)

end
