(* ===== verification/Ziqa_Sched_Steps.thy ===== *)
theory Ziqa_Sched_Steps
  imports Ziqa_Sched_Inv
begin

text \<open>
  Every operation of the scheduler keeps the invariant of \<open>Ziqa_Sched_Inv\<close>; the step
  relation of the scheduler and the properties of its runs.  \<open>env_ok\<close> and \<open>plugin_ok\<close> say
  that the stack initialiser and the ABI loaders leave PID, parent and state of the process
  they are given alone.
\<close>

section \<open>Creating processes\<close>

definition env_ok :: "kernel_env \<Rightarrow> bool" where
  "env_ok env \<longleftrightarrow> (\<forall>p. p_pid (init_process_stack env p) = p_pid p \<and>
     p_parent (init_process_stack env p) = p_parent p \<and> p_state (init_process_stack env p) = p_state p)"

definition plugin_ok :: "abi_plugin \<Rightarrow> bool" where
  "plugin_ok pl \<longleftrightarrow> (\<forall>b p. p_pid (snd (plugin_load pl b p)) = p_pid p \<and>
     p_parent (snd (plugin_load pl b p)) = p_parent p \<and> p_state (snd (plugin_load pl b p)) = p_state p)"

definition pids_left :: "sched \<Rightarrow> bool" where
  "pids_left s \<longleftrightarrow> unat (pid_allocator s) + 1 < 2 ^ 64"

lemma pids_left_less: "pids_left s \<Longrightarrow> pid_allocator s < pid_allocator s + 1"
  unfolding pids_left_def by (rule less_Suc_word) simp

lemma process_new_fields [simp]:
  "p_pid (process_new env kb k abi e st) = k" "p_parent (process_new env kb k abi e st) = 0"
  "p_state (process_new env kb k abi e st) = Created"
  "p_capabilities (process_new env kb k abi e st) = []" "p_fds (process_new env kb k abi e st) = fd_new"
  by (simp_all add: process_new_def space_new_def Let_def split: prod.split)

lemma process_helpers [simp]:
  "p_pid (set_priority p n) = p_pid p" "p_parent (set_priority p n) = p_parent p"
  "p_pid (add_region p v) = p_pid p" "p_parent (add_region p v) = p_parent p"
  "p_state (set_priority p n) = p_state p" "p_state (add_region p v) = p_state p"
  "p_pid (set_page_table p pt) = p_pid p" "p_parent (set_page_table p pt) = p_parent p"
  "p_state (set_page_table p pt) = p_state p"
  "p_pid (set_state_ready p) = p_pid p" "p_parent (set_state_ready p) = p_parent p"
  "p_state (set_state_ready p) = Ready"
  by (simp_all add: set_priority_def add_region_def set_page_table_def set_state_ready_def split: option.split)

abbreviation next_alloc :: "sched \<Rightarrow> sched" where
  "next_alloc s \<equiv> s\<lparr>pid_allocator := pid_allocator s + 1\<rparr>"

lemma next_alloc_inv: "sched_inv s \<Longrightarrow> pids_left s \<Longrightarrow> sched_inv (next_alloc s)"
  using pids_left_less[of s] by (intro sched_inv_alloc) auto

lemma new_process_inv:
  assumes "sched_inv s" "pids_left s" "p_pid p = pid_allocator s" "p_parent p < pid_allocator s"
    "p_state p \<noteq> Running"
  shows "sched_inv (push_ready (put_process (next_alloc s) (pid_allocator s) p) (pid_allocator s) v)"
  using assms next_alloc_inv[OF assms(1,2)] pids_left_less[OF assms(2)] sched_invD(10)[OF assms(1)]
  by (intro sched_inv_make_ready) auto

lemma spawn_inv:
  assumes "sched_inv s" "pids_left s" "env_ok env" "spawn env kb pt s abi e st = Some (r, s')"
  shows "sched_inv s'"
proof -
  from assms(4) consider "s' = next_alloc s"
    | v where "s' = schedule_ready (put_process (next_alloc s) (pid_allocator s)
        (init_process_stack env (add_region (set_page_table (set_priority
           (process_new env kb (pid_allocator s) abi e st) 0) pt) v))) (pid_allocator s)"
    by (auto simp: spawn_def alloc_pid_def Let_def split: option.splits)
  then show ?thesis
  proof cases
    case 1
    with next_alloc_inv[OF assms(1,2)] show ?thesis by simp
  next
    case 2
    with assms new_process_inv[OF assms(1,2)] sched_invD(10)[OF assms(1)] show ?thesis
      by (simp add: schedule_ready_put env_ok_def)
  qed
qed

lemma spawn_kthread_inv:
  assumes "sched_inv s" "pids_left s"
  shows "sched_inv (snd (spawn_kthread env kb tr s e a))"
  using new_process_inv[OF assms] sched_invD(10)[OF assms(1)]
  by (simp add: spawn_kthread_def alloc_pid_def Let_def schedule_ready_put init_kthread_stack_def)

lemma install_inv:
  assumes "sched_inv s" "pids_left s" "env_ok env" "p_pid p = pid_allocator s"
    "p_parent p < pid_allocator s"
  shows "sched_inv (snd (install env (next_alloc s) (pid_allocator s) p))"
  using new_process_inv[OF assms(1,2)] assms(3-) by (simp add: install_def env_ok_def)

lemma prepare_elf_fields:
  "prepare_elf env kb pt p = Some p' \<Longrightarrow> p_pid p' = p_pid p \<and> p_parent p' = p_parent p"
  by (auto simp: prepare_elf_def Let_def)

lemma plugin_okD:
  "plugin_ok pl \<Longrightarrow> plugin_load pl b p = (r, p') \<Longrightarrow> p_pid p' = p_pid p \<and> p_parent p' = p_parent p"
  unfolding plugin_ok_def by (metis snd_conv)

lemma spawn_elf_inv:
  assumes "sched_inv s" "pids_left s" "env_ok env" "\<And>pl. registry_detect reg b = Some pl \<Longrightarrow> plugin_ok pl"
    "spawn_elf env reg kb kb2 pt s b = Some (r, s')"
  shows "sched_inv s'"
proof -
  note inst = install_inv[OF assms(1,2,3)]
  from assms(4,5) show ?thesis
    using assms(1) next_alloc_inv[OF assms(1,2)] inst sched_invD(10)[OF assms(1)]
    by (fastforce simp: spawn_elf_def alloc_pid_def Let_def dest!: prepare_elf_fields plugin_okD
        split: option.splits sum.splits prod.splits)
qed

lemma spawn_moved_inv:
  assumes "sched_inv s" "pids_left s" "env_ok env" "plugin_ok pl"
    "spawn_moved env pl kind kb kb2 pt s b argv envp = Some (r, s')"
  shows "sched_inv s'"
proof -
  let ?p0 = "(process_new env kb (pid_allocator s) kind ELF_ENTRY ELF_STACK)
               \<lparr>p_binary_data := b, p_argv := argv, p_envp := envp\<rparr>"
  from assms(5) consider "s' = next_alloc s"
    | p b' u p2 where "prepare_elf env kb2 pt ?p0 = Some p"
        "plugin_load pl b' (p\<lparr>p_binary_data := []\<rparr>) = (Inr u, p2)"
        "s' = snd (install env (next_alloc s) (pid_allocator s) (p2\<lparr>p_binary_data := b'\<rparr>))"
    by (auto simp: spawn_moved_def alloc_pid_def Let_def
        split: option.splits sum.splits prod.splits)
  then show ?thesis
  proof cases
    case 1
    with next_alloc_inv[OF assms(1,2)] show ?thesis by simp
  next
    case 2
    with install_inv[OF assms(1,2,3), of "p2\<lparr>p_binary_data := b'\<rparr>"] sched_invD(10)[OF assms(1)]
      prepare_elf_fields[OF 2(1)] plugin_okD[OF assms(4) 2(2)]
    show ?thesis by simp
  qed
qed

lemma spawn_redox_elf_inv:
  assumes "sched_inv s" "pids_left s" "env_ok env" "plugin_ok pl"
    "spawn_redox_elf env pl kb kb2 pt s b = Some (r, s')"
  shows "sched_inv s'"
  using assms(5) next_alloc_inv[OF assms(1,2)] install_inv[OF assms(1,2,3)] sched_invD(10)[OF assms(1)]
  by (fastforce simp: spawn_redox_elf_def alloc_pid_def Let_def
      dest!: prepare_elf_fields plugin_okD[OF assms(4)] split: option.splits sum.splits prod.splits)

section \<open>Signals, exit, waiting\<close>

lemma fork_inv:
  assumes "sched_inv s" "pids_left s"
  shows "sched_inv (snd (fork env kb l4 s parent))"
proof (cases "get_process s parent")
  case (Some p)
  note D = sched_invD[OF assms(1)]
  let ?p = "p\<lparr>p_vmas := map mark_cow (p_vmas p)\<rparr>"
  have inv: "sched_inv (put_process s parent ?p)"
    by (rule sched_inv_update[OF assms(1) Some]) auto
  have pl: "pids_left (put_process s parent ?p)" using assms(2) by (simp add: pids_left_def)
  have "put_process (s\<lparr>pid_allocator := n\<rparr>) k q = (put_process s k q)\<lparr>pid_allocator := n\<rparr>" for n k q
    by (simp add: put_process_def)
  then show ?thesis
    using new_process_inv[OF inv pl] D(4)[OF Some] Some
    by (simp add: fork_def alloc_pid_def Let_def set_page_table_def split: option.split)
qed (simp add: fork_def assms)

lemma send_signal_inv:
  assumes "sched_inv s"
  shows "sched_inv (snd (send_signal s t n))"
proof (cases "get_process s t")
  case (Some p)
  note D = sched_invD[OF assms]
  have c: "p_state p = Blocked \<Longrightarrow>
      sched_inv (push_ready (put_process s t (p\<lparr>p_signals := sg, p_state := Ready\<rparr>)) t v)" for sg v
    using D Some by (intro sched_inv_make_ready[OF assms]) auto
  show ?thesis
    using Some c sched_inv_update[OF assms Some] by (simp add: send_signal_def Let_def)
qed (simp add: send_signal_def assms)

lemma foldl_wake_inv: "sched_inv s \<Longrightarrow> sched_inv (foldl schedule_ready s ws)"
  by (induction ws arbitrary: s) (simp_all add: schedule_ready_inv)

lemma exit_process_inv:
  assumes "sched_inv s"
  shows "\<exists>s'. exit_process env s k code = Some s' \<and> sched_inv s'"
proof (cases "get_process s k")
  case (Some p)
  let ?s1 = "put_process s k (p\<lparr>p_exit_code := code, p_state := Exited code, p_join_waiters := []\<rparr>)"
  let ?s2 = "if p_parent p \<noteq> 0 then snd (send_signal ?s1 (p_parent p) SIGCHLD) else ?s1"
  let ?s3 = "foldl schedule_ready ?s2 (p_join_waiters p)"
  have "sched_inv ?s1" by (rule sched_inv_update[OF assms Some]) auto
  then have inv: "sched_inv ?s3" by (intro foldl_wake_inv) (simp add: send_signal_inv)
  have "p_parent p \<noteq> k" using sched_invD(5)[OF assms Some] by simp
  then have "exit_process env s k code = (if with_current_task ?s3 p_pid = Some k then schedule env ?s3 else Some ?s3)"
    using Some by (simp add: exit_process_def Let_def)
  with schedule_inv[OF inv] inv show ?thesis by simp
qed (simp add: exit_process_def assms)

lemma block_current_inv:
  assumes "sched_inv s"
  shows "\<exists>s'. block_current_task env s = Some s' \<and> sched_inv s'"
proof (cases "current_pid s")
  case (Some c)
  let ?s = "case get_process s c of None \<Rightarrow> s
     | Some p \<Rightarrow> if p_state p = Running then put_process s c (block p) else s"
  have "sched_inv ?s"
    using assms sched_inv_update[OF assms] by (auto simp: block_def split: option.split)
  with schedule_inv[OF this] Some show ?thesis by (simp add: block_current_task_def Let_def)
qed (simp add: block_current_task_def assms)

lemma join_kthread_inv:
  assumes "sched_inv s" "join_kthread env s k = Some (r, s')"
  shows "sched_inv s'"
proof -
  from assms(2) consider "s' = s"
    | p c where "get_process s k = Some p"
        "block_current_task env (put_process s k (p\<lparr>p_join_waiters := p_join_waiters p @ [c]\<rparr>)) = Some s'"
    by (auto simp: join_kthread_def Let_def split: option.splits process_state.splits)
  then show ?thesis
  proof cases
    case 2
    have "sched_inv (put_process s k (p\<lparr>p_join_waiters := p_join_waiters p @ [c]\<rparr>))"
      by (rule sched_inv_update[OF assms(1) 2(1)]) auto
    from block_current_inv[OF this, of env] 2(2) show ?thesis by simp
  qed (use assms in simp)
qed

lemma cancel_kthread_inv:
  assumes "sched_inv s" "cancel_kthread env s k = Some (r, s')"
  shows "sched_inv s'"
proof -
  from assms(2) consider "s' = s"
    | p where "get_process s k = Some p"
        "exit_process env (put_process s k (p\<lparr>p_state := Canceled\<rparr>)) k (- 1) = Some s'"
    by (auto simp: cancel_kthread_def split: option.splits process_state.splits)
  then show ?thesis
  proof cases
    case 2
    have "sched_inv (put_process s k (p\<lparr>p_state := Canceled\<rparr>))"
      by (rule sched_inv_update[OF assms(1) 2(1)]) auto
    from exit_process_inv[OF this, of env k "- 1"] 2(2) show ?thesis by simp
  qed (use assms in simp)
qed

lemma waitpid_scan_Some:
  assumes "waitpid_scan parent c m = Some (k, code)"
  obtains k' p where "(k', p) \<in> set m" "p_pid p = k" "p_state p = Exited code"
    "waitpid_matches parent c p"
  using assms by (induction parent c m rule: waitpid_scan.induct)
    (fastforce split: process_state.splits if_splits)+

lemma sched_inv_remove:
  assumes "sched_inv s" "current_process_raw (the_cpu s) \<noteq> Some k"
  shows "sched_inv (s\<lparr>tasks := bt_remove k (tasks s)\<rparr>)"
proof -
  have "get_process (s\<lparr>tasks := bt_remove k (tasks s)\<rparr>) j = (if j = k then None else get_process s j)" for j
    using sched_invD(1)[OF assms(1)] by (simp add: get_process_def)
  with assms show ?thesis unfolding sched_inv_def by auto
qed

lemma waitpid_inv:
  assumes "sched_inv s" "current_pid s = Some parent"
  shows "sched_inv (snd (waitpid s parent c))"
proof (cases "waitpid_scan parent c (tasks s)")
  case (Some a)
  obtain k code where a: "a = (k, code)" by fastforce
  from Some[unfolded a] obtain k' p where p: "(k', p) \<in> set (tasks s)" "p_pid p = k"
    "waitpid_matches parent c p" by (rule waitpid_scan_Some)
  then have "get_process s k' = Some p"
    using bt_inv_distinct[OF sched_invD(1)[OF assms(1)]] by (simp add: get_process_def)
  with p sched_invD(2,5)[OF assms(1)] have "p_parent p < k" by blast
  moreover have "p_parent p = parent" using p(3) by (simp add: waitpid_matches_def split: if_splits)
  ultimately have "current_process_raw (the_cpu s) \<noteq> Some k"
    using sched_invD(6)[OF assms(1), of k] assms(2) by auto
  from sched_inv_remove[OF assms(1) this] Some a show ?thesis by (simp add: waitpid_def)
qed (simp add: waitpid_def assms)

lemma modify_put: "modify_process s k f = (case get_process s k of None \<Rightarrow> s | Some p \<Rightarrow> put_process s k (f p))"
  by (simp add: modify_process_def put_process_def get_process_def bt_modify_def split: option.split)

lemma tick_inv: "sched_inv s \<Longrightarrow> sched_inv (tick s)"
proof -
  assume inv: "sched_inv s"
  have inv': "sched_inv (s\<lparr>ticks := ticks s + 1\<rparr>)" using inv by (simp add: sched_inv_def)
  show ?thesis
    using inv' sched_inv_update[OF inv']
    by (simp add: tick_def Let_def modify_put split: option.split)
qed

lemma wake_one_inv: "sched_inv s \<Longrightarrow> sched_inv (wake_one m s k)"
proof (cases "get_process s k")
  case (Some p)
  assume inv: "sched_inv s"
  note D = sched_invD[OF inv]
  show ?thesis
    using Some D inv sched_inv_make_ready[OF inv, of "p\<lparr>p_state := Ready\<rparr>" k "p_vruntime p"]
    by (simp add: wake_one_def)
qed (simp add: wake_one_def)

lemma wake_sleeping_inv: "sched_inv s \<Longrightarrow> sched_inv (wake_sleeping_mask s m)"
proof -
  have "sched_inv s \<Longrightarrow> sched_inv (foldl (wake_one m) s ks)" for ks
    by (induction ks arbitrary: s) (simp_all add: wake_one_inv)
  then show "sched_inv s \<Longrightarrow> sched_inv (wake_sleeping_mask s m)" by (simp add: wake_sleeping_mask_def)
qed

lemma deliver_inv: "sched_inv s \<Longrightarrow> sched_inv (snd (deliver_signal_to_user s k))"
  using sched_inv_update[of s k]
  by (auto simp: deliver_signal_to_user_def with_process_mut_def Let_def case_prod_beta split: option.split)

section \<open>Runs of the scheduler\<close>

definition sched_boot :: "kernel_env \<Rightarrow> u64 \<Rightarrow> cpu \<Rightarrow> sched" where
  "sched_boot env kbase c = init_boot_process env kbase (sched_new (c\<lparr>current_process_raw := None\<rparr>))"

inductive sched_step :: "kernel_env \<Rightarrow> abi_registry \<Rightarrow> abi_plugin \<Rightarrow> sched \<Rightarrow> sched \<Rightarrow> bool"
  for env registry redox where
  st_spawn: "pids_left s \<Longrightarrow> spawn env kb pt s abi e stk = Some (r, s') \<Longrightarrow> sched_step env registry redox s s'"
| st_kthread: "pids_left s \<Longrightarrow> spawn_kthread env kb tr s e a = (r, s') \<Longrightarrow> sched_step env registry redox s s'"
| st_elf: "pids_left s \<Longrightarrow> spawn_elf env registry kb kb2 pt s b = Some (r, s') \<Longrightarrow> sched_step env registry redox s s'"
| st_elf_vec: "pids_left s \<Longrightarrow> spawn_elf_from_vec env registry kb kb2 pt s b = Some (r, s') \<Longrightarrow>
    sched_step env registry redox s s'"
| st_redox: "pids_left s \<Longrightarrow> spawn_redox_elf env redox kb kb2 pt s b = Some (r, s') \<Longrightarrow>
    sched_step env registry redox s s'"
| st_redox_vec: "pids_left s \<Longrightarrow> spawn_redox_elf_from_vec env redox kb kb2 pt s b = Some (r, s') \<Longrightarrow>
    sched_step env registry redox s s'"
| st_redox_args: "pids_left s \<Longrightarrow> spawn_redox_elf_with_args env redox kb kb2 pt s b av ev = Some (r, s') \<Longrightarrow>
    sched_step env registry redox s s'"
| st_fork: "pids_left s \<Longrightarrow> fork env kb l4 s p = (r, s') \<Longrightarrow> sched_step env registry redox s s'"
| st_signal: "send_signal s t n = (r, s') \<Longrightarrow> sched_step env registry redox s s'"
| st_exit: "exit_process env s p code = Some s' \<Longrightarrow> sched_step env registry redox s s'"
| st_join: "join_kthread env s p = Some (r, s') \<Longrightarrow> sched_step env registry redox s s'"
| st_cancel: "cancel_kthread env s p = Some (r, s') \<Longrightarrow> sched_step env registry redox s s'"
| st_block: "block_current_task env s = Some s' \<Longrightarrow> sched_step env registry redox s s'"
| st_wait: "current_pid s = Some p \<Longrightarrow> waitpid s p c = (r, s') \<Longrightarrow> sched_step env registry redox s s'"
| st_tick: "sched_step env registry redox s (tick s)"
| st_wake: "sched_step env registry redox s (wake_sleeping_mask s m)"
| st_deliver: "deliver_signal_to_user s p = (r, s') \<Longrightarrow> sched_step env registry redox s s'"
| st_schedule: "schedule env s = Some s' \<Longrightarrow> sched_step env registry redox s s'"

lemma sched_boot_inv: "sched_inv (sched_boot env kb c)"
proof -
  have p: "k \<noteq> 1 \<Longrightarrow> get_process (sched_boot env kb c) k = None" for k
    by (simp add: sched_boot_def init_boot_process_def alloc_pid_def sched_new_def pid_allocator_new_def Let_def)
       (simp add: get_process_def)
  have b: "bt_inv (tasks (sched_boot env kb c))" "pid_allocator (sched_boot env kb c) = 2"
    "current_pid (sched_boot env kb c) = Some 1" "current_process_raw (the_cpu (sched_boot env kb c)) = None"
    by (simp_all add: sched_boot_def init_boot_process_def alloc_pid_def sched_new_def
        pid_allocator_new_def Let_def set_current_pid_def current_pid_def put_process_def)
  obtain q where q: "get_process (sched_boot env kb c) 1 = Some q" "p_pid q = 1" "p_parent q = 0" "p_state q = Running"
    by (simp add: sched_boot_def init_boot_process_def alloc_pid_def sched_new_def pid_allocator_new_def Let_def)
  have u: "get_process (sched_boot env kb c) k = Some p \<Longrightarrow> k = 1 \<and> p = q" for k p
    using p[of k] q(1) by (cases "k = 1") auto
  show ?thesis unfolding sched_inv_def using b q by (auto dest!: u)
qed

lemma sched_step_inv:
  assumes "sched_step env registry redox s s'" "sched_inv s" "env_ok env" "plugin_ok redox"
    "\<And>b pl. registry_detect registry b = Some pl \<Longrightarrow> plugin_ok pl"
  shows "sched_inv s'"
  using assms(1)
proof cases
  case st_spawn then show ?thesis using spawn_inv assms(2,3) by blast
next
  case st_kthread then show ?thesis using spawn_kthread_inv[OF assms(2)] by (metis snd_conv)
next
  case st_elf then show ?thesis using spawn_elf_inv[OF assms(2) _ assms(3)] assms(5) by blast
next
  case (st_elf_vec kb kb2 pt b r)
  show ?thesis
  proof (cases "registry_detect registry b")
    case None
    with st_elf_vec assms(2) show ?thesis by (simp add: spawn_elf_from_vec_def)
  next
    case (Some pl)
    with st_elf_vec spawn_moved_inv[OF assms(2) st_elf_vec(1) assms(3) assms(5)[OF Some]]
    show ?thesis by (simp add: spawn_elf_from_vec_def)
  qed
next
  case st_redox then show ?thesis using spawn_redox_elf_inv[OF assms(2) _ assms(3,4)] by blast
next
  case st_redox_vec then show ?thesis
    using spawn_moved_inv[OF assms(2) _ assms(3,4)] by (auto simp: spawn_redox_elf_from_vec_def)
next
  case st_redox_args then show ?thesis
    using spawn_moved_inv[OF assms(2) _ assms(3,4)] by (auto simp: spawn_redox_elf_with_args_def)
next
  case st_fork then show ?thesis using fork_inv[OF assms(2)] by (metis snd_conv)
next
  case st_signal then show ?thesis using send_signal_inv[OF assms(2)] by (metis snd_conv)
next
  case st_exit then show ?thesis using exit_process_inv[OF assms(2)] by (metis option.inject)
next
  case st_join then show ?thesis using join_kthread_inv[OF assms(2)] by blast
next
  case st_cancel then show ?thesis using cancel_kthread_inv[OF assms(2)] by blast
next
  case st_block then show ?thesis using block_current_inv[OF assms(2)] by (metis option.inject)
next
  case st_wait then show ?thesis using waitpid_inv[OF assms(2)] by (metis snd_conv)
next
  case st_tick then show ?thesis using tick_inv[OF assms(2)] by simp
next
  case st_wake then show ?thesis using wake_sleeping_inv[OF assms(2)] by simp
next
  case st_deliver then show ?thesis using deliver_inv[OF assms(2)] by (metis snd_conv)
next
  case st_schedule then show ?thesis using schedule_inv[OF assms(2)] by (metis option.inject)
qed

lemma sched_run_inv:
  assumes "(sched_step env registry redox)\<^sup>*\<^sup>* s s'" "sched_inv s" "env_ok env" "plugin_ok redox"
    "\<And>b pl. registry_detect registry b = Some pl \<Longrightarrow> plugin_ok pl"
  shows "sched_inv s'"
  using assms(1,2) by (induction rule: rtranclp_induct) (use sched_step_inv assms(3-) in blast)+

section \<open>Waiting in the ready set\<close>

definition queue_ok :: "ready_set \<Rightarrow> bool" where
  "queue_ok q \<longleftrightarrow> bs_inv (queues q) \<and> (\<forall>(c, p) \<in> set (queues q). c \<le> counter q)"

lemma ready_push_last:
  assumes "queue_ok q" "unat (counter q) + 1 < 2 ^ 64"
  shows "queues (ready_push q p v) = queues q @ [(counter q + 1, p)]"
    "counter (ready_push q p v) = counter q + 1" "queue_ok (ready_push q p v)"
proof -
  have less: "counter q < counter q + 1" using assms(2) by (intro less_Suc_word) simp
  with assms(1) have last: "\<forall>y \<in> set (queues q). y < (counter q + 1, p)"
    by (auto simp: queue_ok_def less_prod_def' dest: order_le_less_trans)
  then show q: "queues (ready_push q p v) = queues q @ [(counter q + 1, p)]"
    by (simp add: ready_push_def Let_def bs_insert_last)
  show "counter (ready_push q p v) = counter q + 1" by (simp add: ready_push_def Let_def)
  have "bs_inv (queues (ready_push q p v))"
    using assms(1) by (simp add: ready_push_def Let_def queue_ok_def)
  with assms(1) less show "queue_ok (ready_push q p v)"
    by (auto simp: queue_ok_def q) (auto simp: ready_push_def Let_def dest: order_le_less_trans)
qed

end
