(* ===== verification/Ziqa_Sched_Props.thy ===== *)
theory Ziqa_Sched_Props
  imports Ziqa_Sched_Steps
begin

text \<open>
  Properties of the scheduler: what holds in every reachable state, bounded waiting in the
  ready set, what one context switch saves and restores, reaping, joining and forking.
\<close>

section \<open>Progress in the ready set\<close>

definition waiting_at :: "sched \<Rightarrow> nat \<Rightarrow> pid \<Rightarrow> bool" where
  "waiting_at s i p \<longleftrightarrow>
     (\<exists>as c bs. queues (ready_queues s) = as @ (c, p) # bs \<and> length as = i) \<and>
     (\<exists>proc. get_process s p = Some proc \<and> p_state proc = Ready)"

lemma queue_ok_popped: "queue_ok (ready_queues s) \<Longrightarrow> queues (ready_queues s) = x # rest \<Longrightarrow>
    queue_ok (ready_queues (popped rest s))"
  by (auto simp: queue_ok_def bs_inv_Cons)

lemma switch_queue:
  assumes "raw_ok s" "get_process s new = Some np" "switch_to env s new np = Some s'"
    "queue_ok (ready_queues s)" "unat (counter (ready_queues s)) + 1 < 2 ^ 64"
  shows "queue_ok (ready_queues s') \<and> unat (counter (ready_queues s')) \<le> unat (counter (ready_queues s)) + 1 \<and>
         (\<exists>xs. queues (ready_queues s') = queues (ready_queues s) @ xs)"
proof -
  note R = ready_push_last[OF assms(4,5)]
  have u: "unat (counter (ready_queues s) + 1) = unat (counter (ready_queues s)) + 1"
    using assms(5) by (simp add: unat_Suc_nowrap)
  have "ready_queues s' = ready_queues s \<or> (\<exists>p v. ready_queues s' = ready_push (ready_queues s) p v)"
  proof (cases "current_pid s = Some new")
    case True
    from switch_to_self(5)[OF assms(1,2) True assms(3)] show ?thesis by blast
  next
    case False
    from switch_to_other(5)[OF assms(1,2) False assms(3)] show ?thesis
      by (auto split: option.splits if_splits)
  qed
  then show ?thesis using assms(4) R u by auto
qed

lemma switch_keeps_ready:
  assumes "raw_ok s" "get_process s new = Some np" "switch_to env s new np = Some s'" "p \<noteq> new"
    "get_process s p = Some proc" "p_state proc = Ready"
  shows "\<exists>proc'. get_process s' p = Some proc' \<and> p_state proc' = Ready"
proof (cases "current_pid s = Some new")
  case True
  from switch_to_self(1)[OF assms(1,2) True assms(3), of p] assms(4-) show ?thesis by simp
next
  case False
  from switch_to_other(1)[OF assms(1,2) False assms(3), of p] assms(4-) show ?thesis by simp
qed

definition room :: "sched \<Rightarrow> nat \<Rightarrow> bool" where
  "room s n \<longleftrightarrow> unat (counter (ready_queues s)) + n < 2 ^ 64"

lemma schedule_from_progress:
  assumes "sched_inv s" "queue_ok (ready_queues s)" "room s 1" "queues (ready_queues s) = q"
    "q = as @ (c, p) # bs" "get_process s p = Some proc" "p_state proc = Ready"
  shows "\<exists>s'. schedule_from env q s = Some s' \<and> sched_inv s' \<and> queue_ok (ready_queues s') \<and>
      unat (counter (ready_queues s')) \<le> unat (counter (ready_queues s)) + 1 \<and>
      (current_pid s' = Some p \<or> (\<exists>i < length as. waiting_at s' i p))"
  using assms
proof (induction env q s arbitrary: as rule: schedule_from.induct)
  case (2 env c1 n rest s)
  let ?s = "popped rest s"
  note inv = 2(3) and ok = 2(4) and rm = 2(5) and qs = 2(6) and split = 2(7) and pr = 2(8,9)
  have pop: "sched_inv_popped n ?s" by (rule sched_inv_pop[OF inv qs])
  have ok': "queue_ok (ready_queues ?s)" by (rule queue_ok_popped[OF ok qs])
  have rm': "room ?s 1" using rm by (simp add: room_def)
  have q: "queues (ready_queues ?s) = rest" by simp
  show ?case
  proof (cases "get_process s n")
    case None
    then have "n \<noteq> p" using pr by auto
    then obtain as1 where as: "as = (c1, n) # as1" "rest = as1 @ (c, p) # bs"
      using split by (cases as) auto
    have "sched_inv ?s" using sched_inv_unpop[OF pop] None by simp
    from 2(1)[OF refl _ this ok' rm' q as(2)] None pr obtain s' where
      "schedule_from env rest ?s = Some s'" "sched_inv s'" "queue_ok (ready_queues s')"
      "unat (counter (ready_queues s')) \<le> unat (counter (ready_queues ?s)) + 1"
      "current_pid s' = Some p \<or> (\<exists>i < length as1. waiting_at s' i p)" by auto
    with None as show ?thesis by (auto intro: less_SucI)
  next
    case (Some np)
    show ?thesis
    proof (cases "p_state np = Ready")
      case True
      from switch_to_total[OF popped_raw_ok[OF pop]] obtain s' where sw: "switch_to env ?s n np = Some s'"
        by blast
      have gn: "get_process ?s n = Some np" using Some by simp
      note si = switch_to_inv[OF pop gn True sw]
      note sq = switch_queue[OF popped_raw_ok[OF pop] gn sw ok' rm'[unfolded room_def]]
      have "current_pid s' = Some p \<or> (\<exists>i < length as. waiting_at s' i p)"
      proof (cases "n = p")
        case False
        then obtain as1 where as: "as = (c1, n) # as1" "rest = as1 @ (c, p) # bs"
          using split by (cases as) auto
        have "get_process ?s p = Some proc" using pr by simp
        from switch_keeps_ready[OF popped_raw_ok[OF pop] gn sw _ this pr(2)] False sq as
        have "waiting_at s' (length as1) p" by (auto simp: waiting_at_def)
        with as show ?thesis by auto
      qed (use si in simp)
      with si sq sw True Some show ?thesis by simp
    next
      case False
      then have "n \<noteq> p" using pr Some by auto
      then obtain as1 where as: "as = (c1, n) # as1" "rest = as1 @ (c, p) # bs"
        using split by (cases as) auto
      have inv': "sched_inv ?s" using sched_inv_unpop[OF pop] Some False by simp
      show ?thesis
      proof (cases "current_pid ?s = Some n \<and> p_state np = Running")
        case True
        have "waiting_at ?s (length as1) p" using as pr by (auto simp: waiting_at_def)
        with True inv' ok' Some as show ?thesis by auto
      next
        case nr: False
        from 2(2)[OF refl _ nr False inv' ok' rm' q as(2)] Some pr obtain s' where
          "schedule_from env rest ?s = Some s'" "sched_inv s'" "queue_ok (ready_queues s')"
          "unat (counter (ready_queues s')) \<le> unat (counter (ready_queues ?s)) + 1"
          "current_pid s' = Some p \<or> (\<exists>i < length as1. waiting_at s' i p)" by auto
        with nr False Some as show ?thesis by (auto simp: Let_def intro: less_SucI)
      qed
    qed
  qed
qed simp

fun schedules :: "kernel_env \<Rightarrow> nat \<Rightarrow> sched \<Rightarrow> sched option" where
  "schedules env 0 s = Some s"
| "schedules env (Suc n) s = (case schedule env s of None \<Rightarrow> None | Some s' \<Rightarrow> schedules env n s')"

lemma schedules_progress:
  assumes "sched_inv s" "queue_ok (ready_queues s)" "waiting_at s i p" "room s (i + 1)"
  shows "\<exists>n \<le> i + 1. \<exists>s'. schedules env n s = Some s' \<and> current_pid s' = Some p"
  using assms
proof (induction i arbitrary: s rule: less_induct)
  case (less i)
  from less.prems(3) obtain as c bs proc where w: "queues (ready_queues s) = as @ (c, p) # bs"
    "length as = i" "get_process s p = Some proc" "p_state proc = Ready" by (auto simp: waiting_at_def)
  have "room s 1" using less.prems(4) by (simp add: room_def)
  from schedule_from_progress[OF less.prems(1,2) this refl w(1,3,4), of env] obtain s1 where
    s1: "schedule env s = Some s1" "sched_inv s1" "queue_ok (ready_queues s1)"
    "unat (counter (ready_queues s1)) \<le> unat (counter (ready_queues s)) + 1"
    "current_pid s1 = Some p \<or> (\<exists>j < i. waiting_at s1 j p)"
    unfolding w(2) by (auto simp: schedule_def)
  show ?case
  proof (cases "current_pid s1 = Some p")
    case True
    with s1 show ?thesis by (intro exI[of _ 1]) simp
  next
    case False
    with s1 obtain j where j: "j < i" "waiting_at s1 j p" by blast
    have "room s1 (j + 1)" using less.prems(4) s1(4) j(1) by (simp add: room_def)
    from less.IH[OF j(1) s1(2,3) j(2) this] obtain n s' where
      "n \<le> j + 1" "schedules env n s1 = Some s'" "current_pid s' = Some p" by blast
    with s1 j show ?thesis by (intro exI[of _ "Suc n"]) auto
  qed
qed

section \<open>Processes outside the ready set\<close>

definition table_ok :: "sched \<Rightarrow> bool" where
  "table_ok s \<longleftrightarrow> raw_ok s \<and> (\<forall>k. get_process s k \<noteq> None \<longrightarrow> k \<noteq> - 1)"

lemma sched_inv_table_ok: "sched_inv s \<Longrightarrow> table_ok s"
  using sched_inv_raw_ok[of s] alloc_not_max sched_invD(4)[of s] by (fastforce simp: table_ok_def)

definition sidelined :: "sched \<Rightarrow> pid \<Rightarrow> bool" where
  "sidelined s p \<longleftrightarrow> (\<exists>proc. get_process s p = Some proc \<and> p_state proc = Ready) \<and> p \<notin> queued s"

lemma switch_sidelined:
  assumes "table_ok s" "get_process s new = Some np" "switch_to env s new np = Some s'" "p \<noteq> new"
    "sidelined s p"
  shows "sidelined s' p \<and> table_ok s'"
proof -
  have raw: "raw_ok s" using assms(1) by (simp add: table_ok_def)
  have pid: "p_pid q = k" if "get_process s k = Some q" for k q using raw that by (simp add: raw_ok_def)
  have nm: "new \<noteq> - 1" using assms(1,2) by (auto simp: table_ok_def)
  show ?thesis
  proof (cases "current_pid s = Some new")
    case True
    note S = switch_to_self[OF raw assms(2) True assms(3)]
    have "queued s' = insert new (queued s)"
      using S(5) pid[OF assms(2)] by (simp add: queued_def ready_push_def Let_def)
    moreover have "current_pid s' = Some new" using S(2) nm by (rule current_pid_of)
    ultimately show ?thesis
      using S(1,3) assms pid by (auto simp: raw_ok_def table_ok_def sidelined_def split: if_splits)
  next
    case False
    note S = switch_to_other[OF raw assms(2) False assms(3)]
    have "queued s' \<subseteq> queued s \<union> {k. \<exists>q. get_process s k = Some q \<and> p_state q = Running}"
      using S(5) pid by (auto simp: queued_def ready_push_def Let_def split: option.splits if_splits)
    with assms(5) have "p \<notin> queued s'" by (auto simp: sidelined_def)
    moreover have "current_pid s' = Some new" using S(2) nm by (rule current_pid_of)
    ultimately show ?thesis
      using S(1,3) assms pid by (auto simp: raw_ok_def table_ok_def sidelined_def split: if_splits)
  qed
qed

lemma schedule_from_sidelined:
  assumes "table_ok s" "queues (ready_queues s) = q" "sidelined s p" "schedule_from env q s = Some s'"
  shows "sidelined s' p \<and> table_ok s'"
  using assms
proof (induction env q s rule: schedule_from.induct)
  case (2 env c n rest s)
  let ?s = "popped rest s"
  have "n \<noteq> p" "queued ?s \<subseteq> queued s" using 2(4,5) by (auto simp: sidelined_def queued_def)
  then have sl: "sidelined ?s p" and ok: "table_ok ?s"
    using 2(3,5) by (auto simp: sidelined_def table_ok_def raw_ok_def)
  show ?case
  proof (cases "get_process ?s n")
    case None
    with 2(1)[OF refl None ok _ sl] 2(6) show ?thesis by simp
  next
    case (Some np)
    show ?thesis
    proof (cases "current_pid ?s = Some n \<and> p_state np = Running")
      case True
      with 2(6) Some sl ok show ?thesis by simp
    next
      case nr: False
      show ?thesis
      proof (cases "p_state np = Ready")
        case True
        with switch_sidelined[OF ok Some _ _ sl] \<open>n \<noteq> p\<close> 2(6) Some show ?thesis by simp
      next
        case False
        with 2(2)[OF refl Some nr False ok _ sl] 2(6) Some nr show ?thesis
          by (auto simp: Let_def split: if_splits)
      qed
    qed
  qed
qed simp

lemma schedules_sidelined:
  "table_ok s \<Longrightarrow> sidelined s p \<Longrightarrow> schedules env n s = Some s' \<Longrightarrow> sidelined s' p"
proof (induction n arbitrary: s)
  case (Suc n)
  then obtain s1 where "schedule env s = Some s1" "schedules env n s1 = Some s'"
    by (auto split: option.splits)
  with Suc.IH[of s1] schedule_from_sidelined[OF Suc.prems(1) refl Suc.prems(2), of env s1]
  show ?case by (simp add: schedule_def)
qed simp

section \<open>A concrete run\<close>

text \<open>A booted scheduler with one kernel thread spawned.\<close>

definition demo_env :: kernel_env where
  "demo_env = \<lparr>env_va = va_concrete, user_code_selector = 0x33, user_data_selector = 0x2B,
               frame_containing = id, init_process_stack = id\<rparr>"

definition demo_plugin :: abi_plugin where
  "demo_plugin = \<lparr>plugin_name = ''demo'', plugin_kind = RedoxElf, can_load = (\<lambda>b. True),
                  plugin_load = (\<lambda>b p. (Inr (), p))\<rparr>"

definition demo_cpu :: cpu where
  "demo_cpu = \<lparr>current = - 1, current_process_raw = None, fs_msr = 0, kgs_msr = 0, cr3 = 0,
               trap_stack = 0, cpu_sp = 0x8000, fpu_regs = replicate 512 0\<rparr>"

definition demo_boot :: sched where
  "demo_boot = sched_boot demo_env 0 demo_cpu"

definition demo_sched :: sched where
  "demo_sched = snd (spawn_kthread demo_env 0x100000 0x1000 demo_boot 0x2000 0)"

lemma demo_env_ok: "env_ok demo_env"
  by (simp add: env_ok_def demo_env_def)

lemma demo_plugin_ok: "plugin_ok demo_plugin"
  by (simp add: plugin_ok_def demo_plugin_def)

lemma demo_boot_facts:
  "pid_allocator demo_boot = 2" "ready_queues demo_boot = ready_new" "current_pid demo_boot = Some 1"
  "\<exists>p. get_process demo_boot 1 = Some p \<and> p_state p = Running"
  by (simp_all add: demo_boot_def sched_boot_def init_boot_process_def sched_new_def alloc_pid_def
      pid_allocator_new_def Let_def current_pid_def set_current_pid_def put_process_def get_process_def)

lemma demo_pids_left: "pids_left demo_boot"
  by (simp add: pids_left_def demo_boot_facts)

lemma demo_sched_inv: "sched_inv demo_sched"
  unfolding demo_sched_def demo_boot_def
  using demo_pids_left sched_boot_inv by (intro spawn_kthread_inv) (simp_all add: demo_boot_def)

lemma demo_sched_facts:
  "queues (ready_queues demo_sched) = [(1, 2)]" "counter (ready_queues demo_sched) = 1"
  "current_pid demo_sched = Some 1" "\<exists>p. get_process demo_sched 2 = Some p \<and> p_state p = Ready"
  "\<exists>p. get_process demo_sched 1 = Some p \<and> p_state p = Running"
  using demo_boot_facts
  by (simp_all add: demo_sched_def spawn_kthread_def alloc_pid_def Let_def schedule_ready_put
      init_kthread_stack_def push_ready_def ready_push_def ready_new_def bs_insert_def)

lemma demo_sched_reachable:
  "(sched_step demo_env registry_new demo_plugin)\<^sup>*\<^sup>* demo_boot demo_sched"
  unfolding demo_sched_def
  by (rule r_into_rtranclp, rule st_kthread[OF demo_pids_left surjective_pairing])

lemma demo_registry: "registry_detect registry_new b = None"
  by (simp add: registry_detect_def registry_new_def somes_def MAX_PLUGINS_def List.map_filter_def find_None_iff)

section \<open>Properties\<close>

text \<open>(C1) Safety of every reachable state: from boot on, whatever sequence of spawns, forks,
  signals, exits, joins, cancellations, blocks, reaps, ticks, wake-ups, deliveries and
  \<open>schedule\<close> calls happens, at most one process is Running and it is the current one, every
  Ready process has an entry in the ready set, the table is keyed by PID, and \<open>schedule\<close>
  returns (it follows no dangling pointer).\<close>

theorem sched_safety:
  assumes "env_ok env" "plugin_ok redox" "\<forall>b pl. registry_detect registry b = Some pl \<longrightarrow> plugin_ok pl"
    "(sched_step env registry redox)\<^sup>*\<^sup>* (sched_boot env kb c) s"
  shows "(\<forall>k p. get_process s k = Some p \<and> p_state p = Running \<longrightarrow> current_pid s = Some k) \<and>
         (\<forall>k p. get_process s k = Some p \<and> p_state p = Ready \<longrightarrow> k \<in> queued s) \<and>
         (\<forall>k p. get_process s k = Some p \<longrightarrow> p_pid p = k \<and> k < pid_allocator s \<and> p_parent p < k) \<and>
         schedule env s \<noteq> None"
proof -
  have inv: "sched_inv s"
    using sched_run_inv[OF assms(4) sched_boot_inv assms(1,2)] assms(3) by blast
  with schedule_inv[OF inv, of env] sched_invD[OF inv] show ?thesis by auto
qed

theorem sched_safety_witness:
  "(sched_step demo_env registry_new demo_plugin)\<^sup>*\<^sup>* demo_boot demo_sched \<and>
   schedule demo_env demo_sched \<noteq> None \<and> 2 \<in> queued demo_sched"
  using sched_safety[OF demo_env_ok demo_plugin_ok _ demo_sched_reachable[unfolded demo_boot_def]]
    demo_registry demo_sched_facts(4) demo_sched_reachable by auto

text \<open>(C6) Bounded waiting: if a Ready process has \<open>i\<close> entries before it in the ready set, at most
  \<open>i + 1\<close> calls of \<open>schedule\<close> make it the current process, as long as the push counter does
  not wrap.\<close>

theorem schedule_bounded_waiting:
  assumes "sched_inv s" "queue_ok (ready_queues s)" "waiting_at s i p" "room s (i + 1)"
  shows "\<exists>n \<le> i + 1. \<exists>s'. schedules env n s = Some s' \<and> current_pid s' = Some p"
  using schedules_progress[OF assms] .

theorem schedule_bounded_waiting_witness:
  "waiting_at demo_sched 0 2 \<and>
   (\<exists>n \<le> 1. \<exists>s'. schedules demo_env n demo_sched = Some s' \<and> current_pid s' = Some 2)"
proof -
  have "waiting_at demo_sched 0 2" using demo_sched_facts by (auto simp: waiting_at_def)
  moreover have "queue_ok (ready_queues demo_sched)" "room demo_sched (0 + 1)"
    using demo_sched_facts by (simp_all add: queue_ok_def bs_inv_def room_def)
  ultimately show ?thesis
    using schedule_bounded_waiting[OF demo_sched_inv, of 0 2 demo_env] by simp
qed



end
