(* ===== verification/Ziqa_Revocation.thy ===== *)
theory Ziqa_Revocation
  imports Ziqa_Sched_Props
begin

text \<open>
  \<open>CapabilitySpace::revoke_global\<close> of \<open>src/src/capability/mod.rs\<close>: it collects the
  descendants of a token from the revocation tree, removes them from the capability space of
  every process of the scheduler's table, and drops their nodes.  \<open>None\<close> is a descendant
  search that does not end.
\<close>

section \<open>System-wide revocation\<close>

definition revoke_in :: "u64 list \<Rightarrow> sched \<Rightarrow> pid \<Rightarrow> sched" where
  "revoke_in ids s p =
     snd (with_process_mut s p (\<lambda>proc.
       ((), proc\<lparr>p_capabilities := foldl (\<lambda>caps i. snd (revoke_local caps i)) (p_capabilities proc) ids\<rparr>)))"

definition revoke_global :: "cap_global \<Rightarrow> sched \<Rightarrow> u64 \<Rightarrow> (cap_global \<times> sched) option" where
  "revoke_global g s i =
     (case get_all_descendants (revocation_tree g) i [] of
        None \<Rightarrow> None
      | Some descendants \<Rightarrow>
          let ids = descendants @ [i];
              s = foldl (revoke_in ids) s (list_pids s);
              t = foldl remove_node (revocation_tree g) ids
          in Some (g\<lparr>revocation_tree := t\<rparr>, s))"

section \<open>Every process loses every descendant\<close>

definition caps_inv :: "cap_global \<Rightarrow> sched \<Rightarrow> bool" where
  "caps_inv g s \<longleftrightarrow> tree_inv g \<and>
     (\<forall>k p. get_process s k = Some p \<longrightarrow> space_inv g (p_capabilities p))"

lemma get_revoke_in:
  "get_process (revoke_in ids s p) k =
     (if k = p then map_option (\<lambda>proc. proc\<lparr>p_capabilities :=
          foldl (\<lambda>caps i. snd (revoke_local caps i)) (p_capabilities proc) ids\<rparr>) (get_process s p)
      else get_process s k)"
  by (simp add: revoke_in_def with_process_mut_def split: option.split)

lemma get_revoke_all:
  "distinct ps \<Longrightarrow> get_process (foldl (revoke_in ids) s ps) k =
     (if k \<in> set ps then map_option (\<lambda>proc. proc\<lparr>p_capabilities :=
          foldl (\<lambda>caps i. snd (revoke_local caps i)) (p_capabilities proc) ids\<rparr>) (get_process s k)
      else get_process s k)"
  by (induction ps arbitrary: s) (auto simp: get_revoke_in)

lemma list_pids_distinct: "bt_inv (tasks s) \<Longrightarrow> distinct (list_pids s)"
  using bt_inv_distinct by (simp add: list_pids_def bt_keys_def)

lemma list_pids_get: "k \<in> set (list_pids s) \<longleftrightarrow> get_process s k \<noteq> None"
  by (simp add: list_pids_def bt_keys_get get_process_def)

lemma remove_nodes_kids:
  "bt_inv t \<Longrightarrow> tree_kids (foldl remove_node t ids) k = (if k \<in> set ids then [] else tree_kids t k)"
proof (induction ids arbitrary: t)
  case (Cons i ids)
  have "bt_inv (remove_node t i)" using Cons.prems by (simp add: remove_node_def)
  from Cons.IH[OF this] Cons.prems show ?case by (simp add: tree_kids_remove_node)
qed simp

lemma remove_nodes_inv: "bt_inv t \<Longrightarrow> bt_inv (foldl remove_node t ids)"
  by (induction ids arbitrary: t) (simp_all add: remove_node_def)

definition descendants :: "cap_global \<Rightarrow> u64 \<Rightarrow> u64 set" where
  "descendants g i = insert i {d. (child (revocation_tree g))\<^sup>+\<^sup>+ i d}"

lemma revoke_global_result:
  assumes "caps_inv g s" "bt_inv (tasks s)"
  obtains g' s' where "revoke_global g s i = Some (g', s')" "next_id g' = next_id g"
    "\<And>k. get_process s' k = map_option (\<lambda>p. p\<lparr>p_capabilities :=
        filter (\<lambda>cap. cap_id cap \<notin> descendants g i) (p_capabilities p)\<rparr>) (get_process s k)"
    "\<And>k. tree_kids (revocation_tree g') k =
        (if k \<in> descendants g i then [] else tree_kids (revocation_tree g) k)"
    "bt_inv (revocation_tree g')"
proof -
  have t: "tree_inv g" "bt_inv (revocation_tree g)" using assms(1) by (simp_all add: caps_inv_def tree_inv_def)
  from get_all_descendants_total[OF t(1), of i "[]"] obtain ds where
    ds: "get_all_descendants (revocation_tree g) i [] = Some ds"
      "set ds = {d. (child (revocation_tree g))\<^sup>+\<^sup>+ i d}" by auto
  have set: "set (ds @ [i]) = descendants g i" using ds(2) by (auto simp: descendants_def)
  have caps: "foldl (\<lambda>caps i. snd (revoke_local caps i)) (p_capabilities p) (ds @ [i]) =
      filter (\<lambda>cap. cap_id cap \<notin> descendants g i) (p_capabilities p)"
    if "get_process s k = Some p" for k p
    unfolding set[symmetric]
    using assms(1) that by (intro revoke_all_filter) (simp add: caps_inv_def space_inv_def)
  let ?g = "g\<lparr>revocation_tree := foldl remove_node (revocation_tree g) (ds @ [i])\<rparr>"
  let ?s = "foldl (revoke_in (ds @ [i])) s (list_pids s)"
  show thesis
  proof (rule that[of ?g ?s])
    show "revoke_global g s i = Some (?g, ?s)" using ds(1) by (simp add: revoke_global_def Let_def)
    show "get_process ?s k = map_option (\<lambda>p. p\<lparr>p_capabilities :=
        filter (\<lambda>cap. cap_id cap \<notin> descendants g i) (p_capabilities p)\<rparr>) (get_process s k)" for k
      using get_revoke_all[OF list_pids_distinct[OF assms(2)], of "ds @ [i]" s k] list_pids_get[of k s] caps[of k]
      by (cases "get_process s k") auto
    show "tree_kids (revocation_tree ?g) k =
        (if k \<in> descendants g i then [] else tree_kids (revocation_tree g) k)" for k
      using remove_nodes_kids[OF t(2), of "ds @ [i]" k] set by auto
    show "bt_inv (revocation_tree ?g)" using remove_nodes_inv[OF t(2), of "ds @ [i]"] by simp
  qed simp
qed

lemma visit_self_loop:
  assumes "visit_kids t kids out = Some r" "i \<in> set (tree_kids t i)"
  shows "i \<notin> set kids"
proof -
  have "i \<in> set (tree_kids t i) \<longrightarrow> i \<notin> set kids"
  proof (rule visit_kids.raw_induct[OF _ assms(1), where P = "\<lambda>t kids out r. i \<in> set (tree_kids t i) \<longrightarrow> i \<notin> set kids"])
    fix visit t kids out y
    assume IH: "\<And>t kids out y. visit t kids out = Some y \<Longrightarrow> i \<in> set (tree_kids t i) \<longrightarrow> i \<notin> set kids"
      and eq: "(case kids of [] \<Rightarrow> Some out
        | kid # ks \<Rightarrow> Option.bind (visit t (tree_kids t kid) (out @ [kid])) (\<lambda>out'. visit t ks out')) = Some y"
    show "i \<in> set (tree_kids t i) \<longrightarrow> i \<notin> set kids"
    proof (cases kids)
      case (Cons k ks)
      with eq obtain o' where "visit t (tree_kids t k) (out @ [k]) = Some o'" "visit t ks o' = Some y"
        by (auto simp: bind_eq_Some_conv)
      from IH[OF this(1)] IH[OF this(2)] Cons show ?thesis by auto
    qed simp
  qed
  with assms(2) show ?thesis by simp
qed

section \<open>Properties\<close>

text \<open>(C3) Revocation is complete and precise: in a system whose tokens have distinct identifiers
  and whose revocation tree goes from older to newer tokens, \<open>revoke_global\<close> returns; no
  process keeps a token that is the revoked one or descends from it, every process keeps all
  its other tokens in order, and the invariant is kept.\<close>

theorem revoke_global_complete:
  assumes "caps_inv g s" "bt_inv (tasks s)"
  shows "\<exists>g' s'. revoke_global g s i = Some (g', s') \<and> caps_inv g' s' \<and>
           (\<forall>k. get_process s' k = map_option (\<lambda>p. p\<lparr>p_capabilities :=
              filter (\<lambda>cap. cap_id cap \<notin> descendants g i) (p_capabilities p)\<rparr>) (get_process s k))"
proof -
  from assms obtain g' s' where r: "revoke_global g s i = Some (g', s')" "next_id g' = next_id g"
    "\<And>k. get_process s' k = map_option (\<lambda>p. p\<lparr>p_capabilities :=
        filter (\<lambda>cap. cap_id cap \<notin> descendants g i) (p_capabilities p)\<rparr>) (get_process s k)"
    "\<And>k. tree_kids (revocation_tree g') k =
        (if k \<in> descendants g i then [] else tree_kids (revocation_tree g) k)"
    "bt_inv (revocation_tree g')" by (rule revoke_global_result) blast
  have "tree_inv g'" using assms(1) r(2,4,5) by (simp add: caps_inv_def tree_inv_def)
  moreover have "space_inv g' (p_capabilities p')" if "get_process s' k = Some p'" for k p'
  proof -
    from that r(3)[of k] obtain p where "get_process s k = Some p"
      "p_capabilities p' = filter (\<lambda>cap. cap_id cap \<notin> descendants g i) (p_capabilities p)" by auto
    with assms(1) r(2) show ?thesis
      by (auto simp: caps_inv_def space_inv_def distinct_map_filter_id)
  qed
  ultimately have "caps_inv g' s'" by (simp add: caps_inv_def)
  with r(1,3) show ?thesis by blast
qed

text \<open>Tokens are never forged or shared by accident: granting in a process of a well-formed
  system appends exactly one token with an identifier no process holds, and the grant keeps
  the system well formed when a parent, if given, is an identifier already handed out.\<close>

theorem grant_fresh:
  assumes "caps_inv g s" "ids_left g" "get_process s k = Some p" "\<forall>q. parent = Some q \<longrightarrow> q < next_id g"
    "grant g (p_capabilities p) r perms t parent = (i, g', caps')"
  shows "i = Some (next_id g) \<and> caps' = p_capabilities p @ [token_new (next_id g) parent r perms t] \<and>
         (\<forall>k' p'. get_process s k' = Some p' \<longrightarrow> next_id g \<notin> cap_id ` set (p_capabilities p')) \<and>
         caps_inv g' (put_process s k (p\<lparr>p_capabilities := caps'\<rparr>))"
proof -
  have sp: "space_inv g (p_capabilities p')" if "get_process s k' = Some p'" for k' p'
    using assms(1) that by (auto simp: caps_inv_def)
  note G = grant_inv[OF sp[OF assms(3)] assms(2,5)]
  have "next_id g \<le> next_id g'" using G(3) next_id_less[OF assms(2)] by simp
  then have "space_inv g' (p_capabilities p')" if "get_process s k' = Some p'" for k' p'
    using space_inv_mono[OF sp[OF that]] by simp
  moreover have "tree_inv g'" using grant_tree_inv[OF _ assms(2,4,5)] assms(1) by (simp add: caps_inv_def)
  ultimately have "caps_inv g' (put_process s k (p\<lparr>p_capabilities := caps'\<rparr>))"
    using G(1) by (auto simp: caps_inv_def split: if_splits)
  moreover have "\<forall>k' p'. get_process s k' = Some p' \<longrightarrow> next_id g \<notin> cap_id ` set (p_capabilities p')"
    using sp by (fastforce simp: space_inv_def)
  ultimately show ?thesis using G(2,4) by blast
qed

definition demo_caps :: "cap_global \<times> capability_space" where
  "demo_caps =
     (let (a, g, caps) = grant cap_global_init [] IpcChannel full_perm 1 None
      in snd (grant g caps IpcChannel read_only 1 a))"

definition demo_cap_sched :: sched where
  "demo_cap_sched = modify_process demo_boot 1 (\<lambda>p. p\<lparr>p_capabilities := snd demo_caps\<rparr>)"

lemma demo_caps_eval:
  "next_id (fst demo_caps) = 3" "revocation_tree (fst demo_caps) = [(1, [2])]"
  "map cap_id (snd demo_caps) = [1, 2]"
  by (simp_all add: demo_caps_def grant_def alloc_id_def Let_def cap_global_init_def add_child_def
      tree_kids_def token_new_def)

lemma demo_caps_inv: "caps_inv (fst demo_caps) demo_cap_sched"
proof -
  have "bt_inv (tasks demo_boot)" "get_process demo_boot k = Some p \<Longrightarrow> k = 1" for k p
    by (auto simp: demo_boot_def sched_boot_def init_boot_process_def sched_new_def alloc_pid_def
        pid_allocator_new_def Let_def put_process_def get_process_def set_current_pid_def split: if_splits)
  moreover have "space_inv (fst demo_caps) (snd demo_caps)"
    using demo_caps_eval(3) by (auto simp: space_inv_def demo_caps_eval(1) map_eq_Cons_conv)
  moreover have "tree_inv (fst demo_caps)"
    by (auto simp: tree_inv_def demo_caps_eval tree_kids_def)
  ultimately show ?thesis by (auto simp: caps_inv_def demo_cap_sched_def split: if_splits)
qed

lemma demo_cap_tasks: "bt_inv (tasks demo_cap_sched)"
  using sched_invD(1)[OF sched_boot_inv, of demo_env 0 demo_cpu]
  by (simp add: demo_cap_sched_def demo_boot_def)

theorem revoke_global_complete_witness:
  "\<exists>g' s' p'. revoke_global (fst demo_caps) demo_cap_sched 1 = Some (g', s') \<and>
     get_process s' 1 = Some p' \<and> (\<forall>cap \<in> set (p_capabilities p'). cap_id cap \<noteq> 1)"
proof -
  obtain p where p: "get_process demo_cap_sched 1 = Some p"
    using demo_boot_facts(4) by (auto simp: demo_cap_sched_def)
  from revoke_global_complete[OF demo_caps_inv demo_cap_tasks, of 1] obtain g' s' where
    r: "revoke_global (fst demo_caps) demo_cap_sched 1 = Some (g', s')"
    "\<forall>k. get_process s' k = map_option (\<lambda>p. p\<lparr>p_capabilities :=
        filter (\<lambda>cap. cap_id cap \<notin> descendants (fst demo_caps) 1) (p_capabilities p)\<rparr>)
        (get_process demo_cap_sched k)" by blast
  with p show ?thesis by (auto simp: descendants_def)
qed

theorem grant_fresh_witness:
  "\<exists>g' caps'. grant (fst demo_caps) (snd demo_caps) File read_write 3 (Some 2) = (Some 3, g', caps') \<and>
     map cap_id caps' = [1, 2, 3]"
proof -
  obtain p where p: "get_process demo_cap_sched 1 = Some p" "p_capabilities p = snd demo_caps"
    using demo_boot_facts(4) by (auto simp: demo_cap_sched_def)
  obtain i g' caps' where g: "grant (fst demo_caps) (p_capabilities p) File read_write 3 (Some 2) = (i, g', caps')"
    by (metis prod_cases3)
  have "ids_left (fst demo_caps)" by (simp add: ids_left_def demo_caps_eval)
  from grant_fresh[OF demo_caps_inv this p(1) _ g] g p show ?thesis
    by (auto simp: demo_caps_eval token_new_def)
qed

text \<open>(C37) A token granted under its own identifier makes every later revocation of it run forever:
  when \<open>grant\<close> is given the identifier about to be allocated as parent, which it does not
  check, the descendant search from that token does not end.\<close>

theorem grant_own_id_revocation_diverges:
  assumes "grant g caps r perms t (Some (next_id g)) = (i, g', caps')"
  shows "revoke_global g' s (next_id g) = None"
proof -
  let ?t = "revocation_tree g'"
  have kids: "tree_kids ?t (next_id g) = tree_kids (revocation_tree g) (next_id g) @ [next_id g]"
    using assms by (auto simp: grant_def alloc_id_def Let_def tree_kids_add_child)
  then have "visit_kids ?t (tree_kids ?t (next_id g)) [] = None"
    using visit_self_loop[of ?t "tree_kids ?t (next_id g)" "[]" _ "next_id g"]
    by (cases "visit_kids ?t (tree_kids ?t (next_id g)) []") auto
  then show ?thesis by (simp add: revoke_global_def get_all_descendants_def)
qed

theorem grant_own_id_revocation_diverges_witness:
  "\<exists>g'. grant cap_global_init [] Memory read_only 0 (Some 1) = (Some 1, g', [token_new 1 (Some 1) Memory read_only 0]) \<and>
        revoke_global g' demo_boot 1 = None"
proof -
  have n: "next_id cap_global_init = 1" by (simp add: cap_global_init_def)
  obtain g' where g: "grant cap_global_init [] Memory read_only 0 (Some 1) =
      (Some 1, g', [token_new 1 (Some 1) Memory read_only 0])"
    by (simp add: grant_def alloc_id_def n Let_def)
  from grant_own_id_revocation_diverges[of cap_global_init, unfolded n, OF g] g show ?thesis by blast
qed

end
