(* ===== verification/Ziqa_Sched_Life.thy ===== *)
theory Ziqa_Sched_Life
  imports Ziqa_Sched_Props
begin

text \<open>
  Properties of the life cycle of processes: fork, exit and join, reaping, exec, and a switch
  to the process that is already current.
\<close>

section \<open>Waking the joiners\<close>

lemma schedule_ready_get:
  "get_process (schedule_ready s w) k =
     (if k = w then map_option set_state_ready (get_process s w) else get_process s k)"
  by (simp add: schedule_ready_def split: option.split)

lemma schedule_ready_queued: "queued s \<subseteq> queued (schedule_ready s w)"
  by (auto simp: schedule_ready_def split: option.split)

lemma wake_waiters_other: "k \<notin> set ws \<Longrightarrow> get_process (foldl schedule_ready s ws) k = get_process s k"
  by (induction ws arbitrary: s) (simp_all add: schedule_ready_get)

lemma wake_waiters_current [simp]: "current_pid (foldl schedule_ready s ws) = current_pid s"
  by (induction ws arbitrary: s) simp_all

lemma wake_waiters_ready:
  assumes "sched_inv s" "w \<in> set ws" "get_process s w \<noteq> None"
  shows "(\<exists>q. get_process (foldl schedule_ready s ws) w = Some q \<and> p_state q = Ready) \<and>
         w \<in> queued (foldl schedule_ready s ws)"
proof -
  have keep: "\<exists>q. get_process t w = Some q \<and> p_state q = Ready \<Longrightarrow>
      \<exists>q. get_process (foldl schedule_ready t xs) w = Some q \<and> p_state q = Ready" for t xs
  proof (induction xs arbitrary: t)
    case (Cons a xs)
    from Cons.IH[of "schedule_ready t a"] Cons.prems show ?case
      by (cases "w = a") (auto simp: schedule_ready_get)
  qed simp
  have "\<exists>q. get_process (foldl schedule_ready s ws) w = Some q \<and> p_state q = Ready"
    using assms
  proof (induction ws arbitrary: s)
    case (Cons x xs)
    show ?case
    proof (cases "x = w")
      case True
      with Cons.prems keep[of "schedule_ready s x" xs] show ?thesis
        by (auto simp: schedule_ready_get)
    next
      case False
      with Cons.prems show ?thesis
        using Cons.IH[of "schedule_ready s x"] by (auto simp: schedule_ready_get schedule_ready_inv)
    qed
  qed simp
  with sched_invD(9)[OF foldl_wake_inv[OF assms(1)]] show ?thesis by blast
qed

lemma send_sigchld_get:
  "get_process (snd (send_signal s t SIGCHLD)) k =
     (if k = t then map_option (\<lambda>p. p\<lparr>p_signals := snd (signal_send (p_signals p) SIGCHLD)\<rparr>) (get_process s t)
      else get_process s k)"
  by (simp add: send_signal_def Let_def sig_defs split: option.split)

lemma send_signal_current [simp]: "current_pid (snd (send_signal s t n)) = current_pid s"
  by (simp add: send_signal_def Let_def split: option.split)

section \<open>Properties\<close>


definition demo_joined :: sched where
  "demo_joined = modify_process demo_sched 2 (\<lambda>p. p\<lparr>p_join_waiters := [1]\<rparr>)"

lemma demo_joined_inv: "sched_inv demo_joined"
  using demo_sched_facts(4) sched_inv_update[OF demo_sched_inv, of 2]
  by (auto simp: demo_joined_def modify_put)


text \<open>(C34) Reaping: \<open>waitpid\<close> removes exactly one process from the table, and only an exited child
  of the caller that matches the request, answering its PID and exit code; when it answers
  nothing the table is unchanged and no matching child has exited.\<close>

theorem waitpid_reaps_exited_child:
  assumes "sched_inv s"
  shows "case waitpid s parent c of
           (None, s') \<Rightarrow> s' = s \<and> (\<forall>k p code. get_process s k = Some p \<longrightarrow> p_parent p = parent \<longrightarrow>
                            (c = - 1 \<or> k = of_int c) \<longrightarrow> p_state p \<noteq> Exited code)
         | (Some (k, code), s') \<Rightarrow>
             (\<exists>p. get_process s k = Some p \<and> p_state p = Exited code \<and> p_parent p = parent \<and>
                  (c = - 1 \<or> k = of_int c)) \<and>
             (\<forall>j. get_process s' j = (if j = k then None else get_process s j))"
proof (cases "waitpid_scan parent c (tasks s)")
  case None
  have "waitpid_scan parent c m = None \<Longrightarrow> (k, p) \<in> set m \<Longrightarrow> waitpid_matches parent c p \<Longrightarrow>
      p_state p \<noteq> Exited code" for m k p code
    by (induction parent c m rule: waitpid_scan.induct) (auto split: process_state.splits if_splits)
  from this[OF None] have "get_process s k = Some p \<Longrightarrow> waitpid_matches parent c p \<Longrightarrow>
      p_state p \<noteq> Exited code" for k p code
    by (auto simp: get_process_def dest: map_of_SomeD)
  with None sched_invD(2)[OF assms] show ?thesis by (simp add: waitpid_def waitpid_matches_def)
next
  case (Some a)
  obtain k code where a: "a = (k, code)" by fastforce
  from Some[unfolded a] obtain k' p where p: "(k', p) \<in> set (tasks s)" "p_pid p = k"
    "p_state p = Exited code" "waitpid_matches parent c p" by (rule waitpid_scan_Some)
  then have g: "get_process s k' = Some p"
    using bt_inv_distinct[OF sched_invD(1)[OF assms]] by (simp add: get_process_def)
  with p sched_invD(2)[OF assms] have "k' = k" by blast
  with g p Some a sched_invD(1)[OF assms] show ?thesis
    by (auto simp: waitpid_def waitpid_matches_def get_process_def split: if_splits)
qed

definition demo_zombie :: sched where
  "demo_zombie = modify_process demo_sched 2 (\<lambda>p. p\<lparr>p_parent := 1, p_state := Exited 5\<rparr>)"

lemma demo_zombie_inv: "sched_inv demo_zombie"
proof -
  obtain q where q: "get_process demo_sched 2 = Some q" using demo_sched_facts(4) by auto
  note D = sched_invD(2-5)[OF demo_sched_inv q]
  from D q show ?thesis
    unfolding demo_zombie_def modify_put by (auto intro!: sched_inv_put[OF demo_sched_inv])
qed

lemma demo_zombie_alloc: "pid_allocator demo_zombie = 3"
  by (simp add: demo_zombie_def demo_sched_def spawn_kthread_def alloc_pid_def Let_def demo_boot_facts(1))

theorem waitpid_reaps_exited_child_witness:
  "\<exists>s' code. waitpid demo_zombie 1 (- 1) = (Some (2, code), s') \<and> get_process s' 2 = None"
proof -
  obtain q where q: "get_process demo_sched 2 = Some q" using demo_sched_facts(4) by auto
  obtain p where p: "get_process demo_zombie 2 = Some p" "p_parent p = 1" "p_state p = Exited 5"
    using q by (simp add: demo_zombie_def)
  have two: "k = 2" if "1 < k" "k < 3" for k :: u64
    using that by (simp add: word_less_nat_alt word_unat_eq_iff)
  have one: "get_process demo_zombie j = Some x \<Longrightarrow> p_parent x = 1 \<Longrightarrow> j = 2" for j x
    using sched_invD(4,5)[OF demo_zombie_inv, of j x] two[of j] demo_zombie_alloc by auto
  obtain r s' where w: "waitpid demo_zombie 1 (- 1) = (r, s')" by fastforce
  note W = waitpid_reaps_exited_child[OF demo_zombie_inv, of 1 "- 1", unfolded w prod.case]
  show ?thesis
  proof (cases r)
    case None
    with W p show ?thesis by simp
  next
    case (Some a)
    obtain k code where a: "a = (k, code)" by fastforce
    from W[unfolded Some a] one have "k = 2" by auto
    with W[unfolded Some a] w Some a show ?thesis by simp
  qed
qed



text \<open>A running process that replaces its image is never scheduled again: after a successful
  \<open>exec_process\<close> of the current process it is marked Ready without an entry in the ready set,
  and no number of \<open>schedule\<close> calls gives it one.\<close>

theorem exec_process_sidelines_caller:
  assumes "sched_inv s" "env_ok env" "registry_detect registry b = Some pl" "plugin_ok pl"
    "get_process s p = Some proc" "p \<notin> queued s" "exec_process env registry pt s p b = (Inr (), s1)"
    "schedules env n s1 = Some s2"
  shows "(\<exists>proc'. get_process s2 p = Some proc' \<and> p_state proc' = Ready) \<and> p \<notin> queued s2"
proof -
  from assms(3,5,7) obtain q where s1: "s1 = put_process s p q" and q: "p_state q = Ready" "p_pid q = p_pid proc"
    using assms(2,4)
    by (auto simp: exec_process_def Let_def env_ok_def split: sum.splits prod.splits dest!: plugin_okD[OF assms(4)])
  have "p_pid q = p" using q(2) sched_invD(2)[OF assms(1,5)] by simp
  then have "table_ok s1"
    using sched_inv_table_ok[OF assms(1)] assms(5) by (auto simp: s1 table_ok_def raw_ok_def split: if_splits)
  moreover have "sidelined s1 p" using q assms(6) by (simp add: s1 sidelined_def)
  ultimately have "sidelined s2 p" by (rule schedules_sidelined[OF _ _ assms(8)])
  then show ?thesis by (simp add: sidelined_def)
qed

definition demo_registry_one :: abi_registry where
  "demo_registry_one = snd (registry_register registry_new demo_plugin)"

lemma demo_detect: "registry_detect demo_registry_one b = Some demo_plugin"
  by (simp add: demo_registry_one_def registry_register_def registry_detect_def registry_new_def
      somes_def MAX_PLUGINS_def numeral_eq_Suc List.map_filter_def demo_plugin_def)

theorem exec_process_sidelines_caller_witness:
  "\<exists>s1 proc'. exec_process demo_env demo_registry_one None demo_boot 1 [1] = (Inr (), s1) \<and>
     get_process s1 1 = Some proc' \<and> p_state proc' = Ready \<and> 1 \<notin> queued s1"
proof -
  obtain p where p: "get_process demo_boot 1 = Some p" using demo_boot_facts(4) by auto
  have nq: "1 \<notin> queued demo_boot" using demo_boot_facts(2) by (simp add: queued_def ready_new_def)
  let ?r = "exec_process demo_env demo_registry_one None demo_boot 1 [1]"
  have ok: "fst ?r = Inr ()"
    using p by (simp add: exec_process_def demo_detect Let_def) (simp add: demo_plugin_def Let_def)
  have inv: "sched_inv demo_boot" unfolding demo_boot_def by (rule sched_boot_inv)
  from ok have e: "?r = (Inr (), snd ?r)" by (metis prod.collapse)
  from exec_process_sidelines_caller[OF inv demo_env_ok demo_detect demo_plugin_ok p nq e, of 0 "snd ?r"] e
  show ?thesis by auto
qed

text \<open>A process that is current and Ready when \<open>schedule\<close> pops its own entry (it blocked while
  the ready set was empty and was woken before anyone else ran) is switched to itself: it goes
  on running while marked Ready and requeued, and the processor takes the stack pointer that
  was saved when it last lost the processor instead of the present one.\<close>

theorem schedule_self_switch:
  assumes "sched_inv s" "queues (ready_queues s) = (c, n) # rest" "current_pid s = Some n"
    "get_process s n = Some p" "p_state p = Ready"
  shows "\<exists>s' p'. schedule env s = Some s' \<and> current_pid s' = Some n \<and> get_process s' n = Some p' \<and>
           p_state p' = Ready \<and> n \<in> queued s' \<and> cpu_sp (the_cpu s') = p_kernel_stack_ptr p + 56"
proof -
  let ?s = "popped rest s"
  have pop: "sched_inv_popped n ?s" by (rule sched_inv_pop[OF assms(1,2)])
  from switch_to_total[OF popped_raw_ok[OF pop]] obtain s' where sw: "switch_to env ?s n p = Some s'" by blast
  have gn: "get_process ?s n = Some p" "current_pid ?s = Some n" using assms by simp_all
  note S = switch_to_self[OF popped_raw_ok[OF pop] gn sw]
  have "schedule env s = Some s'" using sw gn assms(5) assms(2) by (simp add: schedule_def)
  moreover have "n \<in> queued s'"
    using S(5) sched_invD(2)[OF assms(1,4)] by (simp add: queued_def ready_push_def Let_def)
  ultimately show ?thesis
    using switch_to_inv[OF pop gn(1) assms(5) sw] S(1)[of n] S(7) by auto
qed

definition demo_woken :: sched where
  "demo_woken = schedule_ready (modify_process demo_boot 1 (\<lambda>p. p\<lparr>p_state := Blocked\<rparr>)) 1"

theorem schedule_self_switch_witness:
  "\<exists>s' p'. schedule demo_env demo_woken = Some s' \<and> current_pid s' = Some 1 \<and>
     get_process s' 1 = Some p' \<and> p_state p' = Ready"
proof -
  obtain p where p: "get_process demo_boot 1 = Some p" using demo_boot_facts(4) by auto
  have inv0: "sched_inv demo_boot" unfolding demo_boot_def by (rule sched_boot_inv)
  have inv: "sched_inv demo_woken"
    unfolding demo_woken_def modify_put
    using p sched_inv_update[OF inv0 p, of "p\<lparr>p_state := Blocked\<rparr>"] by (simp add: schedule_ready_inv)
  have pid: "p_pid p = 1" using sched_invD(2)[OF inv0 p] .
  have q: "queues (ready_queues demo_woken) = [(1, 1)]" "current_pid demo_woken = Some 1"
    using p pid demo_boot_facts(2,3)
    by (simp_all add: demo_woken_def schedule_ready_def push_ready_def ready_push_def ready_new_def
        bs_insert_def Let_def)
  obtain w where w: "get_process demo_woken 1 = Some w" "p_state w = Ready"
    using p by (simp add: demo_woken_def schedule_ready_get)
  from schedule_self_switch[OF inv q w, of demo_env] show ?thesis by auto
qed

end
