(* ===== verification/Ziqa_Bpf_Map.thy ===== *)
theory Ziqa_Bpf_Map
  imports Ziqa_Prelude
begin

text \<open>
  \<open>src/src/ebpf/map.rs\<close>: array, program-array and hash maps over one flat byte buffer, and
  the map registry.  Kernel memory is a function from addresses to bytes; keys and values are
  read through it.  An operation answers \<open>None\<close> where the code panics on a slice index or
  touches memory outside the buffer through a raw pointer.  \<open>hash_abs\<close> is the partial map a
  hash map stands for.
\<close>

section \<open>Memory and errors\<close>

type_synonym kmem = "u64 \<Rightarrow> u8"

definition read_mem :: "kmem \<Rightarrow> u64 \<Rightarrow> nat \<Rightarrow> bytes" where
  "read_mem mem addr n = map (\<lambda>i. mem (addr + of_nat i)) [0..<n]"

definition write_mem :: "kmem \<Rightarrow> u64 \<Rightarrow> bytes \<Rightarrow> kmem" where
  "write_mem mem addr bs = (\<lambda>a. if unat (a - addr) < length bs then bs ! unat (a - addr) else mem a)"

lemma length_read_mem [simp]: "length (read_mem mem addr n) = n"
  by (simp add: read_mem_def)

datatype bpf_error = VerificationFailed string | ExecutionError | BpfOutOfBounds | TailCall u64

section \<open>Maps\<close>

datatype bpf_map_type = Array | Hash | RingBuf | ProgArray

record bpf_map =
  map_type :: bpf_map_type
  key_size :: u32
  value_size :: u32
  max_entries :: u32
  data_ptr :: u64
  data :: bytes

text \<open>\<open>ptr\<close> is the address at which the allocator places the buffer.\<close>

definition map_new :: "u64 \<Rightarrow> bpf_map_type \<Rightarrow> u32 \<Rightarrow> u32 \<Rightarrow> u32 \<Rightarrow> bpf_map" where
  "map_new ptr ty ks vs n =
     (let total_size =
            (case ty of
               Array \<Rightarrow> (case checked_mul vs n of Some t \<Rightarrow> unat t | None \<Rightarrow> 0)
             | ProgArray \<Rightarrow> (case checked_mul vs n of Some t \<Rightarrow> unat t | None \<Rightarrow> 0)
             | Hash \<Rightarrow> (case checked_mul (saturating_add (saturating_add 1 ks) vs) n of
                         Some t \<Rightarrow> unat t | None \<Rightarrow> 0)
             | RingBuf \<Rightarrow> unat n)
      in \<lparr>map_type = ty, key_size = ks, value_size = vs, max_entries = n, data_ptr = ptr,
          data = replicate total_size 0\<rparr>)"

definition entry_size :: "bpf_map \<Rightarrow> nat" where
  "entry_size m = unat (1 + key_size m + value_size m)"

text \<open>The search loop of the hash map: the first used entry with the key.\<close>

fun hash_find :: "bpf_map \<Rightarrow> bytes \<Rightarrow> nat list \<Rightarrow> nat option option" where
  "hash_find m key [] = Some None"
| "hash_find m key (i # is) =
     (let off = i * entry_size m; ks = unat (key_size m)
      in if off \<ge> length (data m) then None
         else if data m ! off = 1
         then if off + 1 + ks > length (data m) then None
              else if slice (data m) (off + 1) ks = key then Some (Some i)
              else hash_find m key is
         else hash_find m key is)"

text \<open>The loop looking for an empty entry.\<close>

fun hash_empty :: "bpf_map \<Rightarrow> nat list \<Rightarrow> nat option option" where
  "hash_empty m [] = Some None"
| "hash_empty m (i # is) =
     (let off = i * entry_size m
      in if off \<ge> length (data m) then None
         else if data m ! off = 0 then Some (Some i) else hash_empty m is)"

abbreviation entries_upto :: "bpf_map \<Rightarrow> nat list" where
  "entries_upto m \<equiv> [0..<unat (max_entries m)]"

text \<open>\<open>data[a..b].copy_from_slice(src)\<close>.\<close>

definition copy_into :: "bytes \<Rightarrow> nat \<Rightarrow> nat \<Rightarrow> bytes \<Rightarrow> bytes option" where
  "copy_into buf a b src =
     (if a \<le> b \<and> b \<le> length buf \<and> length src = b - a then Some (put_bytes buf a src) else None)"

definition map_lookup :: "kmem \<Rightarrow> bpf_map \<Rightarrow> u64 \<Rightarrow> (bpf_error + u64) option" where
  "map_lookup mem m key_ptr =
     (case map_type m of
        RingBuf \<Rightarrow> Some (Inl ExecutionError)
      | Hash \<Rightarrow>
          (case hash_find m (read_mem mem key_ptr (unat (key_size m))) (entries_upto m) of
             None \<Rightarrow> None
           | Some None \<Rightarrow> Some (Inr 0)
           | Some (Some i) \<Rightarrow>
               Some (Inr (data_ptr m + of_nat (i * entry_size m + 1 + unat (key_size m)))))
      | _ \<Rightarrow>
          let index = le_word (read_mem mem key_ptr 4) :: u32
          in if index \<ge> max_entries m then Some (Inr 0)
             else Some (Inr (data_ptr m + ucast (index * value_size m))))"

definition map_update :: "kmem \<Rightarrow> bpf_map \<Rightarrow> u64 \<Rightarrow> u64 \<Rightarrow> ((bpf_error + u64) \<times> bpf_map) option" where
  "map_update mem m key_ptr value_ptr =
     (case map_type m of
        RingBuf \<Rightarrow> Some (Inl ExecutionError, m)
      | Hash \<Rightarrow>
          let ks = unat (key_size m); es = entry_size m;
              key = read_mem mem key_ptr ks; val = read_mem mem value_ptr (unat (value_size m))
          in (case hash_find m key (entries_upto m) of
                None \<Rightarrow> None
              | Some (Some i) \<Rightarrow>
                  map_option (\<lambda>d. (Inr 0, m\<lparr>data := d\<rparr>))
                    (copy_into (data m) (i * es + 1 + ks) (i * es + es) val)
              | Some None \<Rightarrow>
                  (case hash_empty m (entries_upto m) of
                     None \<Rightarrow> None
                   | Some None \<Rightarrow> Some (Inr 1, m)
                   | Some (Some i) \<Rightarrow>
                       Option.bind (copy_into ((data m)[i * es := 1]) (i * es + 1) (i * es + 1 + ks) key)
                         (\<lambda>d. map_option (\<lambda>d'. (Inr 0, m\<lparr>data := d'\<rparr>))
                                (copy_into d (i * es + 1 + ks) (i * es + es) val))))
      | _ \<Rightarrow>
          let index = le_word (read_mem mem key_ptr 4) :: u32
          in if index \<ge> max_entries m then Some (Inr 1, m)
             else let off = unat (index * value_size m); vs = unat (value_size m)
                  in if off + vs \<le> length (data m)
                     then Some (Inr 0, m\<lparr>data := put_bytes (data m) off (read_mem mem value_ptr vs)\<rparr>)
                     else None)"

definition map_delete :: "kmem \<Rightarrow> bpf_map \<Rightarrow> u64 \<Rightarrow> ((bpf_error + u64) \<times> bpf_map) option" where
  "map_delete mem m key_ptr =
     (case map_type m of
        RingBuf \<Rightarrow> Some (Inl ExecutionError, m)
      | Hash \<Rightarrow>
          (case hash_find m (read_mem mem key_ptr (unat (key_size m))) (entries_upto m) of
             None \<Rightarrow> None
           | Some None \<Rightarrow> Some (Inr 1, m)
           | Some (Some i) \<Rightarrow> Some (Inr 0, m\<lparr>data := (data m)[i * entry_size m := 0]\<rparr>))
      | _ \<Rightarrow>
          let index = le_word (read_mem mem key_ptr 4) :: u32
          in if index \<ge> max_entries m then Some (Inr 1, m)
             else let off = unat (index * value_size m); vs = unat (value_size m)
                  in if off + vs \<le> length (data m)
                     then Some (Inr 0, m\<lparr>data := put_bytes (data m) off (replicate vs 0)\<rparr>)
                     else None)"

text \<open>The registry: a map's identifier is its index.\<close>

definition registry_add :: "bpf_map list \<Rightarrow> bpf_map \<Rightarrow> nat \<times> bpf_map list" where
  "registry_add maps m = (length maps, maps @ [m])"

definition registry_map :: "bpf_map list \<Rightarrow> nat \<Rightarrow> bpf_map option" where
  "registry_map maps i = (if i < length maps then Some (maps ! i) else None)"

section \<open>Hash maps as partial maps\<close>

abbreviation used :: "bpf_map \<Rightarrow> nat \<Rightarrow> bool" where
  "used m i \<equiv> data m ! (i * entry_size m) = 1"

definition entry_key :: "bpf_map \<Rightarrow> nat \<Rightarrow> bytes" where
  "entry_key m i = slice (data m) (i * entry_size m + 1) (unat (key_size m))"

definition entry_val :: "bpf_map \<Rightarrow> nat \<Rightarrow> bytes" where
  "entry_val m i = slice (data m) (i * entry_size m + 1 + unat (key_size m)) (unat (value_size m))"

definition hash_inv :: "bpf_map \<Rightarrow> bool" where
  "hash_inv m \<longleftrightarrow> map_type m = Hash \<and>
     entry_size m = 1 + unat (key_size m) + unat (value_size m) \<and>
     length (data m) = unat (max_entries m) * entry_size m \<and>
     (\<forall>i < unat (max_entries m). data m ! (i * entry_size m) \<in> {0, 1}) \<and>
     (\<forall>i < unat (max_entries m). \<forall>j < unat (max_entries m).
        used m i \<longrightarrow> used m j \<longrightarrow> entry_key m i = entry_key m j \<longrightarrow> i = j)"

definition hash_abs :: "bpf_map \<Rightarrow> bytes \<Rightarrow> bytes option" where
  "hash_abs m key =
     map_option (entry_val m) (find (\<lambda>i. used m i \<and> entry_key m i = key) (entries_upto m))"

lemma entry_bound:
  assumes "hash_inv m" "i < unat (max_entries m)"
  shows "i * entry_size m + entry_size m \<le> length (data m)"
    "i * entry_size m + 1 + unat (key_size m) + unat (value_size m) \<le> length (data m)"
    "i * entry_size m < length (data m)"
proof -
  have "Suc i * entry_size m \<le> unat (max_entries m) * entry_size m"
    using assms(2) by (intro mult_le_mono1) simp
  with assms(1) show "i * entry_size m + entry_size m \<le> length (data m)"
    "i * entry_size m + 1 + unat (key_size m) + unat (value_size m) \<le> length (data m)"
    "i * entry_size m < length (data m)" by (auto simp: hash_inv_def)
qed

lemma entry_disjoint:
  assumes "i \<noteq> j"
  shows "i * (e::nat) + e \<le> j * e \<or> j * e + e \<le> i * e"
proof -
  have "i * e + e \<le> j * e" if "i < j" for i j
    using mult_le_mono1[of "Suc i" j e] that by simp
  with assms show ?thesis by (meson linorder_neqE_nat)
qed

lemma hash_find_eq:
  assumes "hash_inv m" "\<forall>i \<in> set is. i < unat (max_entries m)"
  shows "hash_find m key is = Some (find (\<lambda>i. used m i \<and> entry_key m i = key) is)"
  using assms(2)
proof (induction "is")
  case (Cons i "is")
  with entry_bound[OF assms(1), of i] show ?case by (simp add: entry_key_def Let_def)
qed simp

lemma hash_empty_eq:
  assumes "hash_inv m" "\<forall>i \<in> set is. i < unat (max_entries m)"
  shows "hash_empty m is = Some (find (\<lambda>i. data m ! (i * entry_size m) = 0) is)"
  using assms(2)
proof (induction "is")
  case (Cons i "is")
  with entry_bound[OF assms(1), of i] show ?case by (simp add: Let_def)
qed simp

lemma hash_abs_iff:
  assumes "hash_inv m"
  shows "hash_abs m key = Some v \<longleftrightarrow>
    (\<exists>i < unat (max_entries m). used m i \<and> entry_key m i = key \<and> entry_val m i = v)"
proof
  assume "hash_abs m key = Some v"
  then show "\<exists>i < unat (max_entries m). used m i \<and> entry_key m i = key \<and> entry_val m i = v"
    by (auto simp: hash_abs_def find_Some_iff)
next
  assume "\<exists>i < unat (max_entries m). used m i \<and> entry_key m i = key \<and> entry_val m i = v"
  then obtain i where i: "i < unat (max_entries m)" "used m i" "entry_key m i = key" "entry_val m i = v"
    by blast
  then obtain j where j: "find (\<lambda>i. used m i \<and> entry_key m i = key) (entries_upto m) = Some j"
    by (cases "find (\<lambda>i. used m i \<and> entry_key m i = key) (entries_upto m)") (auto simp: find_None_iff)
  then have "j < unat (max_entries m)" "used m j" "entry_key m j = key" by (auto simp: find_Some_iff)
  with assms i have "j = i" unfolding hash_inv_def by blast
  with i j show "hash_abs m key = Some v" by (simp add: hash_abs_def)
qed

lemma slice_cong:
  assumes "length d = length d'" "off + n \<le> length d" "\<And>x. off \<le> x \<Longrightarrow> x < off + n \<Longrightarrow> d ! x = d' ! x"
  shows "slice d off n = slice d' off n"
  using assms by (intro nth_equalityI) (auto simp: nth_slice)

lemma entry_size_data [simp]: "entry_size (m\<lparr>data := d\<rparr>) = entry_size m"
  by (simp add: entry_size_def)

lemma entry_cong:
  assumes "hash_inv m" "j < unat (max_entries m)" "length d = length (data m)"
    "\<And>x. j * entry_size m \<le> x \<Longrightarrow> x < j * entry_size m + entry_size m \<Longrightarrow> d ! x = data m ! x"
  shows "d ! (j * entry_size m) = data m ! (j * entry_size m)"
    "entry_key (m\<lparr>data := d\<rparr>) j = entry_key m j" "entry_val (m\<lparr>data := d\<rparr>) j = entry_val m j"
proof -
  note b = entry_bound[OF assms(1,2)]
  have es: "entry_size m = 1 + unat (key_size m) + unat (value_size m)"
    using assms(1) by (simp add: hash_inv_def)
  show "d ! (j * entry_size m) = data m ! (j * entry_size m)" using assms(4) es by simp
  show "entry_key (m\<lparr>data := d\<rparr>) j = entry_key m j"
    unfolding entry_key_def entry_size_data using b es assms(3,4) by (auto intro!: slice_cong)
  show "entry_val (m\<lparr>data := d\<rparr>) j = entry_val m j"
    unfolding entry_val_def entry_size_data using b es assms(3,4) by (auto intro!: slice_cong)
qed

text \<open>Writing one whole entry.\<close>

lemma hash_put:
  assumes inv: "hash_inv m" and i: "i < unat (max_entries m)" and len: "length d = length (data m)"
    and same: "\<And>x. x < length (data m) \<Longrightarrow> \<not> (i * entry_size m \<le> x \<and> x < i * entry_size m + entry_size m) \<Longrightarrow>
           d ! x = data m ! x"
    and e: "d ! (i * entry_size m) = 1" "entry_key (m\<lparr>data := d\<rparr>) i = key" "entry_val (m\<lparr>data := d\<rparr>) i = val"
    and uniq: "\<And>j. j < unat (max_entries m) \<Longrightarrow> used m j \<Longrightarrow> entry_key m j = key \<Longrightarrow> j = i"
    and slot: "used m i \<Longrightarrow> entry_key m i = key"
  shows "hash_inv (m\<lparr>data := d\<rparr>)" "hash_abs (m\<lparr>data := d\<rparr>) = (hash_abs m)(key \<mapsto> val)"
proof -
  let ?m = "m\<lparr>data := d\<rparr>"
  have o: "d ! (j * entry_size m) = data m ! (j * entry_size m)" "entry_key ?m j = entry_key m j"
    "entry_val ?m j = entry_val m j" if "j < unat (max_entries m)" "j \<noteq> i" for j
    using entry_cong[OF inv that(1) len] same entry_disjoint[OF that(2), of "entry_size m"]
      entry_bound(1)[OF inv that(1)] by auto
  have D: "map_type m = Hash" "entry_size m = 1 + unat (key_size m) + unat (value_size m)"
    "length (data m) = unat (max_entries m) * entry_size m"
    "\<And>j. j < unat (max_entries m) \<Longrightarrow> data m ! (j * entry_size m) \<in> {0, 1}"
    "\<And>j k. j < unat (max_entries m) \<Longrightarrow> k < unat (max_entries m) \<Longrightarrow> used m j \<Longrightarrow> used m k \<Longrightarrow>
       entry_key m j = entry_key m k \<Longrightarrow> j = k" using inv by (auto simp: hash_inv_def)
  have flags: "\<And>j. j < unat (max_entries m) \<Longrightarrow> d ! (j * entry_size m) \<in> {0, 1}"
    using D(4) o(1) e(1) by (metis insertCI)
  have keys: "j = k" if "j < unat (max_entries m)" "k < unat (max_entries m)" "d ! (j * entry_size m) = 1"
    "d ! (k * entry_size m) = 1" "entry_key ?m j = entry_key ?m k" for j k
    using that o e(2) uniq D(5) by metis
  show inv': "hash_inv ?m" unfolding hash_inv_def
    using D(1-3) flags keys len by auto
  show "hash_abs ?m = (hash_abs m)(key \<mapsto> val)"
  proof
    fix k
    have "hash_abs ?m k = Some v \<longleftrightarrow> ((hash_abs m)(key \<mapsto> val)) k = Some v" for v
    proof (cases "k = key")
      case True
      have "hash_abs ?m k = Some val"
        unfolding hash_abs_iff[OF inv'] using i e True by auto
      with True show ?thesis by auto
    next
      case False
      have "(j < unat (max_entries m) \<and> d ! (j * entry_size m) = 1 \<and> entry_key ?m j = k \<and> entry_val ?m j = v) \<longleftrightarrow>
            (j < unat (max_entries m) \<and> used m j \<and> entry_key m j = k \<and> entry_val m j = v)" for j
        using o[of j] e(2) slot False by (cases "j = i") auto
      then show ?thesis using False by (simp add: hash_abs_iff[OF inv] hash_abs_iff[OF inv'])
    qed
    then show "hash_abs ?m k = ((hash_abs m)(key \<mapsto> val)) k" by (metis not_Some_eq)
  qed
qed

lemma hash_clear:
  assumes inv: "hash_inv m" and i: "i < unat (max_entries m)" and u: "used m i"
  shows "hash_inv (m\<lparr>data := (data m)[i * entry_size m := 0]\<rparr>)"
    "hash_abs (m\<lparr>data := (data m)[i * entry_size m := 0]\<rparr>) = (hash_abs m)(entry_key m i := None)"
proof -
  let ?d = "(data m)[i * entry_size m := 0]"
  let ?m = "m\<lparr>data := ?d\<rparr>"
  note b = entry_bound[OF inv]
  have D: "map_type m = Hash" "entry_size m = 1 + unat (key_size m) + unat (value_size m)"
    "length (data m) = unat (max_entries m) * entry_size m"
    "\<And>j. j < unat (max_entries m) \<Longrightarrow> data m ! (j * entry_size m) \<in> {0, 1}"
    "\<And>j k. j < unat (max_entries m) \<Longrightarrow> k < unat (max_entries m) \<Longrightarrow> used m j \<Longrightarrow> used m k \<Longrightarrow>
       entry_key m j = entry_key m k \<Longrightarrow> j = k" using inv by (auto simp: hash_inv_def)
  have o: "?d ! (j * entry_size m) = data m ! (j * entry_size m)" "entry_key ?m j = entry_key m j"
    "entry_val ?m j = entry_val m j" if "j < unat (max_entries m)" "j \<noteq> i" for j
    using entry_cong[OF inv that(1), of ?d] entry_disjoint[OF that(2), of "entry_size m"] D(2) by auto
  have z: "?d ! (i * entry_size m) = 0" using b(3)[OF i] by simp
  have flags: "j < unat (max_entries m) \<Longrightarrow> ?d ! (j * entry_size m) \<in> {0, 1}" for j
    using D(4) o(1) z by (metis insertCI)
  have keys: "j = k" if "j < unat (max_entries m)" "k < unat (max_entries m)" "?d ! (j * entry_size m) = 1"
    "?d ! (k * entry_size m) = 1" "entry_key ?m j = entry_key ?m k" for j k
  proof -
    have "j \<noteq> i" "k \<noteq> i" using that z by auto
    with that o D(5) show ?thesis by metis
  qed
  show inv': "hash_inv ?m" unfolding hash_inv_def using D(1-3) flags keys by auto
  show "hash_abs ?m = (hash_abs m)(entry_key m i := None)"
  proof
    fix k
    have "hash_abs ?m k = Some v \<longleftrightarrow> ((hash_abs m)(entry_key m i := None)) k = Some v" for v
    proof -
      have "(j < unat (max_entries m) \<and> ?d ! (j * entry_size m) = 1 \<and> entry_key ?m j = k \<and> entry_val ?m j = v) \<longleftrightarrow>
            (j < unat (max_entries m) \<and> used m j \<and> entry_key m j = k \<and> entry_val m j = v \<and> k \<noteq> entry_key m i)" for j
        using o[of j] z D(5)[OF _ i _ u, of j] by (cases "j = i") auto
      then show ?thesis by (auto simp: hash_abs_iff[OF inv] hash_abs_iff[OF inv'])
    qed
    then show "hash_abs ?m k = ((hash_abs m)(entry_key m i := None)) k" by (metis not_Some_eq)
  qed
qed

lemma find_entries:
  "find P (entries_upto m) = Some i \<Longrightarrow> i < unat (max_entries m) \<and> P i"
  "find P (entries_upto m) = None \<Longrightarrow> i < unat (max_entries m) \<Longrightarrow> \<not> P i"
  by (auto simp: find_Some_iff find_None_iff)

lemma hash_abs_None:
  assumes "hash_inv m" "hash_abs m key = None" "i < unat (max_entries m)" "used m i"
  shows "entry_key m i \<noteq> key"
  using assms hash_abs_iff[OF assms(1), of key "entry_val m i"] by auto

lemma hash_find_abs:
  assumes "hash_inv m"
  shows "hash_find m key (entries_upto m) = Some None \<and> hash_abs m key = None \<or>
     (\<exists>i. hash_find m key (entries_upto m) = Some (Some i) \<and> i < unat (max_entries m) \<and> used m i \<and>
          entry_key m i = key \<and> hash_abs m key = Some (entry_val m i))"
proof -
  have f: "hash_find m key (entries_upto m) = Some (find (\<lambda>i. used m i \<and> entry_key m i = key) (entries_upto m))"
    by (rule hash_find_eq[OF assms]) auto
  show ?thesis
  proof (cases "find (\<lambda>i. used m i \<and> entry_key m i = key) (entries_upto m)")
    case None
    with f show ?thesis by (simp add: hash_abs_def)
  next
    case (Some i)
    with f find_entries(1)[OF Some] show ?thesis by (simp add: hash_abs_def)
  qed
qed

text \<open>Overwriting the value of an existing entry, and filling an empty one.\<close>

lemma hash_overwrite:
  assumes "hash_inv m" "i < unat (max_entries m)" "used m i" "length val = unat (value_size m)"
  defines "off \<equiv> i * entry_size m + 1 + unat (key_size m)"
  shows "copy_into (data m) off (i * entry_size m + entry_size m) val = Some (put_bytes (data m) off val)"
    "hash_inv (m\<lparr>data := put_bytes (data m) off val\<rparr>)"
    "hash_abs (m\<lparr>data := put_bytes (data m) off val\<rparr>) = (hash_abs m)(entry_key m i \<mapsto> val)"
proof -
  note b = entry_bound[OF assms(1,2)]
  have es: "entry_size m = 1 + unat (key_size m) + unat (value_size m)" using assms(1) by (simp add: hash_inv_def)
  let ?d = "put_bytes (data m) off val"
  have fit: "off + length val \<le> length (data m)" using b(2) assms(4) by (simp add: off_def)
  show "copy_into (data m) off (i * entry_size m + entry_size m) val = Some ?d"
    using b es assms(4) by (simp add: copy_into_def off_def)
  have k: "entry_key (m\<lparr>data := ?d\<rparr>) i = entry_key m i"
    unfolding entry_key_def using fit b by (simp add: slice_put_disjoint off_def)
  have v: "entry_val (m\<lparr>data := ?d\<rparr>) i = val"
    unfolding entry_val_def using slice_put_same[OF fit] assms(4) by (simp add: off_def)
  have u: "?d ! (i * entry_size m) = 1" using fit b assms(3) by (simp add: nth_put_bytes off_def)
  have same: "?d ! x = data m ! x"
    if "x < length (data m)" "\<not> (i * entry_size m \<le> x \<and> x < i * entry_size m + entry_size m)" for x
    using that fit es assms(4) by (auto simp: nth_put_bytes off_def)
  have len: "length ?d = length (data m)" using fit by simp
  have uq: "j = i" if "j < unat (max_entries m)" "used m j" "entry_key m j = entry_key m i" for j
    using that assms(1-3) unfolding hash_inv_def by blast
  from hash_put[OF assms(1,2) len same u k v uq]
  show "hash_inv (m\<lparr>data := ?d\<rparr>)" "hash_abs (m\<lparr>data := ?d\<rparr>) = (hash_abs m)(entry_key m i \<mapsto> val)"
    by blast+
qed

lemma hash_fill:
  assumes "hash_inv m" "i < unat (max_entries m)" "data m ! (i * entry_size m) = 0" "hash_abs m key = None"
    "length key = unat (key_size m)" "length val = unat (value_size m)"
  defines "d0 \<equiv> (data m)[i * entry_size m := 1]"
  defines "d1 \<equiv> put_bytes d0 (i * entry_size m + 1) key"
  defines "d2 \<equiv> put_bytes d1 (i * entry_size m + 1 + unat (key_size m)) val"
  shows "copy_into d0 (i * entry_size m + 1) (i * entry_size m + 1 + unat (key_size m)) key = Some d1"
    "copy_into d1 (i * entry_size m + 1 + unat (key_size m)) (i * entry_size m + entry_size m) val = Some d2"
    "hash_inv (m\<lparr>data := d2\<rparr>)" "hash_abs (m\<lparr>data := d2\<rparr>) = (hash_abs m)(key \<mapsto> val)"
proof -
  note b = entry_bound[OF assms(1,2)]
  have es: "entry_size m = 1 + unat (key_size m) + unat (value_size m)" using assms(1) by (simp add: hash_inv_def)
  have l0: "length d0 = length (data m)" by (simp add: d0_def)
  have f1: "i * entry_size m + 1 + length key \<le> length d0" using b assms(5) l0 by simp
  then have l1: "length d1 = length (data m)" using l0 by (simp add: d1_def)
  have f2: "i * entry_size m + 1 + unat (key_size m) + length val \<le> length d1" using b assms(6) l1 by simp
  then have l2: "length d2 = length (data m)" using l1 by (simp add: d2_def)
  show "copy_into d0 (i * entry_size m + 1) (i * entry_size m + 1 + unat (key_size m)) key = Some d1"
    using f1 assms(5) by (simp add: copy_into_def d1_def)
  show "copy_into d1 (i * entry_size m + 1 + unat (key_size m)) (i * entry_size m + entry_size m) val = Some d2"
    using f2 es assms(6) b l1 by (simp add: copy_into_def d2_def)
  have k: "entry_key (m\<lparr>data := d2\<rparr>) i = key"
    unfolding entry_key_def using f1 f2 l1 l0 slice_put_same[OF f1] assms(5)
    by (simp add: d2_def slice_put_disjoint d1_def)
  have v: "entry_val (m\<lparr>data := d2\<rparr>) i = val"
    unfolding entry_val_def using slice_put_same[OF f2] assms(6) by (simp add: d2_def)
  have u: "d2 ! (i * entry_size m) = 1"
    using f1 f2 b l0 l1 by (simp add: d2_def d1_def nth_put_bytes) (simp add: d0_def)
  have same: "d2 ! x = data m ! x"
    if "x < length (data m)" "\<not> (i * entry_size m \<le> x \<and> x < i * entry_size m + entry_size m)" for x
  proof -
    have "d2 ! x = d1 ! x" using that f2 l1 es assms(6) by (auto simp: d2_def nth_put_bytes)
    also have "\<dots> = d0 ! x" using that f1 l0 es assms(5) by (auto simp: d1_def nth_put_bytes)
    also have "\<dots> = data m ! x" using that es by (auto simp: d0_def nth_list_update)
    finally show ?thesis .
  qed
  have uq: "j = i" if "j < unat (max_entries m)" "used m j" "entry_key m j = key" for j
    using hash_abs_None[OF assms(1,4) that(1,2)] that(3) by simp
  have nu: "used m i \<Longrightarrow> entry_key m i = key" using assms(3) by simp
  from hash_put[OF assms(1,2) l2 same u k v uq nu]
  show "hash_inv (m\<lparr>data := d2\<rparr>)" "hash_abs (m\<lparr>data := d2\<rparr>) = (hash_abs m)(key \<mapsto> val)" by blast+
qed

lemma hash_new_inv:
  assumes "(1 + unat ks + unat vs) * unat n < 2 ^ 32" "n \<noteq> 0"
  shows "hash_inv (map_new ptr Hash ks vs n)" "hash_abs (map_new ptr Hash ks vs n) = Map.empty"
proof -
  have "0 < unat n" using assms(2) by (simp add: unat_gt_0)
  then have s: "1 + unat ks + unat vs < 2 ^ 32"
    using assms(1) by (metis One_nat_def Suc_leI le_less_trans mult.right_neutral mult_le_mono2)
  have a1: "saturating_add 1 ks = (1::u32) + ks" "unat ((1::u32) + ks) = 1 + unat ks"
    using s by (auto simp: saturating_add_def unat_add_nowrap)
  then have a2: "saturating_add (saturating_add 1 ks) vs = (1::u32) + ks + vs"
    "unat ((1::u32) + ks + vs) = 1 + unat ks + unat vs"
    using s by (auto simp: saturating_add_def unat_add_nowrap)
  have m: "checked_mul (1 + ks + vs) n = Some ((1 + ks + vs) * n)"
    "unat ((1 + ks + vs) * n) = (1 + unat ks + unat vs) * unat n"
    using assms(1) a2(2) by (simp_all add: checked_mul_def unat_mult_nowrap)
  let ?m = "map_new ptr Hash ks vs n"
  have d: "data ?m = replicate ((1 + unat ks + unat vs) * unat n) 0" "key_size ?m = ks" "value_size ?m = vs"
    "max_entries ?m = n" "map_type ?m = Hash"
    using a2(1) m by (simp_all add: map_new_def Let_def)
  have es: "entry_size ?m = 1 + unat ks + unat vs" using a2(2) d by (simp add: entry_size_def)
  have z: "data ?m ! (i * entry_size ?m) = 0" if "i < unat n" for i
  proof -
    have "(1 + unat ks + unat vs) * i < (1 + unat ks + unat vs) * unat n"
      using that by (intro mult_strict_left_mono) simp_all
    then show ?thesis unfolding d(1) es by (simp add: mult.commute[of i])
  qed
  show "hash_inv ?m" unfolding hash_inv_def using d es z by (simp add: mult.commute)
  have "find (\<lambda>i. used ?m i \<and> entry_key ?m i = k) (entries_upto ?m) = None" for k
    using z d(4) by (auto simp: find_None_iff)
  then show "hash_abs ?m = Map.empty" by (auto simp: hash_abs_def fun_eq_iff)
qed

section \<open>Array maps\<close>

definition array_inv :: "bpf_map \<Rightarrow> bool" where
  "array_inv m \<longleftrightarrow> map_type m \<in> {Array, ProgArray} \<and>
     length (data m) = unat (value_size m) * unat (max_entries m) \<and> length (data m) < 2 ^ 32"

definition array_get :: "bpf_map \<Rightarrow> nat \<Rightarrow> bytes" where
  "array_get m i = slice (data m) (i * unat (value_size m)) (unat (value_size m))"

lemma array_new_inv:
  "unat vs * unat n < 2 ^ 32 \<Longrightarrow> ty \<in> {Array, ProgArray} \<Longrightarrow> array_inv (map_new ptr ty ks vs n)"
  by (auto simp: array_inv_def map_new_def checked_mul_def unat_mult_nowrap)

lemma array_offset:
  assumes "array_inv m" "index < max_entries m"
  shows "unat (index * value_size m) = unat index * unat (value_size m)"
    "unat index * unat (value_size m) + unat (value_size m) \<le> length (data m)"
proof -
  have "Suc (unat index) * unat (value_size m) \<le> unat (max_entries m) * unat (value_size m)"
    using assms(2) by (intro mult_le_mono1) (simp add: word_less_nat_alt)
  then show b: "unat index * unat (value_size m) + unat (value_size m) \<le> length (data m)"
    using assms(1) by (simp add: array_inv_def mult.commute)
  then show "unat (index * value_size m) = unat index * unat (value_size m)"
    using assms(1) by (intro unat_mult_nowrap) (simp add: array_inv_def)
qed

section \<open>Properties\<close>

text \<open>(C11) A hash map is a partial map from keys to values: in a well-formed map, lookup finds the
  stored value's address exactly for stored keys, update stores the pair and nothing else or
  reports a full map and changes nothing, delete removes exactly the key, and none of them
  panics or leaves the buffer.\<close>

theorem hash_map_refines_map:
  assumes "hash_inv m" and k: "k = read_mem mem kp (unat (key_size m))"
    and v: "v = read_mem mem vp (unat (value_size m))"
  shows "(case hash_abs m k of
            None \<Rightarrow> map_lookup mem m kp = Some (Inr 0)
          | Some w \<Rightarrow> \<exists>off. map_lookup mem m kp = Some (Inr (data_ptr m + of_nat off)) \<and>
              off + unat (value_size m) \<le> length (data m) \<and> slice (data m) off (unat (value_size m)) = w) \<and>
         (\<exists>r m'. map_update mem m kp vp = Some (Inr r, m') \<and> hash_inv m' \<and>
            (if r = 0 then hash_abs m' = (hash_abs m)(k \<mapsto> v)
             else r = 1 \<and> m' = m \<and> hash_abs m k = None \<and> (\<forall>i < unat (max_entries m). used m i))) \<and>
         (\<exists>r m'. map_delete mem m kp = Some (Inr r, m') \<and> hash_inv m' \<and>
            hash_abs m' = (hash_abs m)(k := None) \<and> (r = 0 \<longleftrightarrow> hash_abs m k \<noteq> None))"
proof -
  have ty: "map_type m = Hash" using assms(1) by (simp add: hash_inv_def)
  have len: "length k = unat (key_size m)" "length v = unat (value_size m)"
    by (simp_all add: k v)
  consider (out) "hash_find m k (entries_upto m) = Some None" "hash_abs m k = None"
    | (inn) i where "hash_find m k (entries_upto m) = Some (Some i)" "i < unat (max_entries m)"
        "used m i" "entry_key m i = k" "hash_abs m k = Some (entry_val m i)"
    using hash_find_abs[OF assms(1), of k] by metis
  then show ?thesis
  proof cases
    case out
    have e: "hash_empty m (entries_upto m) = Some (find (\<lambda>i. data m ! (i * entry_size m) = 0) (entries_upto m))"
      by (rule hash_empty_eq[OF assms(1)]) auto
    have upd: "\<exists>r m'. map_update mem m kp vp = Some (Inr r, m') \<and> hash_inv m' \<and>
            (if r = 0 then hash_abs m' = (hash_abs m)(k \<mapsto> v)
             else r = 1 \<and> m' = m \<and> hash_abs m k = None \<and> (\<forall>i < unat (max_entries m). used m i))"
    proof (cases "find (\<lambda>i. data m ! (i * entry_size m) = 0) (entries_upto m)")
      case None
      have "\<forall>i < unat (max_entries m). used m i"
        using find_entries(2)[OF None] assms(1) by (auto simp: hash_inv_def)
      with None e out ty assms(1) show ?thesis by (simp add: map_update_def Let_def k)
    next
      case (Some i)
      note i = find_entries(1)[OF Some]
      from hash_fill[OF assms(1) _ _ out(2) len, of i] i Some e out(1) ty show ?thesis
        by (simp add: map_update_def Let_def k v)
    qed
    with out ty assms(1) show ?thesis
      by (auto simp: map_lookup_def map_delete_def k fun_upd_idem)
  next
    case inn
    note hc = hash_clear[OF assms(1) inn(2,3)]
    note ho = hash_overwrite[OF assms(1) inn(2,3) len(2)]
    have "i * entry_size m + 1 + unat (key_size m) + unat (value_size m) \<le> length (data m)"
      by (rule entry_bound(2)[OF assms(1) inn(2)])
    then show ?thesis
      using inn ty hc ho
      by (auto simp: map_lookup_def map_update_def map_delete_def Let_def k[symmetric] v[symmetric]
          entry_val_def intro!: exI[of _ "i * entry_size m + 1 + unat (key_size m)"])
  qed
qed

theorem hash_map_refines_map_witness:
  "\<exists>m'. map_update (\<lambda>a. ucast a) (map_new 0 Hash 1 1 2) 7 9 = Some (Inr 0, m') \<and>
     hash_abs m' [7] = Some [9]"
proof -
  let ?m = "map_new 0 Hash 1 1 2"
  have inv: "hash_inv ?m" "hash_abs ?m = Map.empty" by (rule hash_new_inv; simp)+
  have sz: "key_size ?m = 1" "value_size ?m = 1" "max_entries ?m = 2" by (simp_all add: map_new_def Let_def)
  have "\<not> used ?m 0" using hash_abs_None[OF inv(1), of "entry_key ?m 0" 0] inv(2) sz by auto
  then have "\<not> (\<forall>i < 2. used ?m i)" by (metis zero_less_numeral)
  with hash_map_refines_map[OF inv(1) refl refl, of "\<lambda>a. ucast a" 7 9] sz(3) obtain r m' where
    "map_update (\<lambda>a. ucast a) ?m 7 9 = Some (Inr r, m')" "r = 0"
    "hash_abs m' = (hash_abs ?m)([7] \<mapsto> [9])"
    by (auto simp: sz(1,2) read_mem_def split: if_splits)
  then show ?thesis by auto
qed

text \<open>Array maps stay in their buffer: if the buffer of an array map has its full size, every
  update with an index below \<open>max_entries\<close> writes exactly that slot; and when the size
  computation overflowed in \<open>new\<close>, the buffer is empty while the index check still passes, so
  the update writes outside it.\<close>

theorem array_map_update:
  assumes "value_size m \<noteq> 0" "map_type m \<in> {Array, ProgArray}"
    "index = (le_word (read_mem mem kp 4) :: u32)" "index < max_entries m"
  shows "(array_inv m \<longrightarrow>
            (\<exists>m'. map_update mem m kp vp = Some (Inr 0, m') \<and> array_inv m' \<and>
               array_get m' (unat index) = read_mem mem vp (unat (value_size m)) \<and>
               (\<forall>j < unat (max_entries m). j \<noteq> unat index \<longrightarrow> array_get m' j = array_get m j))) \<and>
         (m = map_new ptr (map_type m) (key_size m) (value_size m) (max_entries m) \<and>
          checked_mul (value_size m) (max_entries m) = None \<longrightarrow> map_update mem m kp vp = None)"
proof (intro conjI impI)
  assume inv: "array_inv m"
  note o = array_offset[OF inv assms(4)]
  let ?vs = "unat (value_size m)"
  let ?d = "put_bytes (data m) (unat index * ?vs) (read_mem mem vp ?vs)"
  have fit: "unat index * ?vs + length (read_mem mem vp ?vs) \<le> length (data m)" using o by simp
  have u: "map_update mem m kp vp = Some (Inr 0, m\<lparr>data := ?d\<rparr>)"
    using assms(2-4) o by (auto simp: map_update_def Let_def)
  have "array_get (m\<lparr>data := ?d\<rparr>) (unat index) = read_mem mem vp ?vs"
    using slice_put_same[OF fit] by (simp add: array_get_def)
  moreover have "array_get (m\<lparr>data := ?d\<rparr>) j = array_get m j"
    if "j < unat (max_entries m)" "j \<noteq> unat index" for j
  proof -
    have "Suc j * ?vs \<le> unat (max_entries m) * ?vs" using that(1) by (intro mult_le_mono1) simp
    then have "j * ?vs + ?vs \<le> length (data m)" using inv by (simp add: array_inv_def mult.commute)
    with fit entry_disjoint[OF that(2), of ?vs] show ?thesis
      by (simp add: array_get_def slice_put_disjoint)
  qed
  moreover have "array_inv (m\<lparr>data := ?d\<rparr>)" using inv fit by (simp add: array_inv_def)
  ultimately show "\<exists>m'. map_update mem m kp vp = Some (Inr 0, m') \<and> array_inv m' \<and>
      array_get m' (unat index) = read_mem mem vp ?vs \<and>
      (\<forall>j < unat (max_entries m). j \<noteq> unat index \<longrightarrow> array_get m' j = array_get m j)" using u by blast
next
  assume h: "m = map_new ptr (map_type m) (key_size m) (value_size m) (max_entries m) \<and>
    checked_mul (value_size m) (max_entries m) = None"
  have "data (map_new ptr (map_type m) (key_size m) (value_size m) (max_entries m)) = []"
    using assms(2) conjunct2[OF h] by (auto simp: map_new_def Let_def)
  with arg_cong[OF conjunct1[OF h], of data] have "data m = []" by simp
  with assms show "map_update mem m kp vp = None"
    by (auto simp: map_update_def Let_def unat_gt_0)
qed

theorem array_map_update_witness:
  "map_update (\<lambda>a. 0) (map_new 0 Array 4 0x10000 0x10000) 0 0 = None \<and>
   (\<exists>m'. map_update (\<lambda>a. 0) (map_new 0 Array 4 8 4) 0 0 = Some (Inr 0, m'))"
proof -
  have i: "(0::u32) = le_word (read_mem (\<lambda>a. 0) 0 4)"
    by (simp add: read_mem_def numeral_eq_Suc)
  have f: "value_size (map_new 0 Array 4 v n) = v" "max_entries (map_new 0 Array 4 v n) = n"
    "map_type (map_new 0 Array 4 v n) = Array" "key_size (map_new 0 Array 4 v n) = 4" for v n
    by (simp_all add: map_new_def Let_def)
  from array_map_update[OF _ _ i, of "map_new 0 Array 4 0x10000 0x10000" 0 0]
    array_map_update[OF _ _ i, of "map_new 0 Array 4 8 4" 0 0] array_new_inv[of 8 4 Array 0 4]
  show ?thesis by (auto simp: f checked_mul_def)
qed

end
