(* ===== verification/Ziqa_Bpf_Vm.thy ===== *)
theory Ziqa_Bpf_Vm
  imports Ziqa_Bpf_Map
begin

text \<open>
  The eBPF subsystem: instructions and opcodes (\<open>src/src/ebpf/mod.rs\<close>), the verifier
  (\<open>verifier.rs\<close>), the virtual machine with its helper calls (\<open>vm.rs\<close>) and the attachments
  (\<open>attach.rs\<close>).  The machine state holds the eleven registers, the end of the stack window,
  kernel memory and the maps.  The program counter is a 64-bit word, because the jump
  arithmetic goes through 32-bit signed integers.  \<open>None\<close> and \<open>Panic\<close> are a panic or an
  undefined access through a raw pointer.  Loads and stores are byte-addressed, as the
  processor performs them.  Map buffers are not part of the byte memory: a key or value
  pointer into a map buffer is outside the model, and so is the text a trace call prints.
\<close>

section \<open>Instructions\<close>

record bpf_insn =
  code :: u8
  regs :: u8
  off :: "16 word"
  imm :: u32

definition dst_reg :: "bpf_insn \<Rightarrow> nat" where
  "dst_reg insn = unat (regs insn AND 0x0F)"

definition src_reg :: "bpf_insn \<Rightarrow> nat" where
  "src_reg insn = unat (drop_bit 4 (regs insn) AND 0x0F)"

definition ALU_ADD :: u8 where "ALU_ADD = 0x07"
definition ALU_SUB :: u8 where "ALU_SUB = 0x17"
definition ALU_MUL :: u8 where "ALU_MUL = 0x27"
definition ALU_DIV :: u8 where "ALU_DIV = 0x37"
definition ALU_AND :: u8 where "ALU_AND = 0x57"
definition ALU_OR :: u8 where "ALU_OR = 0x47"
definition ALU_XOR :: u8 where "ALU_XOR = 0xA7"
definition ALU_LSH :: u8 where "ALU_LSH = 0x67"
definition ALU_RSH :: u8 where "ALU_RSH = 0x77"
definition ALU_ADD_X :: u8 where "ALU_ADD_X = 0x0F"
definition ALU_SUB_X :: u8 where "ALU_SUB_X = 0x1F"
definition ALU_MUL_X :: u8 where "ALU_MUL_X = 0x2F"
definition ALU_DIV_X :: u8 where "ALU_DIV_X = 0x3F"
definition ALU_AND_X :: u8 where "ALU_AND_X = 0x5F"
definition ALU_OR_X :: u8 where "ALU_OR_X = 0x4F"
definition ALU_XOR_X :: u8 where "ALU_XOR_X = 0xAF"
definition ALU_LSH_X :: u8 where "ALU_LSH_X = 0x6F"
definition ALU_RSH_X :: u8 where "ALU_RSH_X = 0x7F"
definition JMP_JA :: u8 where "JMP_JA = 0x05"
definition JMP_JEQ :: u8 where "JMP_JEQ = 0x15"
definition JMP_JNE :: u8 where "JMP_JNE = 0x55"
definition JMP_JGT :: u8 where "JMP_JGT = 0x25"
definition JMP_JGE :: u8 where "JMP_JGE = 0x35"
definition JMP_JEQ_X :: u8 where "JMP_JEQ_X = 0x1D"
definition JMP_JNE_X :: u8 where "JMP_JNE_X = 0x5D"
definition JMP_JGT_X :: u8 where "JMP_JGT_X = 0x2D"
definition JMP_JGE_X :: u8 where "JMP_JGE_X = 0x3D"
definition RET :: u8 where "RET = 0x95"
definition MOV :: u8 where "MOV = 0xB7"
definition MOV_X :: u8 where "MOV_X = 0xBF"
definition CALL :: u8 where "CALL = 0x85"
definition LD_IMM_64 :: u8 where "LD_IMM_64 = 0x18"
definition LDX_W :: u8 where "LDX_W = 0x61"
definition LDX_DW :: u8 where "LDX_DW = 0x79"
definition STX_W :: u8 where "STX_W = 0x63"
definition STX_DW :: u8 where "STX_DW = 0x7B"
definition ST_W :: u8 where "ST_W = 0x62"
definition ST_DW :: u8 where "ST_DW = 0x7A"

lemmas op_defs = ALU_ADD_def ALU_SUB_def ALU_MUL_def ALU_DIV_def ALU_AND_def ALU_OR_def
  ALU_XOR_def ALU_LSH_def ALU_RSH_def ALU_ADD_X_def ALU_SUB_X_def ALU_MUL_X_def ALU_DIV_X_def
  ALU_AND_X_def ALU_OR_X_def ALU_XOR_X_def ALU_LSH_X_def ALU_RSH_X_def JMP_JA_def JMP_JEQ_def
  JMP_JNE_def JMP_JGT_def JMP_JGE_def JMP_JEQ_X_def JMP_JNE_X_def JMP_JGT_X_def JMP_JGE_X_def
  RET_def MOV_def MOV_X_def CALL_def LD_IMM_64_def LDX_W_def LDX_DW_def STX_W_def STX_DW_def
  ST_W_def ST_DW_def

definition MAP_LOOKUP_ELEM :: u32 where "MAP_LOOKUP_ELEM = 1"
definition MAP_UPDATE_ELEM :: u32 where "MAP_UPDATE_ELEM = 2"
definition MAP_DELETE_ELEM :: u32 where "MAP_DELETE_ELEM = 3"
definition KTIME_GET_NS :: u32 where "KTIME_GET_NS = 4"
definition TRACE_PRINTK :: u32 where "TRACE_PRINTK = 5"
definition GET_CURRENT_PID_TGID :: u32 where "GET_CURRENT_PID_TGID = 6"
definition GET_CURRENT_COMM :: u32 where "GET_CURRENT_COMM = 7"
definition PROBE_READ :: u32 where "PROBE_READ = 8"
definition TAIL_CALL :: u32 where "TAIL_CALL = 9"
definition GET_SMP_PROCESSOR_ID :: u32 where "GET_SMP_PROCESSOR_ID = 10"

lemmas helper_defs = MAP_LOOKUP_ELEM_def MAP_UPDATE_ELEM_def MAP_DELETE_ELEM_def KTIME_GET_NS_def
  TRACE_PRINTK_def GET_CURRENT_PID_TGID_def GET_CURRENT_COMM_def PROBE_READ_def
  TAIL_CALL_def GET_SMP_PROCESSOR_ID_def

section \<open>The verifier\<close>

definition MAX_INSNS :: nat where "MAX_INSNS = 4096"

definition is_jump :: "bpf_insn \<Rightarrow> bool" where
  "is_jump insn \<longleftrightarrow> code insn AND 0x07 = 0x05 \<and> code insn \<noteq> RET \<and> code insn \<noteq> CALL"

definition jump_target :: "nat \<Rightarrow> bpf_insn \<Rightarrow> int" where
  "jump_target i insn = int i + sint (off insn) + 1"

definition is_mem_access :: "bpf_insn \<Rightarrow> bool" where
  "is_mem_access insn \<longleftrightarrow> code insn AND 0x07 \<in> {0x01, 0x03, 0x02}"

definition is_stack_access :: "bpf_insn \<Rightarrow> bool" where
  "is_stack_access insn =
     (if code insn AND 0x07 = 0x01 then src_reg insn = 10 else dst_reg insn = 10)"

function verify_from :: "bpf_insn list \<Rightarrow> nat \<Rightarrow> bpf_error + unit" where
  "verify_from prog i =
     (if i < length prog then
        let insn = prog ! i in
        if dst_reg insn \<ge> 11 \<or> src_reg insn \<ge> 11
        then Inl (VerificationFailed ''Invalid register index'')
        else if code insn = LD_IMM_64
        then if i + 1 \<ge> length prog then Inl (VerificationFailed ''Truncated LD_IMM_64'')
             else verify_from prog (i + 2)
        else if is_jump insn \<and> (jump_target i insn < 0 \<or> jump_target i insn \<ge> int (length prog))
        then Inl (VerificationFailed ''Jump out of bounds'')
        else if is_mem_access insn \<and> is_stack_access insn \<and> (sint (off insn) > 0 \<or> sint (off insn) < -512)
        then Inl (VerificationFailed ''Stack access out of bounds'')
        else if is_mem_access insn \<and> \<not> is_stack_access insn
        then Inl (VerificationFailed ''Non-stack memory access forbidden'')
        else verify_from prog (i + 1)
      else Inr ())"
  by auto
termination by (relation "measure (\<lambda>(prog, i). length prog - i)") auto

declare verify_from.simps [simp del]

definition verify :: "bpf_insn list \<Rightarrow> bpf_error + unit" where
  "verify prog =
     (if prog = [] then Inl (VerificationFailed ''Empty program'')
      else if length prog > MAX_INSNS then Inl (VerificationFailed ''Program too large'')
      else if \<not> list_ex (\<lambda>insn. code insn = RET) prog
      then Inl (VerificationFailed ''No exit instruction found'')
      else verify_from prog 0)"

section \<open>The machine\<close>

record bpf_vm =
  registers :: "u64 list"
  stack_base :: u64
  mem :: kmem
  maps :: "bpf_map list"

text \<open>What the helpers read of the rest of the kernel: the clock, the processor, the address
  of the local index of the tail call, and the program a tail-call handle points to.\<close>

record bpf_env =
  uptime_ms :: u64
  cpu_current_pid :: "u64 option"
  cpu_id :: u64
  index_addr :: u64
  prog_at :: "u64 \<Rightarrow> bpf_insn list option"

text \<open>\<open>sp\<close> is the address of the stack array of the new machine.\<close>

definition vm_new :: "u64 \<Rightarrow> kmem \<Rightarrow> bpf_map list \<Rightarrow> bpf_vm" where
  "vm_new sp m ms =
     \<lparr>registers = (replicate 11 0)[10 := sp + 512], stack_base = sp + 512,
      mem = write_mem m sp (replicate 512 0), maps = ms\<rparr>"

definition stack_start :: "bpf_vm \<Rightarrow> u64" where
  "stack_start vm = saturating_sub (stack_base vm) 512"

definition is_stack_ptr :: "bpf_vm \<Rightarrow> u64 \<Rightarrow> u64 \<Rightarrow> bool" where
  "is_stack_ptr vm addr n =
     (if addr < stack_start vm then False
      else let e = saturating_add addr n in if e < addr then False else e \<le> stack_base vm)"

definition validate_mem_access :: "bpf_vm \<Rightarrow> u64 \<Rightarrow> u64 \<Rightarrow> bpf_error + unit" where
  "validate_mem_access vm addr n = (if is_stack_ptr vm addr n then Inr () else Inl BpfOutOfBounds)"

definition reg :: "bpf_vm \<Rightarrow> nat \<Rightarrow> u64" where
  "reg vm r = registers vm ! r"

definition set_reg :: "bpf_vm \<Rightarrow> nat \<Rightarrow> u64 \<Rightarrow> bpf_vm" where
  "set_reg vm r v = vm\<lparr>registers := (registers vm)[r := v]\<rparr>"

definition imm64 :: "bpf_insn \<Rightarrow> u64" where
  "imm64 insn = scast (imm insn)"

text \<open>Moves and arithmetic: the new value of the destination register or an error; \<open>None\<close> for
  an opcode of another group.\<close>

definition alu :: "bpf_insn \<Rightarrow> bpf_vm \<Rightarrow> (bpf_error + u64) option" where
  "alu insn vm =
     (let c = code insn; d = reg vm (dst_reg insn); s = reg vm (src_reg insn); k = imm64 insn
      in if c = MOV then Some (Inr k)
         else if c = MOV_X then Some (Inr s)
         else if c = ALU_ADD then Some (Inr (d + k))
         else if c = ALU_ADD_X then Some (Inr (d + s))
         else if c = ALU_SUB then Some (Inr (d - k))
         else if c = ALU_SUB_X then Some (Inr (d - s))
         else if c = ALU_MUL then Some (Inr (d * k))
         else if c = ALU_MUL_X then Some (Inr (d * s))
         else if c = ALU_DIV then if imm insn = 0 then Some (Inl ExecutionError) else Some (Inr (d div k))
         else if c = ALU_DIV_X then if s = 0 then Some (Inl ExecutionError) else Some (Inr (d div s))
         else if c = ALU_AND then Some (Inr (d AND k))
         else if c = ALU_AND_X then Some (Inr (d AND s))
         else if c = ALU_OR then Some (Inr (d OR k))
         else if c = ALU_OR_X then Some (Inr (d OR s))
         else if c = ALU_XOR then Some (Inr (d XOR k))
         else if c = ALU_XOR_X then Some (Inr (d XOR s))
         else if c = ALU_LSH then Some (Inr (push_bit (unat (imm insn AND 63)) d))
         else if c = ALU_LSH_X then Some (Inr (push_bit (unat ((ucast s :: u32) AND 63)) d))
         else if c = ALU_RSH then Some (Inr (drop_bit (unat (imm insn AND 63)) d))
         else if c = ALU_RSH_X then Some (Inr (drop_bit (unat ((ucast s :: u32) AND 63)) d))
         else None)"

text \<open>Jumps: whether the jump is taken; \<open>None\<close> for an opcode of another group.\<close>

definition jmp :: "bpf_insn \<Rightarrow> bpf_vm \<Rightarrow> bool option" where
  "jmp insn vm =
     (let c = code insn; d = reg vm (dst_reg insn); s = reg vm (src_reg insn); k = imm64 insn
      in if c = JMP_JA then Some True
         else if c = JMP_JEQ then Some (d = k)
         else if c = JMP_JEQ_X then Some (d = s)
         else if c = JMP_JNE then Some (d \<noteq> k)
         else if c = JMP_JNE_X then Some (d \<noteq> s)
         else if c = JMP_JGT then Some (d > k)
         else if c = JMP_JGT_X then Some (d > s)
         else if c = JMP_JGE then Some (d \<ge> k)
         else if c = JMP_JGE_X then Some (d \<ge> s)
         else None)"

definition jump_pc :: "u64 \<Rightarrow> bpf_insn \<Rightarrow> u64" where
  "jump_pc pc insn = scast ((ucast pc :: u32) + scast (off insn))"

text \<open>Loads and stores: the accessed address, its width, and for stores the bytes.\<close>

definition load_width :: "bpf_insn \<Rightarrow> nat option" where
  "load_width insn = (if code insn = LDX_W then Some 4 else if code insn = LDX_DW then Some 8 else None)"

definition store_bytes :: "bpf_insn \<Rightarrow> bpf_vm \<Rightarrow> bytes option" where
  "store_bytes insn vm =
     (let c = code insn; s = reg vm (src_reg insn)
      in if c = STX_W then Some (le_bytes 4 (ucast s :: u32))
         else if c = STX_DW then Some (le_bytes 8 s)
         else if c = ST_W then Some (le_bytes 4 (imm insn))
         else if c = ST_DW then Some (le_bytes 8 (imm64 insn))
         else None)"

section \<open>Helper calls\<close>

definition COMM :: bytes where
  "COMM = [122, 105, 113, 97, 45, 112, 114, 111, 99, 0]"

definition helper_comm :: "bpf_vm \<Rightarrow> bpf_vm" where
  "helper_comm vm =
     (let buf = reg vm 1; sz = unat (reg vm 2);
          len = min (min sz 512) (length COMM)
      in if validate_mem_access vm buf (of_nat len) = Inr ()
         then let m = write_mem (mem vm) buf (take len COMM)
              in vm\<lparr>mem := (if len < sz \<and> len < 512
                            then write_mem m (buf + of_nat len) (replicate (min (sz - len) (512 - len)) 0)
                            else m)\<rparr>
         else vm)"

text \<open>\<open>copy_nonoverlapping\<close> on ranges that overlap is undefined.\<close>

definition copy_nonoverlapping :: "kmem \<Rightarrow> u64 \<Rightarrow> u64 \<Rightarrow> nat \<Rightarrow> kmem option" where
  "copy_nonoverlapping m src dst n =
     (if unat dst < unat src + n \<and> unat src < unat dst + n then None
      else Some (write_mem m dst (read_mem m src n)))"

definition helper_probe_read :: "bpf_vm \<Rightarrow> bpf_vm option" where
  "helper_probe_read vm =
     (let dst_ptr = reg vm 1; safe_size = min (unat (reg vm 2)) 512; src_ptr = reg vm 3
      in if validate_mem_access vm dst_ptr (of_nat safe_size) = Inr () \<and>
            validate_mem_access vm src_ptr (of_nat safe_size) = Inr ()
         then map_option (\<lambda>m. vm\<lparr>mem := m\<rparr>) (copy_nonoverlapping (mem vm) src_ptr dst_ptr safe_size)
         else Some vm)"

text \<open>The tail-call helper stores the index in a local variable, looks it up and reads the
  program handle in the slot the lookup points to.\<close>

definition helper_tail_call :: "bpf_env \<Rightarrow> bpf_vm \<Rightarrow> (bpf_error + u64) option" where
  "helper_tail_call env vm =
     (case registry_map (maps vm) (unat (reg vm 1)) of
        None \<Rightarrow> Some (Inr 0)
      | Some m \<Rightarrow>
          if map_type m \<noteq> ProgArray then Some (Inr 0)
          else let index = (ucast (reg vm 2) :: u32); key_ptr = index_addr env
               in case map_lookup (write_mem (mem vm) key_ptr (le_bytes 4 index)) m key_ptr of
                    None \<Rightarrow> None
                  | Some (Inl e) \<Rightarrow> Some (Inl e)
                  | Some (Inr ptr) \<Rightarrow>
                      if ptr = 0 then Some (Inr 0)
                      else let o' = unat (ptr - data_ptr m)
                           in if o' + 8 > length (data m) then None
                              else let h = le_word (slice (data m) o' 8)
                                   in if h = 0 then Some (Inr 0) else Some (Inl (TailCall h)))"

definition call_helper :: "bpf_env \<Rightarrow> bpf_vm \<Rightarrow> u32 \<Rightarrow> ((bpf_error + u64) \<times> bpf_vm) option" where
  "call_helper env vm i =
     (let put = (\<lambda>r. case r of None \<Rightarrow> None
                  | Some (v, m) \<Rightarrow> Some (v, vm\<lparr>maps := (maps vm)[unat (reg vm 1) := m]\<rparr>))
      in if i = MAP_LOOKUP_ELEM
      then (case registry_map (maps vm) (unat (reg vm 1)) of
              None \<Rightarrow> Some (Inr 0, vm)
            | Some m \<Rightarrow> map_option (\<lambda>r. (r, vm)) (map_lookup (mem vm) m (reg vm 2)))
      else if i = MAP_UPDATE_ELEM
      then (case registry_map (maps vm) (unat (reg vm 1)) of
              None \<Rightarrow> Some (Inr 1, vm)
            | Some m \<Rightarrow> put (map_update (mem vm) m (reg vm 2) (reg vm 3)))
      else if i = MAP_DELETE_ELEM
      then (case registry_map (maps vm) (unat (reg vm 1)) of
              None \<Rightarrow> Some (Inr 1, vm)
            | Some m \<Rightarrow> put (map_delete (mem vm) m (reg vm 2)))
      else if i = KTIME_GET_NS then Some (Inr (uptime_ms env * 1000000), vm)
      else if i = GET_CURRENT_PID_TGID
      then Some (Inr (case cpu_current_pid env of None \<Rightarrow> 0 | Some p \<Rightarrow> p), vm)
      else if i = GET_SMP_PROCESSOR_ID then Some (Inr (cpu_id env), vm)
      else if i = GET_CURRENT_COMM then Some (Inr 0, helper_comm vm)
      else if i = PROBE_READ then map_option (\<lambda>vm. (Inr 0, vm)) (helper_probe_read vm)
      else if i = TRACE_PRINTK then Some (Inr 0, vm)
      else if i = TAIL_CALL then map_option (\<lambda>r. (r, vm)) (helper_tail_call env vm)
      else Some (Inl ExecutionError, vm))"

section \<open>Execution\<close>

datatype bpf_outcome = Next u64 bpf_vm | Done "bpf_error + u64" bpf_vm | Tail u64 bpf_vm | Panic

definition exec_load :: "u64 \<Rightarrow> bpf_insn \<Rightarrow> nat \<Rightarrow> bpf_vm \<Rightarrow> bpf_outcome" where
  "exec_load pc insn w vm =
     (let addr = reg vm (src_reg insn) + scast (off insn)
      in case validate_mem_access vm addr (of_nat w) of
           Inl e \<Rightarrow> Done (Inl e) vm
         | Inr _ \<Rightarrow> Next (pc + 1) (set_reg vm (dst_reg insn) (le_word (read_mem (mem vm) addr w))))"

definition exec_store :: "u64 \<Rightarrow> bpf_insn \<Rightarrow> bytes \<Rightarrow> bpf_vm \<Rightarrow> bpf_outcome" where
  "exec_store pc insn bs vm =
     (let addr = reg vm (dst_reg insn) + scast (off insn)
      in case validate_mem_access vm addr (of_nat (length bs)) of
           Inl e \<Rightarrow> Done (Inl e) vm
         | Inr _ \<Rightarrow> Next (pc + 1) (vm\<lparr>mem := write_mem (mem vm) addr bs\<rparr>))"

definition exec_call :: "bpf_env \<Rightarrow> u64 \<Rightarrow> bpf_insn \<Rightarrow> bpf_vm \<Rightarrow> bpf_outcome" where
  "exec_call env pc insn vm =
     (case call_helper env vm (imm insn) of
        None \<Rightarrow> Panic
      | Some (Inl (TailCall p), vm) \<Rightarrow> Tail p vm
      | Some (Inl e, vm) \<Rightarrow> Done (Inl e) vm
      | Some (Inr v, vm) \<Rightarrow> Next (pc + 1) (set_reg vm 0 v))"

definition exec_ld_imm64 :: "bpf_insn list \<Rightarrow> u64 \<Rightarrow> bpf_insn \<Rightarrow> bpf_vm \<Rightarrow> bpf_outcome" where
  "exec_ld_imm64 prog pc insn vm =
     (if unat pc + 1 \<ge> length prog then Done (Inl ExecutionError) vm
      else let next = prog ! (unat pc + 1);
               v = (ucast (imm insn) :: u64) OR push_bit 32 (imm64 next)
           in Next (pc + 2) (set_reg vm (dst_reg insn) v))"

definition exec_insn :: "bpf_env \<Rightarrow> bpf_insn list \<Rightarrow> u64 \<Rightarrow> bpf_vm \<Rightarrow> bpf_outcome" where
  "exec_insn env prog pc vm =
     (let insn = prog ! unat pc
      in if dst_reg insn \<ge> 11 \<or> src_reg insn \<ge> 11 then Done (Inl BpfOutOfBounds) vm
         else if code insn = LD_IMM_64 then exec_ld_imm64 prog pc insn vm
         else case alu insn vm of
           Some (Inl e) \<Rightarrow> Done (Inl e) vm
         | Some (Inr v) \<Rightarrow> Next (pc + 1) (set_reg vm (dst_reg insn) v)
         | None \<Rightarrow>
             (case jmp insn vm of
                Some taken \<Rightarrow> Next ((if taken then jump_pc pc insn else pc) + 1) vm
              | None \<Rightarrow>
                  (case load_width insn of
                     Some w \<Rightarrow> exec_load pc insn w vm
                   | None \<Rightarrow>
                       (case store_bytes insn vm of
                          Some bs \<Rightarrow> exec_store pc insn bs vm
                        | None \<Rightarrow>
                            if code insn = CALL then exec_call env pc insn vm
                            else if code insn = RET then Done (Inr (reg vm 0)) vm
                            else Done (Inl ExecutionError) vm))))"

definition MAX_INSTRUCTIONS :: nat where "MAX_INSTRUCTIONS = 1000000"
definition MAX_TAIL_CALLS :: nat where "MAX_TAIL_CALLS = 32"

text \<open>\<open>tails\<close> and \<open>insts\<close> are the tail calls and instructions still allowed.\<close>

function exec_loop ::
  "bpf_env \<Rightarrow> bpf_insn list \<Rightarrow> nat \<Rightarrow> nat \<Rightarrow> u64 \<Rightarrow> bpf_vm \<Rightarrow> ((bpf_error + u64) \<times> bpf_vm) option" where
  "exec_loop env prog tails insts pc vm =
     (if unat pc < length prog then
        (case insts of
           0 \<Rightarrow> Some (Inl ExecutionError, vm)
         | Suc n \<Rightarrow>
             (case exec_insn env prog pc vm of
                Next pc' vm' \<Rightarrow> exec_loop env prog tails n pc' vm'
              | Done r vm' \<Rightarrow> Some (r, vm')
              | Panic \<Rightarrow> None
              | Tail p vm' \<Rightarrow>
                  (case tails of
                     0 \<Rightarrow> Some (Inl ExecutionError, vm')
                   | Suc t \<Rightarrow>
                       (case prog_at env p of
                          None \<Rightarrow> None
                        | Some prog' \<Rightarrow> exec_loop env prog' t MAX_INSTRUCTIONS 0 vm'))))
      else Some (Inl ExecutionError, vm))"
  by auto
termination
  by (relation "measures [\<lambda>(env, prog, tails, insts, pc, vm). tails, \<lambda>(env, prog, tails, insts, pc, vm). insts]")
     auto

declare exec_loop.simps [simp del]

definition execute :: "bpf_env \<Rightarrow> bpf_insn list \<Rightarrow> bpf_vm \<Rightarrow> ((bpf_error + u64) \<times> bpf_vm) option" where
  "execute env prog vm = exec_loop env prog MAX_TAIL_CALLS MAX_INSTRUCTIONS 0 vm"

record syscall_info =
  sc_number :: u64
  sc_args :: "u64 list"
  sc_retval :: u64

definition syscall_registers :: "u64 list \<Rightarrow> syscall_info \<Rightarrow> u64 list" where
  "syscall_registers rs sc =
     rs[0 := 0, 1 := sc_number sc, 2 := sc_args sc ! 0, 3 := sc_args sc ! 1, 4 := sc_args sc ! 2,
        5 := sc_args sc ! 3, 6 := sc_args sc ! 4, 7 := sc_args sc ! 5, 8 := sc_retval sc]"

definition execute_with_syscall_context ::
  "bpf_env \<Rightarrow> bpf_insn list \<Rightarrow> syscall_info \<Rightarrow> bpf_vm \<Rightarrow> ((bpf_error + u64) \<times> bpf_vm) option" where
  "execute_with_syscall_context env prog sc vm =
     execute env prog (vm\<lparr>registers := (syscall_registers (registers vm) sc)[10 := 0]\<rparr>)"

section \<open>Attachments\<close>

datatype tracepoint_type = SyscallEntry | SyscallExit | SchedSwitchTp | PageFaultTp | IrqEntry

datatype tracepoint_ctx =
  SyscallCtx syscall_info | SchedSwitch u64 u64 | PageFault u64 u64 | Irq u8

record bpf_program =
  instructions :: "bpf_insn list"
  refs :: u32

definition program_new :: "bpf_insn list \<Rightarrow> bpf_program" where
  "program_new insns = \<lparr>instructions = insns, refs = 1\<rparr>"

definition inc_ref :: "bpf_program \<Rightarrow> bpf_program" where
  "inc_ref p = p\<lparr>refs := refs p + 1\<rparr>"

definition dec_ref :: "bpf_program \<Rightarrow> bool \<times> bpf_program" where
  "dec_ref p = (refs p = 1, p\<lparr>refs := refs p - 1\<rparr>)"

type_synonym attachments = "(tracepoint_type \<times> bpf_program) list"

definition attach :: "attachments \<Rightarrow> tracepoint_type \<Rightarrow> bpf_program \<Rightarrow> (bpf_error + nat) \<times> attachments" where
  "attach es tp prog =
     (case verify (instructions prog) of
        Inl e \<Rightarrow> (Inl e, es)
      | Inr _ \<Rightarrow> let es = es @ [(tp, inc_ref prog)] in (Inr (length es - 1), es))"

definition detach :: "attachments \<Rightarrow> nat \<Rightarrow> bool \<times> attachments" where
  "detach es i = (if i < length es then (True, take i es @ drop (Suc i) es) else (False, es))"

definition ctx_registers :: "u64 list \<Rightarrow> tracepoint_ctx \<Rightarrow> u64 list" where
  "ctx_registers rs ctx =
     (case ctx of
        SyscallCtx sc \<Rightarrow> syscall_registers rs sc
      | SchedSwitch prev next \<Rightarrow> rs[1 := prev, 2 := next]
      | PageFault addr err \<Rightarrow> rs[1 := addr, 2 := err]
      | Irq vector \<Rightarrow> rs[1 := ucast vector])"

text \<open>\<open>sp\<close> is the address of the machine's stack array in the frame of \<open>run\<close>.\<close>

fun run_attached ::
  "bpf_env \<Rightarrow> u64 \<Rightarrow> tracepoint_type \<Rightarrow> tracepoint_ctx \<Rightarrow> attachments \<Rightarrow> kmem \<Rightarrow> bpf_map list \<Rightarrow>
   (bool \<times> kmem \<times> bpf_map list) option" where
  "run_attached env sp tp ctx [] m ms = Some (False, m, ms)"
| "run_attached env sp tp ctx ((t, prog) # es) m ms =
     (if t \<noteq> tp then run_attached env sp tp ctx es m ms
      else let vm = vm_new sp m ms;
               vm = vm\<lparr>registers := ctx_registers (registers vm) ctx\<rparr>
           in case execute env (instructions prog) vm of
                None \<Rightarrow> None
              | Some (r, vm) \<Rightarrow>
                  map_option (\<lambda>(any, m, ms). (any \<or> (case r of Inr _ \<Rightarrow> True | Inl _ \<Rightarrow> False), m, ms))
                    (run_attached env sp tp ctx es (mem vm) (maps vm)))"

end
