(* ===== verification/Ziqa_Bpf_Props.thy ===== *)
theory Ziqa_Bpf_Props
  imports Ziqa_Bpf_Vm
begin

text \<open>
  Properties of the eBPF verifier and machine: the stack window confines what a program
  writes, what the verifier establishes of the instructions it walks over, and the programs
  it accepts although its description excludes them.
\<close>

section \<open>The stack window\<close>

definition in_window :: "bpf_vm \<Rightarrow> u64 \<Rightarrow> bool" where
  "in_window vm a \<longleftrightarrow> stack_start vm \<le> a \<and> a < stack_base vm"

text \<open>Two machine states with the same window and the same memory outside it.\<close>

definition same_outside :: "bpf_vm \<Rightarrow> bpf_vm \<Rightarrow> bool" where
  "same_outside vm vm' \<longleftrightarrow>
     stack_base vm' = stack_base vm \<and> (\<forall>a. \<not> in_window vm a \<longrightarrow> mem vm' a = mem vm a)"

lemma in_window_cong: "stack_base vm' = stack_base vm \<Longrightarrow> in_window vm' a = in_window vm a"
  by (simp add: in_window_def stack_start_def)

lemma same_outside_refl [simp]: "same_outside vm vm"
  by (simp add: same_outside_def)

lemma same_outside_trans [trans]:
  "same_outside a b \<Longrightarrow> same_outside b c \<Longrightarrow> same_outside a c"
  unfolding same_outside_def by (metis in_window_cong)

lemma same_outside_set_reg [simp]: "same_outside vm (set_reg vm' r v) = same_outside vm vm'"
  by (simp add: same_outside_def set_reg_def)

lemma same_outside_maps [simp]: "same_outside vm (vm'\<lparr>maps := ms\<rparr>) = same_outside vm vm'"
  by (simp add: same_outside_def)

lemma same_outside_registers [simp]:
  "same_outside vm (vm'\<lparr>registers := rs\<rparr>) = same_outside vm vm'"
  by (simp add: same_outside_def)

lemma is_stack_ptr_window:
  assumes "is_stack_ptr vm addr n" "stack_base vm \<noteq> - 1" "unat (a - addr) < unat n"
  shows "in_window vm a"
proof -
  have le: "stack_start vm \<le> addr" "saturating_add addr n \<le> stack_base vm"
    using assms(1) by (auto simp: is_stack_ptr_def Let_def not_less split: if_splits)
  have "saturating_add addr n \<noteq> - 1"
    using le(2) assms(2) by (metis word_order.extremum_uniqueI)
  then have nowrap: "unat addr + unat n < 2 ^ 64" and sum: "saturating_add addr n = addr + n"
    by (auto simp: saturating_add_def split: if_splits)
  have "unat addr + unat n \<le> unat (stack_base vm)"
    using le(2) nowrap unfolding sum by (simp add: word_le_nat_alt unat_add_nowrap)
  moreover have "unat a = unat addr + unat (a - addr)"
    using unat_add_nowrap [of addr "a - addr"] assms(3) nowrap by simp
  ultimately show ?thesis
    using assms(3) le(1) by (simp add: in_window_def word_le_nat_alt word_less_nat_alt)
qed

lemma write_window:
  assumes "is_stack_ptr vm addr (of_nat (length bs))" "stack_base vm \<noteq> - 1" "length bs < 2 ^ 64"
  shows "same_outside vm (vm\<lparr>mem := write_mem (mem vm) addr bs\<rparr>)"
  using is_stack_ptr_window [OF assms(1,2)] assms(3)
  by (auto simp: same_outside_def write_mem_def unat_of_nat take_bit_nat_eq_self)

lemma validate_ok [simp]: "validate_mem_access vm a n = Inr u \<longleftrightarrow> is_stack_ptr vm a n"
  by (simp add: validate_mem_access_def)

section \<open>Programs write only to their window\<close>

text \<open>The helper \<open>GET_CURRENT_COMM\<close> is excluded: it checks less than it writes.\<close>

definition no_comm :: "bpf_insn list \<Rightarrow> bool" where
  "no_comm prog \<longleftrightarrow> (\<forall>insn \<in> set prog. code insn = CALL \<longrightarrow> imm insn \<noteq> GET_CURRENT_COMM)"

fun outcome_vm :: "bpf_outcome \<Rightarrow> bpf_vm option" where
  "outcome_vm (Next pc vm) = Some vm"
| "outcome_vm (Done r vm) = Some vm"
| "outcome_vm (Tail p vm) = Some vm"
| "outcome_vm Panic = None"

lemma probe_read_window:
  assumes "helper_probe_read vm = Some vm'" "stack_base vm \<noteq> - 1"
  shows "same_outside vm vm'"
proof (cases "vm' = vm")
  case False
  define n where "n = min (unat (reg vm 2)) 512"
  have n: "n < 2 ^ 64" by (simp add: n_def)
  have "is_stack_ptr vm (reg vm 1) (of_nat n)"
    and "vm' = vm\<lparr>mem := write_mem (mem vm) (reg vm 1) (read_mem (mem vm) (reg vm 3) n)\<rparr>"
    using assms(1) False
    by (auto simp: helper_probe_read_def copy_nonoverlapping_def Let_def n_def split: if_splits)
  with write_window [of vm "reg vm 1" "read_mem (mem vm) (reg vm 3) n"] assms(2) n
  show ?thesis by simp
qed simp

lemma call_helper_window:
  assumes "call_helper env vm i = Some (r, vm')" "i \<noteq> GET_CURRENT_COMM" "stack_base vm \<noteq> - 1"
  shows "same_outside vm vm'"
  using assms
  by (auto simp: call_helper_def Let_def dest: probe_read_window split: if_splits option.splits)

lemma exec_store_window:
  assumes "store_bytes insn vm = Some bs" "stack_base vm \<noteq> - 1"
    "outcome_vm (exec_store pc insn bs vm) = Some vm'"
  shows "same_outside vm vm'"
proof -
  have "length bs < 2 ^ 64"
    using assms(1) by (auto simp: store_bytes_def Let_def split: if_splits)
  then show ?thesis
    using assms(2,3) write_window
    by (auto simp: exec_store_def Let_def split: sum.splits)
qed

lemma exec_call_window:
  assumes "imm insn \<noteq> GET_CURRENT_COMM" "stack_base vm \<noteq> - 1"
    "outcome_vm (exec_call env pc insn vm) = Some vm'"
  shows "same_outside vm vm'"
  using assms
  by (auto simp: exec_call_def dest: call_helper_window
      split: option.splits prod.splits sum.splits bpf_error.splits)

lemma exec_insn_window:
  assumes "code (prog ! unat pc) = CALL \<longrightarrow> imm (prog ! unat pc) \<noteq> GET_CURRENT_COMM"
    "stack_base vm \<noteq> - 1" "outcome_vm (exec_insn env prog pc vm) = Some vm'"
  shows "same_outside vm vm'"
  using assms exec_store_window exec_call_window
  by (auto simp: exec_insn_def exec_ld_imm64_def exec_load_def Let_def
      split: if_splits option.splits sum.splits)

lemma exec_loop_window:
  assumes "exec_loop env prog tails insts pc vm = Some (r, vm')" "no_comm prog"
    "\<And>p q. prog_at env p = Some q \<Longrightarrow> no_comm q" "stack_base vm \<noteq> - 1"
  shows "same_outside vm vm'"
  using assms
proof (induction env prog tails insts pc vm rule: exec_loop.induct)
  case (1 env prog tails insts pc vm)
  show ?case
  proof (cases "unat pc < length prog \<and> insts \<noteq> 0")
    case False
    then show ?thesis using 1(3) by (auto simp: exec_loop.simps split: if_splits nat.splits)
  next
    case True
    then obtain n where n: "insts = Suc n" and pc: "unat pc < length prog" by (cases insts) auto
    have safe: "code (prog ! unat pc) = CALL \<longrightarrow> imm (prog ! unat pc) \<noteq> GET_CURRENT_COMM"
      using 1(4) pc by (simp add: no_comm_def)
    note step = exec_insn_window [OF safe 1(6), of env]
    show ?thesis
    proof (cases "exec_insn env prog pc vm")
      case (Next pc' vm1)
      then have s: "same_outside vm vm1" using step by simp
      have run: "exec_loop env prog tails n pc' vm1 = Some (r, vm')"
        using 1(3) pc n Next by (simp add: exec_loop.simps [of env prog tails "Suc n"])
      have "same_outside vm1 vm'"
        using 1(1) [OF pc n Next run] 1(4-6) s by (simp add: same_outside_def)
      with s show ?thesis by (rule same_outside_trans)
    next
      case (Done r' vm1)
      then show ?thesis using 1(3) step pc n by (simp add: exec_loop.simps)
    next
      case (Tail p vm1)
      then have s: "same_outside vm vm1" using step by simp
      show ?thesis
      proof (cases tails)
        case 0
        then show ?thesis using 1(3) Tail pc n s by (simp add: exec_loop.simps)
      next
        case (Suc t)
        with 1(3) Tail pc n obtain q where q: "prog_at env p = Some q"
          and run: "exec_loop env q t MAX_INSTRUCTIONS 0 vm1 = Some (r, vm')"
          by (auto simp: exec_loop.simps [of env prog "Suc t" "Suc n"] split: option.splits)
        have "same_outside vm1 vm'"
          using 1(2) [OF pc n Tail Suc q run] 1(5) q s 1(6) by (simp add: same_outside_def)
        with s show ?thesis by (rule same_outside_trans)
      qed
    next
      case Panic
      then show ?thesis using 1(3) pc n by (simp add: exec_loop.simps)
    qed
  qed
qed

lemma vm_new_window:
  assumes "unat sp + 512 < 2 ^ 64 - 1"
  shows "unat (sp + 512) = unat sp + 512" "stack_base (vm_new sp m ms) = sp + 512"
    "stack_start (vm_new sp m ms) = sp" "sp + 512 \<noteq> - 1"
proof -
  show u: "unat (sp + 512) = unat sp + 512"
    using unat_add_nowrap [of sp 512] assms by simp
  show "stack_base (vm_new sp m ms) = sp + 512" "stack_start (vm_new sp m ms) = sp"
    by (simp_all add: vm_new_def stack_start_def saturating_sub_def word_le_nat_alt u)
  have "unat (- 1 :: u64) = 2 ^ 64 - 1" by (simp add: unsigned_minus_1_eq_mask mask_eq_exp_minus_1)
  then show "sp + 512 \<noteq> - 1" using u assms by (metis less_irrefl)
qed

lemma run_attached_window:
  assumes "run_attached env sp tp ctx es m ms = Some (any, m', ms')"
    "\<forall>(t, p) \<in> set es. no_comm (instructions p)"
    "\<And>p q. prog_at env p = Some q \<Longrightarrow> no_comm q"
    "unat sp + 512 < 2 ^ 64 - 1" "512 \<le> unat (a - sp)"
  shows "m' a = m a"
  using assms(1,2)
proof (induction es arbitrary: m ms any)
  case (Cons e es)
  obtain t prog where e: "e = (t, prog)" by (cases e)
  show ?case
  proof (cases "t = tp")
    case False
    then show ?thesis using Cons by (simp add: e)
  next
    case True
    define vm where "vm = (vm_new sp m ms)\<lparr>registers := ctx_registers (registers (vm_new sp m ms)) ctx\<rparr>"
    from Cons.prems(1) True obtain r vm1 any' where
      ex: "execute env (instructions prog) vm = Some (r, vm1)"
      and rest: "run_attached env sp tp ctx es (mem vm1) (maps vm1) = Some (any', m', ms')"
      by (auto simp: e Let_def vm_def split: option.splits)
    note w = vm_new_window [OF assms(4)]
    have base: "stack_base vm = sp + 512" "stack_start vm = sp"
      using w by (simp_all add: vm_def stack_start_def)
    have "stack_base vm \<noteq> - 1" using w by (simp add: base)
    then have same: "same_outside vm vm1"
      using exec_loop_window [OF ex [unfolded execute_def]] Cons.prems(2) assms(3) by (simp add: e)
    have "\<not> in_window vm a"
      using assms(5) w(1)
      by (auto simp: in_window_def base word_le_nat_alt word_less_nat_alt unat_sub_le)
    then have "mem vm1 a = mem vm a" using same by (simp add: same_outside_def)
    also have "\<dots> = m a" using assms(5) by (simp add: vm_def vm_new_def write_mem_def)
    finally show ?thesis using Cons.IH [OF rest] Cons.prems(2) by (simp add: e)
  qed
qed simp


section \<open>What the verifier establishes\<close>

text \<open>The positions the verifier looks at: it skips the second word of \<open>LD_IMM_64\<close>.\<close>

function insn_starts :: "bpf_insn list \<Rightarrow> nat \<Rightarrow> nat list" where
  "insn_starts prog i =
     (if i < length prog then i # insn_starts prog (i + (if code (prog ! i) = LD_IMM_64 then 2 else 1))
      else [])"
  by auto
termination by (relation "measure (\<lambda>(prog, i). length prog - i)") auto

declare insn_starts.simps [simp del]

definition insn_checked :: "bpf_insn list \<Rightarrow> nat \<Rightarrow> bool" where
  "insn_checked prog i \<longleftrightarrow>
     (let insn = prog ! i
      in i < length prog \<and> dst_reg insn < 11 \<and> src_reg insn < 11 \<and>
         (code insn = LD_IMM_64 \<longrightarrow> i + 1 < length prog) \<and>
         (code insn \<noteq> LD_IMM_64 \<and> is_jump insn \<longrightarrow>
            0 \<le> jump_target i insn \<and> jump_target i insn < int (length prog)) \<and>
         (code insn \<noteq> LD_IMM_64 \<and> is_mem_access insn \<longrightarrow>
            is_stack_access insn \<and> -512 \<le> sint (off insn) \<and> sint (off insn) \<le> 0))"

lemma verify_from_step:
  assumes "verify_from prog i = Inr u" "i < length prog"
  shows "insn_checked prog i"
    and "verify_from prog (i + (if code (prog ! i) = LD_IMM_64 then 2 else 1)) = Inr u"
proof -
  note v = assms(1) [unfolded verify_from.simps [of prog i] Let_def if_P [OF assms(2)]]
  show "insn_checked prog i"
    using v assms(2) by (simp add: insn_checked_def Let_def not_le not_less split: if_split_asm)
  show "verify_from prog (i + (if code (prog ! i) = LD_IMM_64 then 2 else 1)) = Inr u"
    using v by (simp split: if_split_asm)
qed

lemma verify_from_checked:
  "verify_from prog i = Inr u \<Longrightarrow> j \<in> set (insn_starts prog i) \<Longrightarrow> insn_checked prog j"
proof (induction prog i rule: insn_starts.induct)
  case (1 prog i)
  then show ?case
    using verify_from_step [of prog i u] insn_starts.simps [of prog i]
    by (cases "i < length prog") auto
qed

lemma jmp_is_jump: "jmp insn vm = Some t \<Longrightarrow> is_jump insn"
  by (auto simp: jmp_def is_jump_def Let_def op_defs split: if_splits)

lemma jump_pc_target:
  assumes "unat pc < 4096" "0 \<le> jump_target (unat pc) insn" "jump_target (unat pc) insn \<le> 4096"
  shows "int (unat (jump_pc pc insn + 1)) = jump_target (unat pc) insn"
proof -
  define x where "x = int (unat pc) + sint (off insn)"
  have x: "-1 \<le> x" "x < 4096" using assms by (auto simp: x_def jump_target_def)
  have w: "(ucast pc :: u32) + scast (off insn) = word_of_int x"
    unfolding x_def of_int_add ucast_eq scast_eq uint_nat by (rule refl)
  have "sint (word_of_int x :: u32) = x"
    unfolding sint_sbintrunc' using x by (intro signed_take_bit_int_eq_self) simp_all
  then have "jump_pc pc insn + 1 = word_of_int (x + 1)"
    unfolding jump_pc_def w by (simp add: scast_eq)
  moreover have "int (unat (word_of_int (x + 1) :: u64)) = x + 1"
    unfolding uint_nat [symmetric] uint_word_of_int using x by (intro mod_pos_pos_trivial) simp_all
  ultimately show ?thesis by (simp only: x_def jump_target_def)
qed

lemma unat_pc_plus: "unat pc < 4096 \<Longrightarrow> n < 4096 \<Longrightarrow> unat (pc + of_nat n :: u64) = unat pc + n"
  using unat_add_nowrap [of pc "of_nat n"] by (simp add: unat_of_nat take_bit_nat_eq_self)

lemma verified_step:
  assumes "insn_checked prog (unat pc)" "length prog \<le> 4096"
    "exec_insn env prog pc vm = Next pc' vm'"
  shows "unat pc' \<le> length prog"
proof -
  let ?insn = "prog ! unat pc"
  have pc: "unat pc < length prog" "unat pc < 4096"
    using assms(1,2) by (auto simp: insn_checked_def Let_def)
  have one: "unat (pc + 1) = unat pc + 1" using unat_pc_plus [OF pc(2), of 1] by simp
  have two: "unat (pc + 2) = unat pc + 2" using unat_pc_plus [OF pc(2), of 2] by simp
  consider "pc' = pc + 1" | "pc' = pc + 2" "unat pc + 1 < length prog"
    | t where "jmp ?insn vm = Some t" "code ?insn \<noteq> LD_IMM_64" "pc' = jump_pc pc ?insn + 1"
    using assms(3)
    by (auto simp: exec_insn_def exec_ld_imm64_def exec_load_def exec_store_def exec_call_def Let_def
        split: if_splits option.splits sum.splits prod.splits bpf_error.splits)
  then show ?thesis
  proof cases
    case 3
    then have t: "0 \<le> jump_target (unat pc) ?insn" "jump_target (unat pc) ?insn < int (length prog)"
      using assms(1) jmp_is_jump by (auto simp: insn_checked_def Let_def)
    then have "jump_target (unat pc) ?insn \<le> 4096" using assms(2) by linarith
    from jump_pc_target [OF pc(2) t(1) this] have "int (unat pc') = jump_target (unat pc) ?insn"
      unfolding 3(3) .
    then show ?thesis using t(2) by linarith
  qed (use pc one two in simp_all)
qed


section \<open>Accepted programs that misbehave\<close>

text \<open>A jump to itself, with an exit instruction that is never reached.\<close>

definition spin_prog :: "bpf_insn list" where
  "spin_prog = [\<lparr>code = JMP_JA, regs = 0, off = - 1, imm = 0\<rparr>, \<lparr>code = RET, regs = 0, off = 0, imm = 0\<rparr>]"

lemma spin_step: "exec_insn env spin_prog 0 vm = Next 0 vm"
  by (simp add: exec_insn_def spin_prog_def dst_reg_def src_reg_def alu_def jmp_def Let_def op_defs
      jump_pc_def)

lemma spin_loop: "exec_loop env spin_prog tails insts 0 vm = Some (Inl ExecutionError, vm)"
proof (induction insts)
  case 0
  then show ?case by (simp add: exec_loop.simps)
next
  case (Suc n)
  then show ?case
    using exec_loop.simps [of env spin_prog tails "Suc n" 0 vm]
    by (simp add: spin_step)
qed


text \<open>The second word of \<open>LD_IMM_64\<close> is not looked at, so a jump can reach an instruction in
  it that the verifier would reject: here a store relative to R1.\<close>

definition hidden_prog :: "bpf_insn list" where
  "hidden_prog =
     [\<lparr>code = JMP_JA, regs = 0, off = 1, imm = 0\<rparr>, \<lparr>code = LD_IMM_64, regs = 0, off = 0, imm = 0\<rparr>,
      \<lparr>code = STX_DW, regs = 1, off = 0, imm = 0\<rparr>, \<lparr>code = RET, regs = 0, off = 0, imm = 0\<rparr>]"

lemma hidden_instruction_accepted:
  "verify hidden_prog = Inr () \<and> exec_insn env hidden_prog 0 vm = Next 2 vm \<and>
   is_mem_access (hidden_prog ! 2) \<and> \<not> is_stack_access (hidden_prog ! 2)"
  by (simp add: verify_def MAX_INSNS_def verify_from.simps hidden_prog_def Let_def op_defs dst_reg_def
      src_reg_def is_jump_def jump_target_def is_mem_access_def is_stack_access_def exec_insn_def
      alu_def jmp_def jump_pc_def)

text \<open>(C39) \<open>GET_CURRENT_COMM\<close> writes outside the stack: with the buffer at the last ten bytes of
  the window and a size of 512, the check of the ten copied bytes passes and the helper then
  clears the 502 bytes that follow the stack.\<close>

theorem comm_helper_escapes:
  assumes "reg vm 1 = stack_base vm - 10" "reg vm 2 = 512"
    "512 \<le> unat (stack_base vm)" "unat (stack_base vm) < 2 ^ 64 - 512"
  shows "\<exists>vm'. call_helper env vm GET_CURRENT_COMM = Some (Inr 0, vm') \<and>
           (\<forall>i < 502. \<not> in_window vm (stack_base vm + of_nat i) \<and> mem vm' (stack_base vm + of_nat i) = 0)"
proof -
  let ?b = "stack_base vm"
  have u: "unat (?b - 10) = unat ?b - 10"
    using assms(3) by (subst unat_sub_le) (simp_all add: word_le_nat_alt)
  have start: "unat (stack_start vm) = unat ?b - 512"
    by (simp add: stack_start_def unat_saturating_sub)
  have ptr: "is_stack_ptr vm (?b - 10) 10"
    using assms(3,4) u start
    by (auto simp: is_stack_ptr_def Let_def saturating_add_def word_less_nat_alt word_le_nat_alt)
  have "call_helper env vm GET_CURRENT_COMM = Some (Inr 0, helper_comm vm)"
    by (simp add: call_helper_def helper_defs Let_def)
  moreover have "mem (helper_comm vm) (?b + of_nat i) = 0" if "i < 502" for i
    using that ptr assms(1,2)
    by (simp add: helper_comm_def Let_def COMM_def write_mem_def validate_mem_access_def unat_of_nat
        take_bit_nat_eq_self)
  moreover have "\<not> in_window vm (?b + of_nat i)" if "i < 502" for i
  proof -
    have "unat (?b + of_nat i) = unat ?b + i"
      using that assms(4) unat_add_nowrap [of ?b "of_nat i"]
      by (simp add: unat_of_nat take_bit_nat_eq_self)
    then show ?thesis by (simp add: in_window_def word_less_nat_alt)
  qed
  ultimately show ?thesis by blast
qed

text \<open>A read of the last word of the stack.\<close>

definition peek_prog :: "bpf_insn list" where
  "peek_prog = [\<lparr>code = LDX_DW, regs = 0xA0, off = - 8, imm = 0\<rparr>, \<lparr>code = RET, regs = 0, off = 0, imm = 0\<rparr>]"

lemma le_word_zeros: "le_word (replicate n 0) = 0"
  by (induction n) simp_all

lemma peek_steps:
  "exec_insn env peek_prog 0 vm = exec_load 0 (peek_prog ! 0) 8 vm"
  "exec_insn env peek_prog 1 vm = Done (Inr (reg vm 0)) vm"
  by (simp_all add: exec_insn_def peek_prog_def dst_reg_def src_reg_def alu_def jmp_def load_width_def
      store_bytes_def Let_def op_defs)

lemma peek_load:
  "exec_load 0 (peek_prog ! 0) 8 vm =
     (if is_stack_ptr vm (reg vm 10 - 8) 8
      then Next 1 (set_reg vm 0 (le_word (read_mem (mem vm) (reg vm 10 - 8) 8)))
      else Done (Inl BpfOutOfBounds) vm)"
  by (simp add: exec_load_def peek_prog_def src_reg_def dst_reg_def validate_mem_access_def Let_def)

lemma peek_execute:
  assumes "registers vm \<noteq> []"
  shows "\<exists>vm'. execute env peek_prog vm =
           Some (if is_stack_ptr vm (reg vm 10 - 8) 8
                 then Inr (le_word (read_mem (mem vm) (reg vm 10 - 8) 8)) else Inl BpfOutOfBounds, vm')"
proof -
  obtain n where n: "MAX_INSTRUCTIONS = Suc (Suc n)"
    by (rule that [of 999998]) (simp add: MAX_INSTRUCTIONS_def)
  have len: "length peek_prog = 2" by (simp add: peek_prog_def)
  have last: "exec_loop env peek_prog t (Suc n) 1 vm = Some (Inr (reg vm 0), vm)" for t vm
    by (subst exec_loop.simps) (simp add: len peek_steps)
  show ?thesis
    unfolding execute_def n exec_loop.simps [of env peek_prog MAX_TAIL_CALLS "Suc (Suc n)"]
    using assms by (simp add: len peek_steps peek_load last) (simp add: reg_def set_reg_def)
qed

text \<open>A machine started through \<open>execute_with_syscall_context\<close> has no stack: on a fresh
  machine a verified program that reads its stack returns the stored 0, but with the syscall
  context R10 is 0 and the same program fails with an out-of-bounds error.\<close>

theorem syscall_context_loses_stack:
  assumes "unat sp + 512 < 2 ^ 64 - 1"
  shows "verify peek_prog = Inr () \<and>
         (\<exists>vm'. execute env peek_prog (vm_new sp m ms) = Some (Inr 0, vm')) \<and>
         (\<exists>vm'. execute_with_syscall_context env peek_prog sc (vm_new sp m ms) =
            Some (Inl BpfOutOfBounds, vm'))"
proof (intro conjI)
  let ?vm = "vm_new sp m ms"
  let ?vm' = "?vm\<lparr>registers := (syscall_registers (registers ?vm) sc)[10 := 0]\<rparr>"
  note w = vm_new_window [OF assms]
  show "verify peek_prog = Inr ()"
    by (simp add: verify_def MAX_INSNS_def verify_from.simps peek_prog_def Let_def op_defs dst_reg_def
        src_reg_def is_jump_def is_mem_access_def is_stack_access_def)
  have at: "unat (sp + 504) = unat sp + 504"
    using unat_add_nowrap [of sp 504] assms by simp
  have ptr: "reg ?vm 10 - 8 = sp + 504" by (simp add: reg_def vm_new_def)
  have "unat (sp + 504) + unat (8 :: u64) < 2 ^ 64" using assms at by simp
  then have "saturating_add (sp + 504) 8 = sp + 512" by (simp add: saturating_add_def)
  then have ok: "is_stack_ptr ?vm (sp + 504) 8"
    by (simp add: is_stack_ptr_def w(2,3) Let_def word_less_nat_alt w(1) at)
  have "read_mem (mem ?vm) (sp + 504) 8 = replicate 8 0"
    using unat_pc_plus [of 504]
    by (intro nth_equalityI) (simp_all add: read_mem_def vm_new_def write_mem_def)
  then have "le_word (read_mem (mem ?vm) (sp + 504) 8) = (0 :: u64)"
    by (simp only: le_word_zeros)
  moreover have "registers ?vm \<noteq> []" by (simp add: vm_new_def)
  note peek_execute [OF this, of env, unfolded ptr if_P [OF ok]]
  ultimately show "\<exists>vm'. execute env peek_prog ?vm = Some (Inr 0, vm')" by simp
  have sat: "saturating_add (- 8) 8 = (- 1 :: u64)" by (simp add: saturating_add_def)
  have "reg ?vm' 10 - 8 = - 8" by (simp add: reg_def syscall_registers_def vm_new_def)
  moreover have "\<not> - 1 \<le> stack_base ?vm'"
    using w(2,4) word_order.extremum_uniqueI [of "sp + 512"] by auto
  ultimately have bad: "\<not> is_stack_ptr ?vm' (reg ?vm' 10 - 8) 8"
    by (simp only: is_stack_ptr_def sat Let_def if_cancel split: if_split) blast
  have "registers ?vm' \<noteq> []" by (simp add: syscall_registers_def vm_new_def)
  from peek_execute [OF this, of env]
  show "\<exists>vm'. execute_with_syscall_context env peek_prog sc ?vm = Some (Inl BpfOutOfBounds, vm')"
    unfolding execute_with_syscall_context_def if_not_P [OF bad] .
qed

section \<open>Concrete runs\<close>

definition demo_bpf_env :: bpf_env where
  "demo_bpf_env = \<lparr>uptime_ms = 5, cpu_current_pid = Some 1, cpu_id = 0, index_addr = 0, prog_at = (\<lambda>_. None)\<rparr>"

definition comm_vm :: bpf_vm where
  "comm_vm = \<lparr>registers = [0, 0x11F6, 512, 0, 0, 0, 0, 0, 0, 0, 0x1200], stack_base = 0x1200,
              mem = (\<lambda>_. 1), maps = []\<rparr>"



theorem comm_helper_escapes_witness:
  "\<exists>vm'. call_helper demo_bpf_env comm_vm GET_CURRENT_COMM = Some (Inr 0, vm') \<and>
         \<not> in_window comm_vm 0x1200 \<and> mem comm_vm 0x1200 = 1 \<and> mem vm' 0x1200 = 0"
proof -
  have "reg comm_vm 1 = stack_base comm_vm - 10" "reg comm_vm 2 = 512"
    "512 \<le> unat (stack_base comm_vm)" "unat (stack_base comm_vm) < 2 ^ 64 - 512"
    by (simp_all add: comm_vm_def reg_def)
  from comm_helper_escapes [OF this, of demo_bpf_env] obtain vm' where
    "call_helper demo_bpf_env comm_vm GET_CURRENT_COMM = Some (Inr 0, vm')"
    "\<forall>i < 502. \<not> in_window comm_vm (stack_base comm_vm + of_nat i) \<and>
               mem vm' (stack_base comm_vm + of_nat i) = 0" by blast
  then show ?thesis by (intro exI [of _ vm']) (auto simp: comm_vm_def dest: spec [of _ 0])
qed

theorem syscall_context_loses_stack_witness:
  "\<exists>vm'. execute_with_syscall_context demo_bpf_env peek_prog
           \<lparr>sc_number = 1, sc_args = [0, 0, 0, 0, 0, 0], sc_retval = 0\<rparr> (vm_new 0x1000 (\<lambda>_. 7) []) =
         Some (Inl BpfOutOfBounds, vm')"
  using syscall_context_loses_stack [of "0x1000" demo_bpf_env "\<lambda>_. 7" "[]"
      "\<lparr>sc_number = 1, sc_args = [0, 0, 0, 0, 0, 0], sc_retval = 0\<rparr>"] by simp

end
