(* ===== verification/Ziqa_Path.thy ===== *)
theory Ziqa_Path
  imports Ziqa_Prelude
begin

text \<open>
  Path handling of \<open>src/src/fs/mod.rs\<close>, with the string functions of the Rust library it
  uses.  A string is the list of its bytes as characters.  \<open>from_utf8\<close> checks the encoding
  the library checks.
\<close>

section \<open>Strings\<close>

text \<open>\<open>str::split('/')\<close>.\<close>

fun split_slash :: "string \<Rightarrow> string list" where
  "split_slash [] = [[]]"
| "split_slash (c # cs) =
     (if c = CHR ''/'' then [] # split_slash cs
      else case split_slash cs of [] \<Rightarrow> [[c]] | s # ss \<Rightarrow> (c # s) # ss)"

text \<open>\<open>[str]::join("/")\<close>.\<close>

fun join_slash :: "string list \<Rightarrow> string" where
  "join_slash [] = []"
| "join_slash [s] = s"
| "join_slash (s # t # ss) = s @ CHR ''/'' # join_slash (t # ss)"

definition trim_start :: "string \<Rightarrow> string" where
  "trim_start s = dropWhile (\<lambda>c. c = CHR ''/'') s"

definition trim_end :: "string \<Rightarrow> string" where
  "trim_end s = rev (dropWhile (\<lambda>c. c = CHR ''/'') (rev s))"

definition cont_byte :: "u8 \<Rightarrow> bool" where
  "cont_byte b \<longleftrightarrow> 0x80 \<le> b \<and> b \<le> 0xBF"

text \<open>The well-formed byte sequences of UTF-8.\<close>

fun utf8_valid :: "bytes \<Rightarrow> bool" where
  "utf8_valid [] = True"
| "utf8_valid (a # bs) =
     (if a < 0x80 then utf8_valid bs
      else case bs of
        [] \<Rightarrow> False
      | b # cs \<Rightarrow>
          if 0xC2 \<le> a \<and> a \<le> 0xDF then cont_byte b \<and> utf8_valid cs
          else (case cs of
            [] \<Rightarrow> False
          | c # ds \<Rightarrow>
              if 0xE0 \<le> a \<and> a \<le> 0xEF
              then cont_byte b \<and> cont_byte c \<and> (a = 0xE0 \<longrightarrow> 0xA0 \<le> b) \<and> (a = 0xED \<longrightarrow> b \<le> 0x9F) \<and>
                   utf8_valid ds
              else (case ds of
                [] \<Rightarrow> False
              | d # es \<Rightarrow>
                  0xF0 \<le> a \<and> a \<le> 0xF4 \<and> cont_byte b \<and> cont_byte c \<and> cont_byte d \<and>
                  (a = 0xF0 \<longrightarrow> 0x90 \<le> b) \<and> (a = 0xF4 \<longrightarrow> b \<le> 0x8F) \<and> utf8_valid es)))"

definition from_utf8 :: "bytes \<Rightarrow> string option" where
  "from_utf8 bs = (if utf8_valid bs then Some (map (\<lambda>b. char_of (unat b)) bs) else None)"

section \<open>Paths\<close>

definition norm_seg :: "string list \<Rightarrow> string \<Rightarrow> string list" where
  "norm_seg parts seg =
     (if seg = [] \<or> seg = ''.'' then parts
      else if seg = ''..'' then butlast parts
      else parts @ [seg])"

definition normalize_path :: "string \<Rightarrow> string" where
  "normalize_path path =
     (let parts = foldl norm_seg [] (split_slash path)
      in if parts = [] then ''/'' else CHR ''/'' # join_slash parts)"

text \<open>\<open>None\<close> is the panic of the slice when \<open>cwd_len\<close> exceeds the buffer.\<close>

definition resolve_path :: "bytes \<Rightarrow> nat \<Rightarrow> string \<Rightarrow> string option" where
  "resolve_path cwd cwd_len path =
     (if cwd_len > length cwd then None
      else let cwd_str = (case from_utf8 (take cwd_len cwd) of None \<Rightarrow> ''/'' | Some s \<Rightarrow> s)
           in if take 1 path = ''/'' then Some (normalize_path path)
              else Some (normalize_path
                (if cwd_str = ''/'' then CHR ''/'' # path
                 else trim_end cwd_str @ CHR ''/'' # path)))"

section \<open>Splitting and joining\<close>

abbreviation no_slash :: "string \<Rightarrow> bool" where
  "no_slash s \<equiv> CHR ''/'' \<notin> set s"

lemma split_slash_ne [simp]: "split_slash s \<noteq> []"
  by (induction s) (auto split: list.splits)

lemma split_slash_no_slash: "p \<in> set (split_slash s) \<Longrightarrow> no_slash p"
  by (induction s arbitrary: p) (auto split: if_splits list.splits)

lemma split_slash_id: "no_slash s \<Longrightarrow> split_slash s = [s]"
  by (induction s) auto

lemma split_slash_append: "split_slash (s @ CHR ''/'' # t) = split_slash s @ split_slash t"
  by (induction s) (auto split: list.splits)

lemma split_join:
  "parts \<noteq> [] \<Longrightarrow> \<forall>p \<in> set parts. no_slash p \<Longrightarrow> split_slash (join_slash parts) = parts"
  by (induction parts rule: join_slash.induct) (auto simp: split_slash_append split_slash_id)

lemma join_split: "join_slash (split_slash s) = s"
proof (induction s)
  case (Cons c s)
  then show ?case by (cases "split_slash s" rule: join_slash.cases) auto
qed simp

text \<open>The segments of a canonical path.\<close>

definition plain_seg :: "string \<Rightarrow> bool" where
  "plain_seg s \<longleftrightarrow> s \<noteq> [] \<and> s \<noteq> ''.'' \<and> s \<noteq> ''..'' \<and> no_slash s"

definition path_of :: "string list \<Rightarrow> string" where
  "path_of parts = CHR ''/'' # join_slash parts"

definition path_parts :: "string \<Rightarrow> string list" where
  "path_parts path = foldl norm_seg [] (split_slash path)"

lemma normalize_path_of: "normalize_path path = path_of (path_parts path)"
  by (simp add: normalize_path_def path_of_def path_parts_def Let_def)

lemma norm_seg_plain:
  "\<forall>p \<in> set acc. plain_seg p \<Longrightarrow> \<forall>p \<in> set segs. no_slash p \<Longrightarrow>
   \<forall>p \<in> set (foldl norm_seg acc segs). plain_seg p"
proof (induction segs arbitrary: acc)
  case (Cons s segs)
  have "\<forall>p \<in> set (norm_seg acc s). plain_seg p"
    using Cons.prems by (auto simp: norm_seg_def plain_seg_def dest: in_set_butlastD)
  then show ?case using Cons by simp
qed simp

lemma path_parts_plain: "p \<in> set (path_parts path) \<Longrightarrow> plain_seg p"
  unfolding path_parts_def
  using norm_seg_plain [of "[]" "split_slash path"] split_slash_no_slash by auto

lemma norm_seg_id: "\<forall>p \<in> set segs. plain_seg p \<Longrightarrow> foldl norm_seg acc segs = acc @ segs"
  by (induction segs arbitrary: acc) (auto simp: norm_seg_def plain_seg_def)

lemma split_path_of: "\<forall>p \<in> set parts. plain_seg p \<Longrightarrow>
   split_slash (path_of parts) = (if parts = [] then [[], []] else [] # parts)"
  using split_join [of parts] by (auto simp: path_of_def plain_seg_def)

lemma path_parts_path_of: "\<forall>p \<in> set parts. plain_seg p \<Longrightarrow> path_parts (path_of parts) = parts"
  by (auto simp: path_parts_def split_path_of norm_seg_id) (simp_all add: norm_seg_def norm_seg_id)

lemma path_parts_join: "path_parts (a @ CHR ''/'' # b) = foldl norm_seg (path_parts a) (split_slash b)"
  by (simp add: path_parts_def split_slash_append)

lemma path_parts_slash: "path_parts (a @ replicate n CHR ''/'') = path_parts a"
proof (induction n)
  case (Suc n)
  have "a @ replicate (Suc n) CHR ''/'' = (a @ replicate n CHR ''/'') @ CHR ''/'' # []"
    by (simp add: replicate_append_same)
  then show ?case using Suc path_parts_join [of "a @ replicate n CHR ''/''" "[]"]
    by (simp only: split_slash.simps foldl_Cons foldl_Nil norm_seg_def) simp
qed simp

lemma path_parts_trim_end: "path_parts (trim_end s) = path_parts s"
proof -
  let ?k = "length (takeWhile (\<lambda>c. c = CHR ''/'') (rev s))"
  have "takeWhile (\<lambda>c. c = CHR ''/'') (rev s) = replicate ?k CHR ''/''"
    by (rule replicate_length_same [symmetric]) (auto dest: set_takeWhileD)
  then have "rev s = replicate ?k CHR ''/'' @ dropWhile (\<lambda>c. c = CHR ''/'') (rev s)"
    by (metis takeWhile_dropWhile_id)
  then have "s = trim_end s @ replicate ?k CHR ''/''"
    unfolding trim_end_def by (metis rev_append rev_replicate rev_rev_ident)
  then show ?thesis by (metis path_parts_slash)
qed

lemma path_parts_absolute: "path_parts (CHR ''/'' # b) = path_parts b"
  using path_parts_join [of "[]" b] by (simp add: path_parts_def norm_seg_def)



end
