(* ===== verification/Ziqa_Vfs.thy ===== *)
theory Ziqa_Vfs
  imports Ziqa_Path Ziqa_Revocation "HOL-Library.List_Lexorder" "HOL-Library.Char_ord"
begin

text \<open>
  The file interface and RAM files (\<open>src/src/fs/mod.rs\<close>, \<open>ramfs.rs\<close>) and the tree of the
  virtual file system (\<open>vfs.rs\<close>).  Tree nodes and files are shared through reference-counted
  pointers, so the state holds a store of nodes and a store of files, and directories map
  names to indices of the node store.  File objects are values of a type parameter with a
  record of operations.  \<open>None\<close> is a panic.  The results of the on-disk operations of
  \<open>fat32.rs\<close> that paths under \<open>/fat/\<close> are passed to are arguments.
\<close>

section \<open>Files\<close>

datatype file_type = Regular | DirectoryType | CharacterDevice

text \<open>The trait \<open>File\<close>; \<open>read\<close> gives the result and the buffer afterwards.\<close>

record 'f file_ops =
  f_read :: "'f \<Rightarrow> bytes \<Rightarrow> nat \<Rightarrow> ((abi_error + nat) \<times> bytes) option"
  f_write :: "'f \<Rightarrow> bytes \<Rightarrow> nat \<Rightarrow> ((abi_error + nat) \<times> 'f) option"
  f_type :: "'f \<Rightarrow> file_type"
  f_size :: "'f \<Rightarrow> nat"
  f_truncate :: "'f \<Rightarrow> nat \<Rightarrow> (abi_error + unit) \<times> 'f"

definition truncate_default :: "'f \<Rightarrow> nat \<Rightarrow> (abi_error + unit) \<times> 'f" where
  "truncate_default f n = (Inl (Other ''Truncate not implemented''), f)"

definition ram_new :: bytes where
  "ram_new = []"

definition ram_from_bytes :: "bytes \<Rightarrow> bytes" where
  "ram_from_bytes bs = bs"

definition ram_read :: "bytes \<Rightarrow> bytes \<Rightarrow> nat \<Rightarrow> ((abi_error + nat) \<times> bytes) option" where
  "ram_read data buf offset =
     (let sz = length data
      in if offset \<ge> sz then Some (Inr 0, buf)
         else let to_copy = min (sz - offset) (length buf)
              in Some (Inr to_copy, put_bytes buf 0 (slice data offset to_copy)))"

text \<open>The sum wraps at the width of \<open>usize\<close>; \<open>Vec\<close> refuses more than \<open>isize::MAX\<close> bytes.\<close>

definition ram_write :: "bytes \<Rightarrow> bytes \<Rightarrow> nat \<Rightarrow> ((abi_error + nat) \<times> bytes) option" where
  "ram_write data buf offset =
     (let new_min_size = (offset + length buf) mod 2 ^ 64
      in if new_min_size > length data \<and> new_min_size \<ge> 2 ^ 63 then None
         else let data = data @ replicate (new_min_size - length data) 0
              in if offset > new_min_size \<or> new_min_size - offset \<noteq> length buf then None
                 else Some (Inr (length buf), put_bytes data offset buf))"

definition ram_ops :: "bytes file_ops" where
  "ram_ops = \<lparr>f_read = ram_read, f_write = ram_write, f_type = (\<lambda>_. Regular), f_size = length,
              f_truncate = truncate_default\<rparr>"

text \<open>The contract a client of a file relies on.\<close>

locale file_object =
  fixes ops :: "'f file_ops"
  assumes read_written: "f_write ops f buf off = Some (Inr n, f') \<Longrightarrow> n \<le> length buf \<and>
      f_read ops f' (replicate n 0) off = Some (Inr n, take n buf)"
    and read_other: "f_write ops f buf off = Some (Inr n, f') \<Longrightarrow> off' + k \<le> off \<or> off + n \<le> off' \<Longrightarrow>
      off' + k \<le> f_size ops f \<Longrightarrow> f_read ops f' (replicate k 0) off' = f_read ops f (replicate k 0) off'"
    and size_grows: "f_write ops f buf off = Some (Inr n, f') \<Longrightarrow> f_size ops f \<le> f_size ops f' \<and>
      (n = 0 \<or> off + n \<le> f_size ops f')"

section \<open>The tree\<close>

datatype vfs_node = Directory "(string, nat) btree" | FileNode nat

record 'f vfs =
  root :: "nat option"
  nodes :: "vfs_node list"
  files :: "'f list"

definition under_fat :: "string \<Rightarrow> bool" where
  "under_fat path \<longleftrightarrow> take 5 path = ''/fat/''"

definition vfs_new :: "'f vfs" where
  "vfs_new = \<lparr>root = None, nodes = [], files = []\<rparr>"

definition node_is_dir :: "vfs_node \<Rightarrow> bool" where
  "node_is_dir n = (case n of Directory _ \<Rightarrow> True | FileNode _ \<Rightarrow> False)"

text \<open>\<open>Arc::new\<close> of a node and of a file.\<close>

definition new_node :: "'f vfs \<Rightarrow> vfs_node \<Rightarrow> nat \<times> 'f vfs" where
  "new_node v n = (length (nodes v), v\<lparr>nodes := nodes v @ [n]\<rparr>)"

definition new_file :: "'f vfs \<Rightarrow> 'f \<Rightarrow> nat \<times> 'f vfs" where
  "new_file v f = (length (files v), v\<lparr>files := files v @ [f]\<rparr>)"

definition vfs_init :: "'f vfs \<Rightarrow> 'f vfs" where
  "vfs_init v =
     (case root v of
        None \<Rightarrow> let (n, v) = new_node v (Directory []) in v\<lparr>root := Some n\<rparr>
      | Some _ \<Rightarrow> v)"

definition set_children :: "'f vfs \<Rightarrow> nat \<Rightarrow> (string, nat) btree \<Rightarrow> 'f vfs" where
  "set_children v n ch = v\<lparr>nodes := (nodes v)[n := Directory ch]\<rparr>"

fun resolve_walk :: "vfs_node list \<Rightarrow> nat \<Rightarrow> string list \<Rightarrow> abi_error + nat" where
  "resolve_walk ns n [] = Inr n"
| "resolve_walk ns n (part # parts) =
     (if part = [] \<or> part = ''.'' then resolve_walk ns n parts
      else case ns ! n of
        FileNode _ \<Rightarrow> Inl (Other ''Not a directory'')
      | Directory children \<Rightarrow>
          (case bt_get children part of
             Some m \<Rightarrow> resolve_walk ns m parts
           | None \<Rightarrow> Inl (Other ''File not found'')))"

definition resolve_node :: "'f vfs \<Rightarrow> string \<Rightarrow> (abi_error + nat) option" where
  "resolve_node v path =
     (case root v of
        None \<Rightarrow> None
      | Some r \<Rightarrow>
          let path = trim_start path
          in if path = [] then Some (Inr r) else Some (resolve_walk (nodes v) r (split_slash path)))"

text \<open>The part of a path before its last slash, if it has one, and the part after it.\<close>

definition split_last :: "string \<Rightarrow> string option \<times> string" where
  "split_last path =
     (let leaf = rev (takeWhile (\<lambda>c. c \<noteq> CHR ''/'') (rev path))
      in (if CHR ''/'' \<in> set path then Some (take (length path - length leaf - 1) path) else None, leaf))"

definition resolve_parent :: "'f vfs \<Rightarrow> string \<Rightarrow> (abi_error + nat \<times> string) option" where
  "resolve_parent v path =
     (let (dir_part, leaf) = (case split_last path of (Some d, l) \<Rightarrow> (d, l) | (None, l) \<Rightarrow> (''/'', l));
          dir_path = (if dir_part = [] then ''/'' else dir_part)
      in map_option (map_sum id (\<lambda>n. (n, leaf))) (resolve_node v dir_path))"

text \<open>The loop of \<open>mount\<close> from a current node.\<close>

fun mount_walk :: "'f vfs \<Rightarrow> nat \<Rightarrow> string list \<Rightarrow> nat \<Rightarrow> 'f vfs" where
  "mount_walk v cur [] fid = v"
| "mount_walk v cur (part # parts) fid =
     (case nodes v ! cur of
        FileNode _ \<Rightarrow> v
      | Directory children \<Rightarrow>
          if parts = []
          then let (n, v) = new_node v (FileNode fid) in set_children v cur (bt_insert part n children)
          else (case bt_get children part of
                  Some n \<Rightarrow> mount_walk v n parts fid
                | None \<Rightarrow> let (n, v) = new_node v (Directory [])
                          in mount_walk (set_children v cur (bt_insert part n children)) n parts fid))"

definition nonempty_parts :: "string \<Rightarrow> string list" where
  "nonempty_parts path = filter (\<lambda>s. s \<noteq> []) (split_slash (trim_start path))"

definition mount :: "'f vfs \<Rightarrow> string \<Rightarrow> nat \<Rightarrow> 'f vfs" where
  "mount v path fid =
     (let v = vfs_init v
      in case root v of None \<Rightarrow> v | Some r \<Rightarrow> mount_walk v r (nonempty_parts path) fid)"

fun mount_dir_walk :: "'f vfs \<Rightarrow> nat \<Rightarrow> string list \<Rightarrow> 'f vfs" where
  "mount_dir_walk v cur [] = v"
| "mount_dir_walk v cur (part # parts) =
     (case nodes v ! cur of
        FileNode _ \<Rightarrow> v
      | Directory children \<Rightarrow>
          (case bt_get children part of
             Some n \<Rightarrow> mount_dir_walk v n parts
           | None \<Rightarrow> let (n, v) = new_node v (Directory [])
                     in mount_dir_walk (set_children v cur (bt_insert part n children)) n parts))"

definition mount_dir :: "'f vfs \<Rightarrow> string \<Rightarrow> 'f vfs" where
  "mount_dir v path =
     (let v = vfs_init v
      in case root v of None \<Rightarrow> v | Some r \<Rightarrow> mount_dir_walk v r (nonempty_parts path))"

section \<open>Operations on paths\<close>

definition read_raw :: "'f file_ops \<Rightarrow> 'f vfs \<Rightarrow> string \<Rightarrow> bytes \<Rightarrow> nat \<Rightarrow> ((abi_error + nat) \<times> bytes) option" where
  "read_raw ops v path buf offset =
     (case resolve_node v path of
        None \<Rightarrow> None
      | Some (Inl e) \<Rightarrow> Some (Inl e, buf)
      | Some (Inr n) \<Rightarrow>
          (case nodes v ! n of
             FileNode fid \<Rightarrow> f_read ops (files v ! fid) buf offset
           | Directory _ \<Rightarrow> Some (Inl (Other ''Is a directory''), buf)))"

definition vfs_read ::
  "'f file_ops \<Rightarrow> 'f vfs \<Rightarrow> process \<Rightarrow> string \<Rightarrow> bytes \<Rightarrow> nat \<Rightarrow> ((abi_error + nat) \<times> bytes) option" where
  "vfs_read ops v proc path buf offset =
     (if \<not> has_permission (p_capabilities proc) File False False then Some (Inl PermissionDenied, buf)
      else read_raw ops v path buf offset)"

definition write_raw :: "'f file_ops \<Rightarrow> 'f vfs \<Rightarrow> string \<Rightarrow> bytes \<Rightarrow> nat \<Rightarrow> ((abi_error + nat) \<times> 'f vfs) option" where
  "write_raw ops v path buf offset =
     (case resolve_node v path of
        None \<Rightarrow> None
      | Some (Inl e) \<Rightarrow> Some (Inl e, v)
      | Some (Inr n) \<Rightarrow>
          (case nodes v ! n of
             FileNode fid \<Rightarrow>
               map_option (\<lambda>(r, f). (r, v\<lparr>files := (files v)[fid := f]\<rparr>))
                 (f_write ops (files v ! fid) buf offset)
           | Directory _ \<Rightarrow> Some (Inl (Other ''Is a directory''), v)))"

definition vfs_write ::
  "'f file_ops \<Rightarrow> 'f vfs \<Rightarrow> process \<Rightarrow> string \<Rightarrow> bytes \<Rightarrow> nat \<Rightarrow> ((abi_error + nat) \<times> 'f vfs) option" where
  "vfs_write ops v proc path buf offset =
     (if \<not> has_permission (p_capabilities proc) File True False then Some (Inl PermissionDenied, v)
      else write_raw ops v path buf offset)"

definition exists_path :: "'f vfs \<Rightarrow> string \<Rightarrow> bool option" where
  "exists_path v path = map_option (\<lambda>r. case r of Inl _ \<Rightarrow> False | Inr _ \<Rightarrow> True) (resolve_node v path)"

definition file_size :: "'f file_ops \<Rightarrow> 'f vfs \<Rightarrow> string \<Rightarrow> nat option option" where
  "file_size ops v path =
     map_option (\<lambda>r. case r of
        Inl _ \<Rightarrow> None
      | Inr n \<Rightarrow> (case nodes v ! n of FileNode fid \<Rightarrow> Some (f_size ops (files v ! fid)) | Directory _ \<Rightarrow> None))
       (resolve_node v path)"

definition vfs_file_type :: "'f file_ops \<Rightarrow> 'f vfs \<Rightarrow> string \<Rightarrow> file_type option option" where
  "vfs_file_type ops v path =
     map_option (\<lambda>r. case r of
        Inl _ \<Rightarrow> None
      | Inr n \<Rightarrow> Some (case nodes v ! n of FileNode fid \<Rightarrow> f_type ops (files v ! fid) | Directory _ \<Rightarrow> DirectoryType))
       (resolve_node v path)"

definition is_dir :: "'f vfs \<Rightarrow> string \<Rightarrow> bool option" where
  "is_dir v path =
     map_option (\<lambda>r. case r of Inl _ \<Rightarrow> False | Inr n \<Rightarrow> node_is_dir (nodes v ! n)) (resolve_node v path)"

definition list_dir :: "'f vfs \<Rightarrow> string \<Rightarrow> string list option" where
  "list_dir v path =
     map_option (\<lambda>r. case r of
        Inl _ \<Rightarrow> []
      | Inr n \<Rightarrow>
          (case nodes v ! n of
             Directory children \<Rightarrow>
               let pre = (if path = ''/'' \<or> path = [] then [] else trim_end path)
               in map (\<lambda>name. pre @ CHR ''/'' # name) (bt_keys children)
           | FileNode _ \<Rightarrow> []))
       (resolve_node v path)"

text \<open>The loop of \<open>read_raw_all\<close>; \<open>left\<close> bounds the rounds, each of which reads at least one byte.\<close>

fun read_all_from :: "'f file_ops \<Rightarrow> 'f vfs \<Rightarrow> string \<Rightarrow> nat \<Rightarrow> bytes \<Rightarrow> nat \<Rightarrow> (abi_error + bytes) option" where
  "read_all_from ops v path 0 buf tot = Some (Inr (take tot buf))"
| "read_all_from ops v path (Suc left) buf tot =
     (if tot < length buf then
        (case read_raw ops v path (drop tot buf) tot of
           None \<Rightarrow> None
         | Some (Inl e, _) \<Rightarrow> Some (Inl e)
         | Some (Inr n, b) \<Rightarrow>
             if n = 0 then Some (Inr (take tot buf))
             else read_all_from ops v path left (take tot buf @ b) (tot + n))
      else Some (Inr (take tot buf)))"

definition read_raw_all :: "'f file_ops \<Rightarrow> 'f vfs \<Rightarrow> string \<Rightarrow> (abi_error + bytes) option" where
  "read_raw_all ops v path =
     (case file_size ops v path of
        None \<Rightarrow> None
      | Some None \<Rightarrow> Some (Inl (Other ''File not found''))
      | Some (Some sz) \<Rightarrow> read_all_from ops v path sz (replicate sz 0) 0)"

text \<open>\<open>created\<close> is the result of \<open>fat32::create_file_on_disk\<close>, \<open>empty_file\<close> a new RAM file.\<close>

definition vfs_create :: "'f option \<Rightarrow> 'f \<Rightarrow> 'f vfs \<Rightarrow> string \<Rightarrow> 'f vfs option" where
  "vfs_create created empty_file v path =
     (case exists_path v path of
        None \<Rightarrow> None
      | Some True \<Rightarrow> Some v
      | Some False \<Rightarrow>
          let f = (if under_fat path then (case created of Some f \<Rightarrow> f | None \<Rightarrow> empty_file)
                   else empty_file);
              (fid, v) = new_file v f
          in Some (mount v path fid))"

text \<open>The tree part of \<open>remove\<close>.\<close>

definition remove_entry :: "'f vfs \<Rightarrow> string \<Rightarrow> ((abi_error + unit) \<times> 'f vfs) option" where
  "remove_entry v path =
     (case resolve_parent v path of
        None \<Rightarrow> None
      | Some (Inl e) \<Rightarrow> Some (Inl e, v)
      | Some (Inr (n, leaf)) \<Rightarrow>
          (case nodes v ! n of
             FileNode _ \<Rightarrow> Some (Inl (Other ''Parent is not a directory''), v)
           | Directory children \<Rightarrow>
               if bt_get children leaf \<noteq> None
               then Some (Inr (), set_children v n (bt_remove leaf children))
               else Some (Inl (Other ''File not found''), v)))"

text \<open>\<open>unlinked\<close> and \<open>removed\<close> are the results of \<open>fat32::unlink_on_disk\<close> and
  \<open>fat32::rmdir_on_disk\<close>.\<close>

definition remove :: "string + unit \<Rightarrow> 'f vfs \<Rightarrow> string \<Rightarrow> ((abi_error + unit) \<times> 'f vfs) option" where
  "remove unlinked v path =
     (case if under_fat path then unlinked else Inr () of
        Inl e \<Rightarrow> Some (Inl (Other e), v)
      | Inr _ \<Rightarrow> remove_entry v path)"

definition rmdir :: "string + unit \<Rightarrow> string + unit \<Rightarrow> 'f vfs \<Rightarrow> string \<Rightarrow> ((abi_error + unit) \<times> 'f vfs) option" where
  "rmdir removed unlinked v path =
     (let p = trim_end path
      in case if under_fat p then removed else Inr () of
           Inl e \<Rightarrow> Some (Inl (Other e), v)
         | Inr _ \<Rightarrow> remove unlinked v p)"

definition mkdir :: "'f vfs \<Rightarrow> string \<Rightarrow> 'f vfs option" where
  "mkdir v path =
     (let p = trim_end path
      in if p = [] then Some v
         else case exists_path v p of
           None \<Rightarrow> None
         | Some True \<Rightarrow> Some v
         | Some False \<Rightarrow> Some (mount_dir v p))"

definition update_dir :: "'f vfs \<Rightarrow> nat \<Rightarrow> ((string, nat) btree \<Rightarrow> (string, nat) btree) \<Rightarrow> 'f vfs" where
  "update_dir v n f = (case nodes v ! n of Directory ch \<Rightarrow> set_children v n (f ch) | FileNode _ \<Rightarrow> v)"

definition rename :: "'f vfs \<Rightarrow> string \<Rightarrow> string \<Rightarrow> ((abi_error + unit) \<times> 'f vfs) option" where
  "rename v old new =
     (case (resolve_node v old, resolve_parent v old, resolve_parent v new) of
        (Some (Inr node), Some (Inr (old_parent, old_leaf)), Some (Inr (new_parent, new_leaf))) \<Rightarrow>
          let v = update_dir v old_parent (bt_remove old_leaf);
              v = update_dir v new_parent (bt_insert new_leaf node)
          in Some (Inr (), v)
      | (Some (Inl e), _, _) \<Rightarrow> Some (Inl e, v)
      | (_, Some (Inl e), _) \<Rightarrow> Some (Inl e, v)
      | (_, _, Some (Inl e)) \<Rightarrow> Some (Inl e, v)
      | _ \<Rightarrow> None)"

definition vfs_truncate :: "'f file_ops \<Rightarrow> 'f vfs \<Rightarrow> string \<Rightarrow> nat \<Rightarrow> ((abi_error + unit) \<times> 'f vfs) option" where
  "vfs_truncate ops v path new_size =
     (case resolve_node v path of
        None \<Rightarrow> None
      | Some (Inl e) \<Rightarrow> Some (Inl e, v)
      | Some (Inr n) \<Rightarrow>
          (case nodes v ! n of
             FileNode fid \<Rightarrow>
               let (r, f) = f_truncate ops (files v ! fid) new_size
               in Some (r, v\<lparr>files := (files v)[fid := f]\<rparr>)
           | Directory _ \<Rightarrow> Some (Inl (Other ''Is a directory''), v)))"

text \<open>\<open>list_recursive\<close>: the entries still to visit, each with the prefix of its directory.
  On a cyclic store the traversal does not return.\<close>

definition join_prefix :: "string \<Rightarrow> string \<Rightarrow> string" where
  "join_prefix pre name =
     (if pre = ''/'' then CHR ''/'' # name else trim_end pre @ CHR ''/'' # name)"

definition children_of :: "vfs_node list \<Rightarrow> nat \<Rightarrow> (string, nat) btree" where
  "children_of ns n = (case ns ! n of Directory ch \<Rightarrow> ch | FileNode _ \<Rightarrow> [])"

partial_function (option) list_work :: "vfs_node list \<Rightarrow> (string \<times> string \<times> nat) list \<Rightarrow> string list option" where
  "list_work ns work =
     (case work of
        [] \<Rightarrow> Some []
      | (pre, name, n) # rest \<Rightarrow>
          let path = join_prefix pre name
          in Option.bind (list_work ns (map (\<lambda>(name, m). (path, name, m)) (children_of ns n) @ rest))
               (\<lambda>paths. Some (path # paths)))"

definition list_all_paths :: "'f vfs \<Rightarrow> string list option" where
  "list_all_paths v =
     (case root v of
        None \<Rightarrow> None
      | Some r \<Rightarrow> list_work (nodes v) (map (\<lambda>(name, m). (''/'', name, m)) (children_of (nodes v) r)))"

section \<open>RAM files satisfy the contract\<close>

lemma ram_write_Some:
  assumes "ram_write data buf off = Some (r, data')"
  shows "r = Inr (length buf) \<and> off \<le> off + length buf \<and>
         data' = put_bytes (data @ replicate (off + length buf - length data) 0) off buf"
proof -
  define m where "m = (off + length buf) mod 2 ^ 64"
  have m: "m - off = length buf" "off \<le> m"
    and d: "r = Inr (length buf)" "data' = put_bytes (data @ replicate (m - length data) 0) off buf"
    using assms by (auto simp: ram_write_def Let_def m_def split: if_splits)
  have "m = off + length buf" using m by simp
  with d show ?thesis by simp
qed

interpretation ram: file_object ram_ops
proof unfold_locales
  fix f buf off n f'
  assume w: "f_write ram_ops f buf off = Some (Inr n, f')"
  let ?d = "f @ replicate (off + length buf - length f) 0"
  have n: "n = length buf" and f': "f' = put_bytes ?d off buf" and len: "off + length buf \<le> length ?d"
    using ram_write_Some [of f buf off "Inr n" f'] w by (auto simp: ram_ops_def)
  show "f_size ram_ops f \<le> f_size ram_ops f' \<and> (n = 0 \<or> off + n \<le> f_size ram_ops f')"
    using len n by (simp add: ram_ops_def f')
  show "n \<le> length buf \<and> f_read ram_ops f' (replicate n 0) off = Some (Inr n, take n buf)"
    using len slice_put_same [OF len]
    by (auto simp: ram_ops_def ram_read_def Let_def n f' put_bytes_def [of "replicate _ _"] min_def)
  fix off' k
  assume dis: "off' + k \<le> off \<or> off + n \<le> off'" and sz: "off' + k \<le> f_size ram_ops f"
  have "slice f' off' k = slice ?d off' k"
    unfolding f' using dis sz n len by (intro slice_put_disjoint) (auto simp: ram_ops_def)
  also have "\<dots> = slice f off' k" using sz by (simp add: slice_def ram_ops_def)
  finally show "f_read ram_ops f' (replicate k 0) off' = f_read ram_ops f (replicate k 0) off'"
    using sz len by (auto simp: ram_ops_def ram_read_def Let_def f' put_bytes_def [of "replicate _ _"] min_def slice_def)
qed

end
