(* ===== verification/Ziqa_Vfs_Tree.thy ===== *)
theory Ziqa_Vfs_Tree
  imports Ziqa_Vfs "HOL-Library.Sublist"
begin

text \<open>
  The file tree as a partial map from lists of names to entries.  \<open>tree_ok\<close> says that the node
  store is a tree: every node has at most one parent and the root has none.  Under it a change
  of one directory entry changes exactly the paths through that entry.
\<close>

section \<open>Walking a graph of named edges\<close>

fun walk :: "(nat \<Rightarrow> string \<Rightarrow> nat option) \<Rightarrow> nat \<Rightarrow> string list \<Rightarrow> nat option" where
  "walk c n [] = Some n"
| "walk c n (p # ps) = (case c n p of None \<Rightarrow> None | Some m \<Rightarrow> walk c m ps)"

definition unique_parents :: "(nat \<Rightarrow> string \<Rightarrow> nat option) \<Rightarrow> nat \<Rightarrow> bool" where
  "unique_parents c r \<longleftrightarrow>
     (\<forall>a p b q m. c a p = Some m \<and> c b q = Some m \<longrightarrow> a = b \<and> p = q) \<and> (\<forall>a p. c a p \<noteq> Some r)"

definition set_edge ::
  "(nat \<Rightarrow> string \<Rightarrow> nat option) \<Rightarrow> nat \<Rightarrow> string \<Rightarrow> nat option \<Rightarrow> nat \<Rightarrow> string \<Rightarrow> nat option" where
  "set_edge c d k x n p = (if n = d \<and> p = k then x else c n p)"

lemma set_edge_simps [simp]:
  "set_edge c d k x d k = x"
  "n \<noteq> d \<or> p \<noteq> k \<Longrightarrow> set_edge c d k x n p = c n p"
  by (auto simp: set_edge_def)

lemma walk_append: "walk c n (ps @ qs) = Option.bind (walk c n ps) (\<lambda>m. walk c m qs)"
  by (induction ps arbitrary: n) (auto split: option.splits)

lemma walk_snoc: "walk c n (ps @ [p]) = Option.bind (walk c n ps) (\<lambda>m. c m p)"
  by (cases "walk c n ps") (auto simp: walk_append split: option.splits)

lemma walk_prefix: "walk c n ps \<noteq> None \<Longrightarrow> prefix qs ps \<Longrightarrow> walk c n qs \<noteq> None"
  by (auto simp: prefix_def walk_append bind_eq_Some_conv)

lemma walk_inj:
  assumes "unique_parents c r"
  shows "walk c r ps = Some n \<Longrightarrow> walk c r qs = Some n \<Longrightarrow> ps = qs"
proof (induction ps arbitrary: n qs rule: rev_induct)
  case Nil
  then show ?case
    using assms by (cases qs rule: rev_cases) (auto simp: walk_snoc unique_parents_def bind_eq_Some_conv)
next
  case (snoc p ps)
  from snoc.prems(1) obtain a where a: "walk c r ps = Some a" "c a p = Some n"
    by (auto simp: walk_snoc bind_eq_Some_conv)
  show ?case
  proof (cases qs rule: rev_cases)
    case Nil
    with snoc.prems(2) a(2) assms show ?thesis by (auto simp: unique_parents_def)
  next
    case (snoc qs' q)
    with snoc.prems(2) obtain b where b: "walk c r qs' = Some b" "c b q = Some n"
      by (auto simp: walk_snoc bind_eq_Some_conv)
    have "a = b \<and> p = q" using assms a(2) b(2) unfolding unique_parents_def by blast
    with snoc.IH [OF a(1)] b(1) snoc show ?thesis by simp
  qed
qed

text \<open>A walk that never uses the changed edge.\<close>

lemma walk_set_edge_other:
  assumes "\<And>qs. walk c n qs = Some d \<Longrightarrow> \<not> prefix (qs @ [k]) ps"
  shows "walk (set_edge c d k x) n ps = walk c n ps"
  using assms
proof (induction ps rule: rev_induct)
  case (snoc p ps)
  have "walk (set_edge c d k x) n ps = walk c n ps"
    using snoc.prems by (intro snoc.IH) (meson prefix_snoc)
  moreover have "\<not> (walk c n ps = Some d \<and> p = k)"
    using snoc.prems [of ps] by auto
  ultimately show ?case by (cases "walk c n ps") (auto simp: walk_snoc)
qed simp

lemma walk_set_edge:
  assumes "unique_parents c r" "walk c r qs = Some d"
  shows "walk (set_edge c d k x) r ps =
           (if prefix (qs @ [k]) ps
            then Option.bind x (\<lambda>m. walk (set_edge c d k x) m (drop (Suc (length qs)) ps))
            else walk c r ps)"
proof (cases "prefix (qs @ [k]) ps")
  case True
  then obtain rest where ps: "ps = qs @ k # rest" by (auto simp: prefix_def)
  have "walk (set_edge c d k x) r qs = walk c r qs"
  proof (rule walk_set_edge_other)
    fix us assume "walk c r us = Some d"
    then have "us = qs" using walk_inj [OF assms(1)] assms(2) by blast
    then show "\<not> prefix (us @ [k]) qs" by (simp add: prefix_def)
  qed
  with assms(2) show ?thesis
    by (simp add: True) (simp add: ps walk_append split: option.splits)
next
  case False
  then show ?thesis
    using walk_set_edge_other [of c r d k ps x] walk_inj [OF assms(1) _ assms(2)] by auto
qed

lemma unique_parents_set_edge:
  assumes "unique_parents c r" "\<And>m a p. x = Some m \<Longrightarrow> c a p = Some m \<Longrightarrow> a = d \<and> p = k" "x \<noteq> Some r"
  shows "unique_parents (set_edge c d k x) r"
  using assms unfolding unique_parents_def set_edge_def by metis

section \<open>The node store as a graph\<close>

definition vchild :: "vfs_node list \<Rightarrow> nat \<Rightarrow> string \<Rightarrow> nat option" where
  "vchild ns n p =
     (if n < length ns then (case ns ! n of Directory ch \<Rightarrow> bt_get ch p | FileNode _ \<Rightarrow> None) else None)"

definition tree_ok :: "'f vfs \<Rightarrow> bool" where
  "tree_ok v \<longleftrightarrow>
     (\<exists>r. root v = Some r \<and> r < length (nodes v) \<and> node_is_dir (nodes v ! r) \<and>
          unique_parents (vchild (nodes v)) r) \<and>
     (\<forall>n p m. vchild (nodes v) n p = Some m \<longrightarrow> m < length (nodes v)) \<and>
     (\<forall>n < length (nodes v). \<forall>ch. nodes v ! n = Directory ch \<longrightarrow> bt_inv ch)"

datatype entry = EDir | EFile nat

definition entry_of :: "vfs_node \<Rightarrow> entry" where
  "entry_of n = (case n of Directory _ \<Rightarrow> EDir | FileNode f \<Rightarrow> EFile f)"

text \<open>The tree as a partial map: what is found at a list of names.\<close>

definition tree :: "'f vfs \<Rightarrow> string list \<Rightarrow> entry option" where
  "tree v ps =
     (case root v of
        None \<Rightarrow> None
      | Some r \<Rightarrow> map_option (\<lambda>n. entry_of (nodes v ! n)) (walk (vchild (nodes v)) r ps))"

lemma child_insert:
  assumes "n < length ns" "ns ! n = Directory ch"
  shows "vchild (ns[n := Directory (bt_insert k m ch)]) = set_edge (vchild ns) n k (Some m)"
  using assms by (auto simp: vchild_def set_edge_def fun_eq_iff nth_list_update)

lemma child_remove:
  assumes "n < length ns" "ns ! n = Directory ch" "bt_inv ch"
  shows "vchild (ns[n := Directory (bt_remove k ch)]) = set_edge (vchild ns) n k None"
  using assms by (auto simp: vchild_def set_edge_def fun_eq_iff nth_list_update)

lemma child_fresh:
  "node = Directory [] \<or> node = FileNode f \<Longrightarrow> vchild (ns @ [node]) = vchild ns"
  by (auto simp: vchild_def fun_eq_iff nth_append less_Suc_eq)

lemma entry_update_dir:
  "n < length ns \<Longrightarrow> ns ! n = Directory ch \<Longrightarrow> entry_of (ns[n := Directory ch'] ! m) = entry_of (ns ! m)"
  by (cases "n = m") (auto simp: nth_list_update entry_of_def split: vfs_node.splits)

lemma walk_bound:
  assumes "tree_ok v" "root v = Some r" "walk (vchild (nodes v)) r ps = Some n"
  shows "n < length (nodes v)"
  using assms(3)
proof (induction ps arbitrary: n rule: rev_induct)
  case Nil
  then show ?case using assms(1,2) by (auto simp: tree_ok_def)
next
  case (snoc p ps)
  then show ?case using assms(1) by (auto simp: walk_snoc bind_eq_Some_conv tree_ok_def)
qed

lemma tree_okD:
  assumes "tree_ok v"
  obtains r where "root v = Some r" "r < length (nodes v)" "node_is_dir (nodes v ! r)"
    "unique_parents (vchild (nodes v)) r" "\<And>n p m. vchild (nodes v) n p = Some m \<Longrightarrow> m < length (nodes v)"
    "\<And>n ch. n < length (nodes v) \<Longrightarrow> nodes v ! n = Directory ch \<Longrightarrow> bt_inv ch"
  using assms unfolding tree_ok_def by blast

section \<open>Changing one entry\<close>

text \<open>The path that leads to a directory node.\<close>

definition dir_at :: "'f vfs \<Rightarrow> string list \<Rightarrow> nat \<Rightarrow> (string, nat) btree \<Rightarrow> bool" where
  "dir_at v qs d ch \<longleftrightarrow>
     (\<exists>r. root v = Some r \<and> walk (vchild (nodes v)) r qs = Some d) \<and> nodes v ! d = Directory ch"

lemma tree_eq: "root v = Some r \<Longrightarrow> tree v ps = map_option (\<lambda>n. entry_of (nodes v ! n)) (walk (vchild (nodes v)) r ps)"
  by (simp add: tree_def)

lemma tree_update:
  assumes ok: "tree_ok v" and d: "dir_at v qs d ch"
    and c': "vchild (nodes v') = set_edge (vchild (nodes v)) d k x"
    and v': "root v' = root v" "nodes v' = (nodes v)[d := Directory ch']"
    and x: "\<And>m us. x = Some m \<Longrightarrow> walk (vchild (nodes v)) m us \<noteq> Some d"
  shows "tree v' ps =
           (if prefix (qs @ [k]) ps
            then map_option (\<lambda>n. entry_of (nodes v ! n))
                   (Option.bind x (\<lambda>m. walk (vchild (nodes v)) m (drop (Suc (length qs)) ps)))
            else tree v ps)"
proof -
  from ok obtain r where r: "root v = Some r" "unique_parents (vchild (nodes v)) r" by (rule tree_okD)
  have w: "walk (vchild (nodes v)) r qs = Some d" and nd: "nodes v ! d = Directory ch"
    using d r(1) by (auto simp: dir_at_def)
  have bound: "d < length (nodes v)" using walk_bound [OF ok r(1) w] .
  have e: "entry_of (nodes v' ! n) = entry_of (nodes v ! n)" for n
    unfolding v'(2) using entry_update_dir [OF bound nd] .
  have "walk (set_edge (vchild (nodes v)) d k x) m us = walk (vchild (nodes v)) m us" if "x = Some m" for m us
    by (rule walk_set_edge_other) (use x that in blast)
  then have below: "Option.bind x (\<lambda>m. walk (set_edge (vchild (nodes v)) d k x) m us) =
      Option.bind x (\<lambda>m. walk (vchild (nodes v)) m us)" for us
    by (cases x) auto
  show ?thesis
    using r(1) v'(1) walk_set_edge [OF r(2) w, of k x ps]
    by (simp add: tree_eq e c' below)
qed

lemma tree_ok_update:
  assumes ok: "tree_ok v" and d: "dir_at v qs d ch"
    and c': "vchild (nodes v') = set_edge (vchild (nodes v)) d k x"
    and v': "root v' = root v" "nodes v' = (nodes v)[d := Directory ch']" "bt_inv ch'"
    and x: "\<And>m a p. x = Some m \<Longrightarrow> vchild (nodes v) a p = Some m \<Longrightarrow> a = d \<and> p = k"
      "\<And>m. x = Some m \<Longrightarrow> m < length (nodes v) \<and> root v \<noteq> Some m"
  shows "tree_ok v'"
proof -
  from ok obtain r where r: "root v = Some r" "r < length (nodes v)" "node_is_dir (nodes v ! r)"
    "unique_parents (vchild (nodes v)) r" "\<And>n p m. vchild (nodes v) n p = Some m \<Longrightarrow> m < length (nodes v)"
    "\<And>n ch. n < length (nodes v) \<Longrightarrow> nodes v ! n = Directory ch \<Longrightarrow> bt_inv ch"
    by (rule tree_okD) blast
  have "unique_parents (vchild (nodes v')) r"
    unfolding c' using x r(1) by (intro unique_parents_set_edge [OF r(4)]) auto
  moreover have "node_is_dir (nodes v' ! r)"
    using r(2,3) by (cases "r = d") (auto simp: v'(2) node_is_dir_def)
  moreover have "m < length (nodes v')" if "vchild (nodes v') n p = Some m" for n p m
    using that [unfolded c' set_edge_def] x(2) r(5) by (auto simp: v'(2) split: if_splits)
  moreover have "bt_inv ch''" if "n < length (nodes v')" "nodes v' ! n = Directory ch''" for n ch''
    using that r(6) v'(3) by (cases "n = d") (auto simp: v'(2))
  ultimately show ?thesis using r(1,2) v' unfolding tree_ok_def by auto
qed

lemma new_node_ok:
  assumes "tree_ok v" "node = Directory [] \<or> node = FileNode f" "new_node v node = (n, v')"
  shows "tree_ok v'" "tree v' = tree v" "n = length (nodes v)" "nodes v' = nodes v @ [node]"
    "root v' = root v" "files v' = files v" "dir_at v qs d ch \<Longrightarrow> dir_at v' qs d ch"
proof -
  from assms(1) obtain r where r: "root v = Some r" "r < length (nodes v)" "node_is_dir (nodes v ! r)"
    "unique_parents (vchild (nodes v)) r" "\<And>n p m. vchild (nodes v) n p = Some m \<Longrightarrow> m < length (nodes v)"
    "\<And>n ch. n < length (nodes v) \<Longrightarrow> nodes v ! n = Directory ch \<Longrightarrow> bt_inv ch"
    by (rule tree_okD) blast
  show n: "n = length (nodes v)" and ns: "nodes v' = nodes v @ [node]" and rt: "root v' = root v"
    and "files v' = files v"
    using assms(3) by (auto simp: new_node_def)
  have c: "vchild (nodes v') = vchild (nodes v)" unfolding ns using assms(2) by (rule child_fresh)
  have b: "walk (vchild (nodes v)) r ps = Some m \<Longrightarrow> m < length (nodes v)" for ps m
    using walk_bound [OF assms(1) r(1)] .
  have "bt_inv ch'" if "n < length (nodes v')" "nodes v' ! n = Directory ch'" for n ch'
    using that r(6) [of n ch'] assms(2) by (cases "n < length (nodes v)") (auto simp: ns nth_append)
  moreover have "node_is_dir (nodes v' ! r)" using r(2,3) by (simp add: ns nth_append)
  moreover have "m < length (nodes v')" if "vchild (nodes v) n p = Some m" for n p m
    using r(5) [OF that] by (simp add: ns)
  moreover have "r < length (nodes v')" using r(2) by (simp add: ns)
  ultimately show "tree_ok v'"
    unfolding tree_ok_def c rt using r(1,4) by blast
  show "tree v' = tree v"
  proof
    fix ps
    have "nodes v' ! m = nodes v ! m" if "walk (vchild (nodes v)) r ps = Some m" for m
      using b [OF that] by (simp add: ns nth_append)
    then show "tree v' ps = tree v ps"
      unfolding tree_def rt c r(1) by (cases "walk (vchild (nodes v)) r ps") simp_all
  qed
  show "dir_at v' qs d ch" if "dir_at v qs d ch"
    using that b [of qs d] r(1) unfolding dir_at_def rt c by (auto simp: ns nth_append)
qed

text \<open>Adding a fresh node under a name.\<close>

lemma add_node:
  assumes ok: "tree_ok v" and d: "dir_at v qs d ch" and node: "node = Directory [] \<or> node = FileNode f"
    and v': "v' = set_children (snd (new_node v node)) d (bt_insert k (length (nodes v)) ch)"
  shows "tree_ok v'"
    and "tree v' ps = (if ps = qs @ [k] then Some (entry_of node)
                       else if prefix (qs @ [k]) ps then None else tree v ps)"
    and "dir_at v' (qs @ [k]) (length (nodes v)) [] \<or> node \<noteq> Directory []"
    and "root v' = root v" "files v' = files v"
proof -
  obtain n v1 where n: "new_node v node = (n, v1)" by fastforce
  note nn = new_node_ok [OF ok node n]
  have d1: "dir_at v1 qs d ch" using nn(7) [OF d] .
  from nn(1) obtain r where r: "root v1 = Some r" "r < length (nodes v1)"
    "\<And>n p m. vchild (nodes v1) n p = Some m \<Longrightarrow> m < length (nodes v1)"
    "\<And>n ch. n < length (nodes v1) \<Longrightarrow> nodes v1 ! n = Directory ch \<Longrightarrow> bt_inv ch"
    and uniq: "unique_parents (vchild (nodes v1)) r"
    by (rule tree_okD) blast
  have w: "walk (vchild (nodes v1)) r qs = Some d" "nodes v1 ! d = Directory ch"
    using d1 r(1) by (auto simp: dir_at_def)
  have bd: "d < length (nodes v1)" using walk_bound [OF nn(1) r(1) w(1)] .
  have inv: "bt_inv ch" using r(4) [OF bd w(2)] .
  have v1: "v' = set_children v1 d (bt_insert k n ch)" using v' n nn(3) by simp
  have ns: "nodes v' = (nodes v1)[d := Directory (bt_insert k n ch)]" "root v' = root v1"
    by (simp_all add: v1 set_children_def)
  have c: "vchild (nodes v') = set_edge (vchild (nodes v1)) d k (Some n)"
    unfolding ns(1) using child_insert [OF bd w(2)] .
  from ok obtain r0 where r0: "root v = Some r0" "r0 < length (nodes v)"
    "\<And>n p m. vchild (nodes v) n p = Some m \<Longrightarrow> m < length (nodes v)" by (rule tree_okD) blast
  have old: "vchild (nodes v1) = vchild (nodes v)" unfolding nn(4) using node by (rule child_fresh)
  have fresh: "vchild (nodes v1) a p \<noteq> Some n" for a p
    using r0(3) [of a p n] by (auto simp: old nn(3))
  have leaf: "vchild (nodes v1) n p = None" for p
    using node by (auto simp: vchild_def nn(3,4))
  have wn: "walk (vchild (nodes v1)) n us = (if us = [] then Some n else None)" for us
    using leaf by (cases us) auto
  have nd: "n \<noteq> d" using w(1) walk_bound [OF ok r0(1), of qs d] r(1) r0(1) nn(3,5) old by auto
  show ok': "tree_ok v'"
    using fresh r0 r(1) by (intro tree_ok_update [OF nn(1) d1 c ns(2,1)]) (auto simp: inv nn)
  have sep: "walk (vchild (nodes v1)) m us \<noteq> Some d" if "Some n = Some m" for m us
    using that wn nd by (auto split: if_splits)
  have t: "tree v' ps = (if prefix (qs @ [k]) ps
      then map_option (\<lambda>n. entry_of (nodes v1 ! n)) (walk (vchild (nodes v1)) n (drop (Suc (length qs)) ps))
      else tree v1 ps)" for ps
    using tree_update [OF nn(1) d1 c ns(2,1) sep, of ps] by simp
  show "tree v' ps = (if ps = qs @ [k] then Some (entry_of node)
                       else if prefix (qs @ [k]) ps then None else tree v ps)"
  proof -
    have "nodes v1 ! n = node" by (simp add: nn(3,4))
    then show ?thesis unfolding t nn(2) wn by (auto simp: prefix_def)
  qed
  show "dir_at v' (qs @ [k]) (length (nodes v)) [] \<or> node \<noteq> Directory []"
  proof (cases "node = Directory []")
    case True
    have "walk (vchild (nodes v')) r (qs @ [k]) = Some n"
      using walk_set_edge [OF uniq w(1), of k "Some n" "qs @ [k]"] by (simp add: c)
    then show ?thesis
      using True nd ns r(1) by (simp add: dir_at_def nn nth_append)
  qed simp
  show "root v' = root v" "files v' = files v"
    by (simp_all add: v1 set_children_def nn)
qed

end
