(* ===== verification/Ziqa_Vfs_Ops.thy ===== *)
theory Ziqa_Vfs_Ops
  imports Ziqa_Vfs_Tree
begin

text \<open>
  What the operations of \<open>src/src/fs/vfs.rs\<close> do to the tree map: canonical paths resolve to the
  walk along their names, mounting a file and creating a directory add entries, removing and
  renaming take away and move the entries below a path.
\<close>

section \<open>Canonical paths\<close>

abbreviation plain :: "string list \<Rightarrow> bool" where
  "plain ps \<equiv> \<forall>p \<in> set ps. plain_seg p"

lemma path_of_snoc: "path_of (ps @ [p]) = (if ps = [] then CHR ''/'' # p else path_of ps @ CHR ''/'' # p)"
proof -
  have "join_slash (ps @ [p]) = (if ps = [] then p else join_slash ps @ CHR ''/'' # p)"
    by (induction ps rule: join_slash.induct) auto
  then show ?thesis by (simp add: path_of_def)
qed

lemma trim_start_path: "plain ps \<Longrightarrow> trim_start (path_of ps) = join_slash ps"
proof (cases ps rule: join_slash.cases)
  case (2 s)
  then show "plain ps \<Longrightarrow> ?thesis" by (cases s) (auto simp: trim_start_def path_of_def plain_seg_def)
next
  case (3 s t ss)
  then show "plain ps \<Longrightarrow> ?thesis" by (cases s) (auto simp: trim_start_def path_of_def plain_seg_def)
qed (simp add: trim_start_def path_of_def)

lemma join_slash_Nil: "plain ps \<Longrightarrow> join_slash ps = [] \<longleftrightarrow> ps = []"
  by (cases ps rule: join_slash.cases) (auto simp: plain_seg_def)

lemma split_path: "plain ps \<Longrightarrow> ps \<noteq> [] \<Longrightarrow> split_slash (join_slash ps) = ps"
  by (rule split_join) (auto simp: plain_seg_def)

lemma resolve_node_path:
  "plain ps \<Longrightarrow> root v = Some r \<Longrightarrow> resolve_node v (path_of ps) = Some (resolve_walk (nodes v) r ps)"
  by (cases "ps = []") (simp_all add: resolve_node_def trim_start_path join_slash_Nil split_path Let_def)

lemma resolve_walk_plain:
  assumes "\<And>n p m. vchild ns n p = Some m \<Longrightarrow> m < length ns" "plain ps" "n < length ns"
  shows "(case resolve_walk ns n ps of Inr m \<Rightarrow> Some m | Inl e \<Rightarrow> None) = walk (vchild ns) n ps"
  using assms(2,3)
proof (induction ps arbitrary: n)
  case (Cons p ps)
  have p: "p \<noteq> []" "p \<noteq> ''.''" using Cons.prems by (auto simp: plain_seg_def)
  show ?case
  proof (cases "ns ! n")
    case (Directory ch)
    then have c: "vchild ns n p = bt_get ch p" using Cons.prems(2) by (simp add: vchild_def)
    show ?thesis
    proof (cases "bt_get ch p")
      case None
      then show ?thesis using p Directory c by simp
    next
      case (Some m)
      then have "m < length ns" using assms(1) c by metis
      then show ?thesis using Cons p Directory c Some by simp
    qed
  next
    case (FileNode f)
    then show ?thesis using p Cons.prems(2) by (simp add: vchild_def)
  qed
qed simp

lemma resolve_path_walk:
  assumes "tree_ok v" "plain ps" "root v = Some r"
  shows "resolve_node v (path_of ps) = Some (Inr n) \<longleftrightarrow> walk (vchild (nodes v)) r ps = Some n"
    and "walk (vchild (nodes v)) r ps = None \<Longrightarrow> \<exists>e. resolve_node v (path_of ps) = Some (Inl e)"
proof -
  have "(case resolve_walk (nodes v) r ps of Inr m \<Rightarrow> Some m | Inl e \<Rightarrow> None) = walk (vchild (nodes v)) r ps"
    using assms by (intro resolve_walk_plain) (auto elim!: tree_okD)
  then show "resolve_node v (path_of ps) = Some (Inr n) \<longleftrightarrow> walk (vchild (nodes v)) r ps = Some n"
    and "walk (vchild (nodes v)) r ps = None \<Longrightarrow> \<exists>e. resolve_node v (path_of ps) = Some (Inl e)"
    using resolve_node_path [OF assms(2,3)] by (auto split: sum.splits)
qed

lemma split_last_slash: "no_slash l \<Longrightarrow> split_last (d @ CHR ''/'' # l) = (Some d, l)"
proof -
  assume "no_slash l"
  then have "takeWhile (\<lambda>c. c \<noteq> CHR ''/'') (rev (d @ CHR ''/'' # l)) = rev l"
    by (simp add: takeWhile_append)
  then show ?thesis by (simp add: split_last_def)
qed

lemma resolve_parent_path:
  assumes "plain (ps @ [p])"
  shows "resolve_parent v (path_of (ps @ [p])) = map_option (map_sum id (\<lambda>n. (n, p))) (resolve_node v (path_of ps))"
proof -
  have "no_slash p" using assms by (simp add: plain_seg_def)
  then have "split_last (path_of (ps @ [p])) = (Some (if ps = [] then [] else path_of ps), p)"
    using split_last_slash [of p "[]"] split_last_slash [of p "path_of ps"] by (simp add: path_of_snoc)
  then show ?thesis by (simp add: resolve_parent_def path_of_def)
qed

lemma nonempty_parts_path: "plain ps \<Longrightarrow> nonempty_parts (path_of ps) = ps"
  by (cases "ps = []") (auto simp: nonempty_parts_def trim_start_path split_path plain_seg_def filter_id_conv)

lemma trim_end_path: "plain ps \<Longrightarrow> ps \<noteq> [] \<Longrightarrow> trim_end (path_of ps) = path_of ps"
proof -
  assume ps: "plain ps" "ps \<noteq> []"
  then obtain qs p where q: "ps = qs @ [p]" by (metis rev_exhaust)
  with ps have "p \<noteq> []" "no_slash p" by (auto simp: plain_seg_def)
  then obtain p' c where p: "p = p' @ [c]" and c: "c \<noteq> CHR ''/''" by (cases p rule: rev_cases) auto
  then have "\<exists>s. path_of ps = s @ [c]" by (auto simp: q path_of_snoc)
  then show ?thesis using c by (auto simp: trim_end_def)
qed

section \<open>The operations on the tree\<close>

lemma dir_atI:
  assumes "root v = Some r" "walk (vchild (nodes v)) r qs = Some d" "\<And>f. tree v qs \<noteq> Some (EFile f)"
  obtains ch where "dir_at v qs d ch" "nodes v ! d = Directory ch"
  using assms by (cases "nodes v ! d") (auto simp: dir_at_def tree_eq entry_of_def)

lemma prefix_through:
  "prefix ps (qs @ p # parts) \<and> \<not> prefix ps qs \<longleftrightarrow>
     ps = qs @ [p] \<or> (prefix ps (qs @ p # parts) \<and> \<not> prefix ps (qs @ [p]))"
  by (metis append.assoc append_Cons append_Nil prefix_append prefix_order.eq_iff prefix_snoc same_prefix_prefix not_Cons_self2 prefixI)

lemma walk_entry:
  assumes "tree_ok v" "root v = Some r" "walk (vchild (nodes v)) r qs = Some d" "nodes v ! d = Directory ch"
  shows "walk (vchild (nodes v)) r (qs @ [p]) = bt_get ch p"
proof -
  have "vchild (nodes v) d p = bt_get ch p"
    using walk_bound [OF assms(1-3)] assms(4) by (simp add: vchild_def)
  then show ?thesis using assms(3) by (simp add: walk_snoc)
qed

lemma tree_below_missing:
  assumes "root v = Some r" "walk (vchild (nodes v)) r qs = None" "prefix qs ps"
  shows "tree v ps = None"
proof -
  have "walk (vchild (nodes v)) r ps = None" using walk_prefix [OF _ assms(3)] assms(2) by blast
  then show ?thesis using assms(1) by (simp add: tree_eq)
qed

lemma tree_dir:
  assumes "root v = Some r" "walk (vchild (nodes v)) r qs = Some n" "\<forall>f. tree v qs \<noteq> Some (EFile f)"
  shows "tree v qs = Some EDir"
  using assms by (cases "nodes v ! n") (auto simp: tree_eq entry_of_def)

lemma mount_walk_spec:
  assumes "tree_ok v" "root v = Some r" "walk (vchild (nodes v)) r qs = Some cur" "parts \<noteq> []"
    "\<And>us f. strict_prefix us parts \<Longrightarrow> tree v (qs @ us) \<noteq> Some (EFile f)"
  shows "tree_ok (mount_walk v cur parts fid) \<and> root (mount_walk v cur parts fid) = Some r \<and>
         files (mount_walk v cur parts fid) = files v \<and>
         (\<forall>ps. tree (mount_walk v cur parts fid) ps =
            (if ps = qs @ parts then Some (EFile fid)
             else if prefix (qs @ parts) ps then None
             else if prefix ps (qs @ parts) \<and> \<not> prefix ps qs then Some EDir else tree v ps))"
  using assms
proof (induction parts arbitrary: v qs cur)
  case (Cons p parts)
  have "\<And>f. tree v qs \<noteq> Some (EFile f)" using Cons.prems(5) [of "[]"] by auto
  with Cons.prems(2,3) obtain ch where d: "dir_at v qs cur ch" "nodes v ! cur = Directory ch"
    by (rule dir_atI)
  show ?case
  proof (cases "parts = []")
    case True
    let ?v' = "set_children (snd (new_node v (FileNode fid))) cur (bt_insert p (length (nodes v)) ch)"
    have m: "mount_walk v cur [p] fid = ?v'" using d(2) by (simp add: new_node_def)
    note a = add_node [OF Cons.prems(1) d(1) disjI2 [OF refl] refl, where k = p and f = fid]
    have "prefix ps (qs @ [p]) \<and> \<not> prefix ps qs \<longleftrightarrow> ps = qs @ [p]" for ps
      by (auto simp: prefix_snoc)
    then show ?thesis
      unfolding True m using a Cons.prems(2) by (auto simp: entry_of_def)
  next
    case False
    note split = prefix_through [of _ qs p parts]
    show ?thesis
    proof (cases "bt_get ch p")
      case (Some n)
      have w: "walk (vchild (nodes v)) r (qs @ [p]) = Some n"
        using walk_entry [OF Cons.prems(1-3) d(2)] Some by simp
      have t: "tree v (qs @ [p]) = Some EDir"
        using Cons.prems(5) [of "[p]"] False by (intro tree_dir [OF Cons.prems(2) w]) (auto simp: strict_prefix_def)
      have m: "mount_walk v cur (p # parts) fid = mount_walk v n parts fid"
        using d(2) Some False by simp
      have IH: "\<And>us f. strict_prefix us parts \<Longrightarrow> tree v ((qs @ [p]) @ us) \<noteq> Some (EFile f)"
        using Cons.prems(5) [of "p # us" for us] by (auto simp: strict_prefix_def)
      show ?thesis
        unfolding m split using Cons.IH [OF Cons.prems(1,2) w False IH] t
        by (auto simp: strict_prefix_def)
    next
      case None
      let ?v' = "set_children (snd (new_node v (Directory []))) cur (bt_insert p (length (nodes v)) ch)"
      note a = add_node [OF Cons.prems(1) d(1) disjI1 [OF refl] refl, where k = p]
      have m: "mount_walk v cur (p # parts) fid = mount_walk ?v' (length (nodes v)) parts fid"
        using d(2) None False by (simp add: new_node_def)
      have r: "root ?v' = Some r" using a(4) Cons.prems(2) by simp
      have w: "walk (vchild (nodes ?v')) r (qs @ [p]) = Some (length (nodes v))"
        using a(3) r by (auto simp: dir_at_def)
      have t: "tree ?v' ps = (if ps = qs @ [p] then Some EDir else if prefix (qs @ [p]) ps then None else tree v ps)" for ps
        using a(2) by (simp add: entry_of_def)
      have none: "prefix (qs @ [p]) ps \<Longrightarrow> tree v ps = None" for ps
        by (rule tree_below_missing [OF Cons.prems(2) walk_entry [OF Cons.prems(1-3) d(2), of p, unfolded None]])
      have IH: "\<And>us f. strict_prefix us parts \<Longrightarrow> tree ?v' ((qs @ [p]) @ us) \<noteq> Some (EFile f)"
        unfolding t by auto
      show ?thesis
        unfolding m split using Cons.IH [OF a(1) r w False IH] a(5) none by (auto simp: t)
    qed
  qed
qed simp

lemma mount_dir_walk_spec:
  assumes "tree_ok v" "root v = Some r" "walk (vchild (nodes v)) r qs = Some cur"
    "\<And>us f. strict_prefix us parts \<Longrightarrow> tree v (qs @ us) \<noteq> Some (EFile f)" "tree v (qs @ parts) = None \<or> parts = []"
  shows "tree_ok (mount_dir_walk v cur parts) \<and> root (mount_dir_walk v cur parts) = Some r \<and>
         files (mount_dir_walk v cur parts) = files v \<and>
         (\<forall>ps. tree (mount_dir_walk v cur parts) ps =
            (if prefix ps (qs @ parts) \<and> \<not> prefix ps qs then Some EDir else tree v ps))"
  using assms
proof (induction parts arbitrary: v qs cur)
  case (Cons p parts)
  have "\<And>f. tree v qs \<noteq> Some (EFile f)" using Cons.prems(4) [of "[]"] by auto
  with Cons.prems(2,3) obtain ch where d: "dir_at v qs cur ch" "nodes v ! cur = Directory ch"
    by (rule dir_atI)
  note split = prefix_through [of _ qs p parts]
  show ?case
  proof (cases "bt_get ch p")
    case (Some n)
    have w: "walk (vchild (nodes v)) r (qs @ [p]) = Some n"
      using walk_entry [OF Cons.prems(1-3) d(2)] Some by simp
    with Cons.prems(2,5) have ne: "parts \<noteq> []" by (auto simp: tree_eq)
    have t: "tree v (qs @ [p]) = Some EDir"
      using Cons.prems(4) [of "[p]"] ne by (intro tree_dir [OF Cons.prems(2) w]) (auto simp: strict_prefix_def)
    have IH: "\<And>us f. strict_prefix us parts \<Longrightarrow> tree v ((qs @ [p]) @ us) \<noteq> Some (EFile f)"
      using Cons.prems(4) [of "p # us" for us] by (auto simp: strict_prefix_def)
    have "mount_dir_walk v cur (p # parts) = mount_dir_walk v n parts" using d(2) Some by simp
    then show ?thesis
      unfolding split using Cons.IH [OF Cons.prems(1,2) w IH] Cons.prems(5) t by auto
  next
    case None
    let ?v' = "set_children (snd (new_node v (Directory []))) cur (bt_insert p (length (nodes v)) ch)"
    note a = add_node [OF Cons.prems(1) d(1) disjI1 [OF refl] refl, where k = p]
    have m: "mount_dir_walk v cur (p # parts) = mount_dir_walk ?v' (length (nodes v)) parts"
      using d(2) None by (simp add: new_node_def)
    have r: "root ?v' = Some r" using a(4) Cons.prems(2) by simp
    have w: "walk (vchild (nodes ?v')) r (qs @ [p]) = Some (length (nodes v))"
      using a(3) r by (auto simp: dir_at_def)
    have t: "tree ?v' ps = (if ps = qs @ [p] then Some EDir else if prefix (qs @ [p]) ps then None else tree v ps)" for ps
      using a(2) by (simp add: entry_of_def)
    have none: "prefix (qs @ [p]) ps \<Longrightarrow> tree v ps = None" for ps
      by (rule tree_below_missing [OF Cons.prems(2) walk_entry [OF Cons.prems(1-3) d(2), of p, unfolded None]])
    have IH: "\<And>us f. strict_prefix us parts \<Longrightarrow> tree ?v' ((qs @ [p]) @ us) \<noteq> Some (EFile f)"
      unfolding t by auto
    have "tree ?v' ((qs @ [p]) @ parts) = None \<or> parts = []" unfolding t by auto
    from Cons.IH [OF a(1) r w IH this] a(5) none show ?thesis
      unfolding m split by (auto simp: t)
  qed
qed simp

text \<open>Removing an entry.\<close>

lemma remove_edge:
  assumes ok: "tree_ok v" and d: "dir_at v qs d ch" and v': "v' = set_children v d (bt_remove k ch)"
  shows "tree_ok v'" "tree v' ps = (if prefix (qs @ [k]) ps then None else tree v ps)"
    "vchild (nodes v') = set_edge (vchild (nodes v)) d k None" "root v' = root v" "files v' = files v"
    "entry_of (nodes v' ! n) = entry_of (nodes v ! n)"
proof -
  from ok obtain r where r: "root v = Some r" "\<And>n ch. n < length (nodes v) \<Longrightarrow> nodes v ! n = Directory ch \<Longrightarrow> bt_inv ch"
    by (rule tree_okD) blast
  have w: "walk (vchild (nodes v)) r qs = Some d" "nodes v ! d = Directory ch"
    using d r(1) by (auto simp: dir_at_def)
  have bd: "d < length (nodes v)" using walk_bound [OF ok r(1) w(1)] .
  have inv: "bt_inv ch" using r(2) [OF bd w(2)] .
  have ns: "nodes v' = (nodes v)[d := Directory (bt_remove k ch)]" by (simp add: v' set_children_def)
  show rt: "root v' = root v" and "files v' = files v" by (simp_all add: v' set_children_def)
  show c: "vchild (nodes v') = set_edge (vchild (nodes v)) d k None"
    unfolding ns using child_remove [OF bd w(2) inv] .
  show "tree_ok v'" by (rule tree_ok_update [OF ok d c rt ns]) (simp_all add: inv)
  show "tree v' ps = (if prefix (qs @ [k]) ps then None else tree v ps)"
    using tree_update [OF ok d c rt ns, of ps] by simp
  show "entry_of (nodes v' ! n) = entry_of (nodes v ! n)"
    unfolding ns using entry_update_dir [OF bd w(2)] .
qed

lemma remove_entry_spec:
  assumes ok: "tree_ok v" and pl: "plain (ps @ [p])"
  shows "if tree v (ps @ [p]) = None then \<exists>e. remove_entry v (path_of (ps @ [p])) = Some (Inl e, v)
         else \<exists>v'. remove_entry v (path_of (ps @ [p])) = Some (Inr (), v') \<and> tree_ok v' \<and> files v' = files v \<and>
                (\<forall>qs. tree v' qs = (if prefix (ps @ [p]) qs then None else tree v qs))"
proof -
  from ok obtain r where r: "root v = Some r" by (rule tree_okD)
  have pl': "plain ps" using pl by simp
  show ?thesis
  proof (cases "walk (vchild (nodes v)) r ps")
    case None
    then have "tree v (ps @ [p]) = None" using r by (simp add: tree_eq walk_append)
    then show ?thesis
      using resolve_path_walk(2) [OF ok pl' r None] by (auto simp: remove_entry_def resolve_parent_path [OF pl])
  next
    case (Some d)
    then have rp: "resolve_parent v (path_of (ps @ [p])) = Some (Inr (d, p))"
      using resolve_path_walk(1) [OF ok pl' r, of d] by (simp add: resolve_parent_path [OF pl])
    show ?thesis
    proof (cases "nodes v ! d")
      case (FileNode f)
      then have "vchild (nodes v) d p = None" by (simp add: vchild_def)
      then have "tree v (ps @ [p]) = None" using r Some by (simp add: tree_eq walk_snoc)
      then show ?thesis using rp FileNode by (simp add: remove_entry_def)
    next
      case (Directory ch)
      then have d: "dir_at v ps d ch" using r Some by (auto simp: dir_at_def)
      have t: "tree v (ps @ [p]) = None \<longleftrightarrow> bt_get ch p = None"
        using walk_entry [OF ok r Some Directory, of p] by (simp add: tree_eq [OF r])
      show ?thesis
        using remove_edge [OF ok d refl, where k = p] rp Directory t
        by (auto simp: remove_entry_def)
    qed
  qed
qed

text \<open>Entering a node that is in no directory.\<close>

lemma insert_edge:
  assumes ok: "tree_ok v" and d: "dir_at v qs d ch" and v': "v' = set_children v d (bt_insert k n ch)"
    and n: "n < length (nodes v)" "root v \<noteq> Some n" "\<And>a p. vchild (nodes v) a p \<noteq> Some n"
    and apart: "\<And>us. walk (vchild (nodes v)) n us \<noteq> Some d"
  shows "tree_ok v'" "files v' = files v"
    "tree v' ps = (if prefix (qs @ [k]) ps
        then map_option (\<lambda>m. entry_of (nodes v ! m)) (walk (vchild (nodes v)) n (drop (Suc (length qs)) ps))
        else tree v ps)"
proof -
  from ok obtain r where r: "root v = Some r" "\<And>n ch. n < length (nodes v) \<Longrightarrow> nodes v ! n = Directory ch \<Longrightarrow> bt_inv ch"
    by (rule tree_okD) blast
  have w: "walk (vchild (nodes v)) r qs = Some d" "nodes v ! d = Directory ch"
    using d r(1) by (auto simp: dir_at_def)
  have bd: "d < length (nodes v)" using walk_bound [OF ok r(1) w(1)] .
  have inv: "bt_inv ch" using r(2) [OF bd w(2)] .
  have ns: "nodes v' = (nodes v)[d := Directory (bt_insert k n ch)]" by (simp add: v' set_children_def)
  have rt: "root v' = root v" by (simp add: v' set_children_def)
  show "files v' = files v" by (simp add: v' set_children_def)
  have c: "vchild (nodes v') = set_edge (vchild (nodes v)) d k (Some n)"
    unfolding ns using child_insert [OF bd w(2)] .
  show "tree_ok v'" by (rule tree_ok_update [OF ok d c rt ns]) (use inv n in auto)
  have "walk (vchild (nodes v)) m us \<noteq> Some d" if "Some n = Some m" for m us
    using that apart by simp
  from tree_update [OF ok d c rt ns this, of ps]
  show "tree v' ps = (if prefix (qs @ [k]) ps
        then map_option (\<lambda>m. entry_of (nodes v ! m)) (walk (vchild (nodes v)) n (drop (Suc (length qs)) ps))
        else tree v ps)" by simp
qed

text \<open>The state between the two halves of a move: the entry is out of its directory, and the
  node is reached from nowhere and leads where it led.\<close>

lemma detach_entry:
  assumes ok: "tree_ok v" and r: "root v = Some r" and d: "dir_at v ps d ch" and n: "bt_get ch p = Some n"
    and v1: "v1 = set_children v d (bt_remove p ch)"
  shows "vchild (nodes v1) a k \<noteq> Some n" "root v1 \<noteq> Some n" "n < length (nodes v1)"
    "walk (vchild (nodes v1)) n us = walk (vchild (nodes v)) n us"
    "walk (vchild (nodes v)) r (ps @ p # us) = walk (vchild (nodes v)) n us"
proof -
  let ?c = "vchild (nodes v)"
  from ok r have uniq: "unique_parents ?c r" and bnd: "\<And>n p m. ?c n p = Some m \<Longrightarrow> m < length (nodes v)"
    by (auto elim!: tree_okD)
  have w: "walk ?c r ps = Some d" "nodes v ! d = Directory ch" using d r by (auto simp: dir_at_def)
  have edge: "?c d p = Some n" using walk_bound [OF ok r w(1)] w(2) n by (simp add: vchild_def)
  have c1: "vchild (nodes v1) = set_edge ?c d p None" and r1: "root v1 = root v"
    using remove_edge(3,4) [OF ok d v1] by auto
  show "vchild (nodes v1) a k \<noteq> Some n"
    using uniq edge unfolding c1 set_edge_def unique_parents_def by (metis option.distinct(1))
  show "root v1 \<noteq> Some n" using uniq edge r r1 by (auto simp: unique_parents_def)
  show "n < length (nodes v1)" using bnd [OF edge] by (simp add: v1 set_children_def)
  show through: "walk ?c r (ps @ p # us) = walk ?c n us" for us
    using w(1) edge by (simp add: walk_append)
  show "walk (vchild (nodes v1)) n us = walk ?c n us"
    unfolding c1
  proof (rule walk_set_edge_other)
    fix us' assume "walk ?c n us' = Some d"
    then have "ps = ps @ p # us'" using walk_inj [OF uniq w(1), of "ps @ p # us'"] through by simp
    then show "\<not> prefix (us' @ [p]) us" by simp
  qed
qed

text \<open>Moving an entry.\<close>

lemma rename_spec:
  assumes ok: "tree_ok v" and pl: "plain (ps @ [p])" "plain (qs @ [q])"
    and src: "tree v (ps @ [p]) \<noteq> None" and dst: "tree v qs = Some EDir" and sub: "\<not> prefix (ps @ [p]) qs"
  shows "\<exists>v'. rename v (path_of (ps @ [p])) (path_of (qs @ [q])) = Some (Inr (), v') \<and> tree_ok v' \<and>
           files v' = files v \<and>
           (\<forall>rs. tree v' rs =
              (if prefix (qs @ [q]) rs then tree v (ps @ p # drop (Suc (length qs)) rs)
               else if prefix (ps @ [p]) rs then None else tree v rs))"
proof -
  let ?c = "vchild (nodes v)"
  from ok obtain r where r: "root v = Some r" and uniq: "unique_parents ?c r" by (rule tree_okD)
  obtain d where d: "walk ?c r ps = Some d" and "walk ?c r (ps @ [p]) \<noteq> None"
    using src r by (auto simp: tree_eq walk_snoc bind_eq_Some_conv)
  then obtain ch where ch: "nodes v ! d = Directory ch"
    by (cases "nodes v ! d") (auto simp: walk_snoc vchild_def split: if_splits)
  have at: "dir_at v ps d ch" using r d ch by (auto simp: dir_at_def)
  obtain n where n: "bt_get ch p = Some n" "walk ?c r (ps @ [p]) = Some n"
    using walk_entry [OF ok r d ch, of p] src by (auto simp: tree_eq [OF r])
  obtain e where e: "walk ?c r qs = Some e" using dst r by (auto simp: tree_eq)
  define v1 where "v1 = set_children v d (bt_remove p ch)"
  note R = remove_edge [OF ok at v1_def] and D = detach_entry [OF ok r at n(1) v1_def]
  have r1: "root v1 = Some r" using R(4) r by simp
  have e1: "walk (vchild (nodes v1)) r qs = Some e"
    unfolding R(3) using walk_set_edge [OF uniq d, of p None qs] sub e by simp
  have "\<And>f. tree v1 qs \<noteq> Some (EFile f)" using R(2) sub dst by simp
  with r1 e1 obtain ch1 where ch1: "dir_at v1 qs e ch1" "nodes v1 ! e = Directory ch1" by (rule dir_atI)
  have apart: "walk (vchild (nodes v1)) n us \<noteq> Some e" for us
    using walk_inj [OF uniq e, of "ps @ p # us"] sub by (auto simp: D(4,5) prefix_def)
  define v2 where "v2 = set_children v1 e (bt_insert q n ch1)"
  note I = insert_edge [OF R(1) ch1(1) v2_def D(3,2,1) apart]
  have "rename v (path_of (ps @ [p])) (path_of (qs @ [q])) = Some (Inr (), v2)"
    using resolve_path_walk(1) [OF ok pl(1) r, of n] resolve_path_walk(1) [OF ok _ r, of ps d]
      resolve_path_walk(1) [OF ok _ r, of qs e] pl n(2) d e ch ch1(2)
    by (simp add: rename_def resolve_parent_path [OF pl(1)] resolve_parent_path [OF pl(2)] update_dir_def
        flip: v1_def v2_def)
  moreover have "tree v2 rs = (if prefix (qs @ [q]) rs then tree v (ps @ p # drop (Suc (length qs)) rs)
               else if prefix (ps @ [p]) rs then None else tree v rs)" for rs
    unfolding I(3) D(4) R(2,6) tree_eq [OF r] D(5) ..
  ultimately show ?thesis using I(1,2) R(5) by auto
qed

end
