(* ===== verification/Ziqa_Vfs_Props.thy ===== *)
theory Ziqa_Vfs_Props
  imports Ziqa_Vfs_Ops
begin

text \<open>
  The virtual file system against its specification: sequences of operations on the node store
  are sequences of operations on a map from lists of names to entries, what is written to a
  file is read back, and the recursive listing ends and lists every path.
\<close>

section \<open>Operations and their specification\<close>

datatype 'f vfs_op =
  Create "string list" "'f option"
| Mkdir "string list"
| Remove "string list" "string + unit"
| Rmdir "string list" "string + unit" "string + unit"
| Rename "string list" "string list"

definition succeeded :: "(abi_error + unit) \<times> 'f vfs \<Rightarrow> bool \<times> 'f vfs" where
  "succeeded rv = (case rv of (Inl _, v) \<Rightarrow> (False, v) | (Inr _, v) \<Rightarrow> (True, v))"

fun run_op :: "'f \<Rightarrow> 'f vfs \<Rightarrow> 'f vfs_op \<Rightarrow> (bool \<times> 'f vfs) option" where
  "run_op empty_file v (Create ps created) = map_option (Pair True) (vfs_create created empty_file v (path_of ps))"
| "run_op empty_file v (Mkdir ps) = map_option (Pair True) (mkdir v (path_of ps))"
| "run_op empty_file v (Remove ps unlinked) = map_option succeeded (remove unlinked v (path_of ps))"
| "run_op empty_file v (Rmdir ps removed unlinked) = map_option succeeded (rmdir removed unlinked v (path_of ps))"
| "run_op empty_file v (Rename ps qs) = map_option succeeded (rename v (path_of ps) (path_of qs))"

fun run_ops :: "'f \<Rightarrow> 'f vfs \<Rightarrow> 'f vfs_op list \<Rightarrow> (bool list \<times> 'f vfs) option" where
  "run_ops empty_file v [] = Some ([], v)"
| "run_ops empty_file v (op # ops) =
     (case run_op empty_file v op of
        None \<Rightarrow> None
      | Some (r, v) \<Rightarrow> map_option (\<lambda>(rs, v). (r # rs, v)) (run_ops empty_file v ops))"

text \<open>The specification: a map of entries and the files made so far.\<close>

type_synonym 'f fs_spec = "(string list \<Rightarrow> entry option) \<times> 'f list"

text \<open>A list of names that meets a file before its end.\<close>

definition blocked :: "(string list \<Rightarrow> entry option) \<Rightarrow> string list \<Rightarrow> bool" where
  "blocked t ps \<longleftrightarrow>
     list_ex (\<lambda>k. case t (take k ps) of Some (EFile _) \<Rightarrow> True | _ \<Rightarrow> False) [0..<length ps]"

definition add_path :: "entry \<Rightarrow> string list \<Rightarrow> (string list \<Rightarrow> entry option) \<Rightarrow> string list \<Rightarrow> entry option" where
  "add_path e ps t qs = (if qs = ps then Some e else if prefix qs ps then Some EDir else t qs)"

definition cut_path :: "string list \<Rightarrow> (string list \<Rightarrow> entry option) \<Rightarrow> string list \<Rightarrow> entry option" where
  "cut_path ps t qs = (if prefix ps qs then None else t qs)"

definition move_path ::
  "string list \<Rightarrow> string list \<Rightarrow> (string list \<Rightarrow> entry option) \<Rightarrow> string list \<Rightarrow> entry option" where
  "move_path ps qs t rs = (if prefix qs rs then t (ps @ drop (length qs) rs) else cut_path ps t rs)"

definition spec_remove :: "bool \<Rightarrow> string list \<Rightarrow> 'f fs_spec \<Rightarrow> bool \<times> 'f fs_spec" where
  "spec_remove disk_ok ps s =
     (if disk_ok \<and> fst s ps \<noteq> None then (True, cut_path ps (fst s), snd s) else (False, s))"

fun spec_op :: "'f \<Rightarrow> 'f fs_spec \<Rightarrow> 'f vfs_op \<Rightarrow> bool \<times> 'f fs_spec" where
  "spec_op empty_file (t, fs) (Create ps created) =
     (if t ps \<noteq> None then (True, t, fs)
      else (True, if blocked t ps then t else add_path (EFile (length fs)) ps t,
            fs @ [if under_fat (path_of ps) then (case created of Some f \<Rightarrow> f | None \<Rightarrow> empty_file) else empty_file]))"
| "spec_op empty_file (t, fs) (Mkdir ps) =
     (True, if t ps \<noteq> None \<or> blocked t ps then t else add_path EDir ps t, fs)"
| "spec_op empty_file s (Remove ps unlinked) = spec_remove (under_fat (path_of ps) \<longrightarrow> unlinked = Inr ()) ps s"
| "spec_op empty_file s (Rmdir ps removed unlinked) =
     spec_remove (under_fat (path_of ps) \<longrightarrow> removed = Inr () \<and> unlinked = Inr ()) ps s"
| "spec_op empty_file (t, fs) (Rename ps qs) =
     (if t ps = None \<or> t (butlast qs) = None then (False, t, fs) else (True, move_path ps qs t, fs))"

text \<open>The operations the specification covers: a move goes into a directory outside what is moved.\<close>

fun covered :: "(string list \<Rightarrow> entry option) \<Rightarrow> 'f vfs_op \<Rightarrow> bool" where
  "covered t (Create ps _) = plain ps"
| "covered t (Mkdir ps) = plain ps"
| "covered t (Remove ps _) = (plain ps \<and> ps \<noteq> [])"
| "covered t (Rmdir ps _ _) = (plain ps \<and> ps \<noteq> [])"
| "covered t (Rename ps qs) =
     (plain ps \<and> plain qs \<and> ps \<noteq> [] \<and> qs \<noteq> [] \<and> t (butlast qs) \<in> {None, Some EDir} \<and> \<not> prefix ps (butlast qs))"

fun spec_ops :: "'f \<Rightarrow> 'f fs_spec \<Rightarrow> 'f vfs_op list \<Rightarrow> bool list \<times> 'f fs_spec" where
  "spec_ops empty_file s [] = ([], s)"
| "spec_ops empty_file s (op # ops) =
     (let (r, s) = spec_op empty_file s op; (rs, s) = spec_ops empty_file s ops in (r # rs, s))"

fun covered_ops :: "'f \<Rightarrow> 'f fs_spec \<Rightarrow> 'f vfs_op list \<Rightarrow> bool" where
  "covered_ops empty_file s [] = True"
| "covered_ops empty_file s (op # ops) =
     (covered (fst s) op \<and> covered_ops empty_file (snd (spec_op empty_file s op)) ops)"

section \<open>Refinement\<close>

lemma tree_root: "tree_ok v \<Longrightarrow> tree v [] = Some EDir"
  by (auto elim!: tree_okD simp: tree_eq entry_of_def node_is_dir_def split: vfs_node.splits)

lemma exists_path_tree:
  assumes "tree_ok v" "plain ps"
  shows "exists_path v (path_of ps) = Some (tree v ps \<noteq> None)"
proof -
  from assms(1) obtain r where r: "root v = Some r" by (rule tree_okD)
  show ?thesis
    using resolve_path_walk(2) [OF assms r] resolve_path_walk(1) [OF assms r, THEN iffD2]
    by (cases "walk (vchild (nodes v)) r ps") (fastforce simp: exists_path_def tree_eq [OF r])+
qed

lemma files_irrelevant [simp]:
  "tree (v\<lparr>files := fs\<rparr>) = tree v" "tree_ok (v\<lparr>files := fs\<rparr>) = tree_ok v"
  by (cases "root v") (simp_all add: tree_def tree_ok_def fun_eq_iff)

lemma blocked_iff: "blocked t ps \<longleftrightarrow> (\<exists>us f. strict_prefix us ps \<and> t us = Some (EFile f))"
proof
  assume "blocked t ps"
  then obtain k f where k: "k < length ps" "t (take k ps) = Some (EFile f)"
    unfolding blocked_def list_ex_iff by (elim bexE) (auto split: option.split_asm entry.split_asm)
  moreover from k(1) have "strict_prefix (take k ps) ps"
    by (auto simp: strict_prefix_def take_is_prefix dest: arg_cong [of _ _ length])
  ultimately show "\<exists>us f. strict_prefix us ps \<and> t us = Some (EFile f)" by blast
next
  assume "\<exists>us f. strict_prefix us ps \<and> t us = Some (EFile f)"
  then obtain us f where "strict_prefix us ps" "t us = Some (EFile f)" by blast
  then show "blocked t ps"
    unfolding blocked_def list_ex_iff by (intro bexI [of _ "length us"]) (auto simp: strict_prefix_def prefix_def)
qed

lemma walk_to_file:
  assumes "walk (vchild (nodes v)) cur us = Some m" "nodes v ! m = FileNode f" "strict_prefix us parts"
  shows "mount_walk v cur parts fid = v" "mount_dir_walk v cur parts = v"
  using assms
proof (induction us arbitrary: cur parts)
  case (Cons u us)
  { case 1 then show ?case using Cons.IH
      by (cases parts) (auto simp: vchild_def split: option.splits if_splits vfs_node.splits)
  next
    case 2 then show ?case using Cons.IH
      by (cases parts) (auto simp: vchild_def split: option.splits if_splits vfs_node.splits) }
qed (auto simp: strict_prefix_def neq_Nil_conv [of "parts" for parts] dest!: not_sym [of "[]"])

lemma entry_of_file: "entry_of n = EFile f \<Longrightarrow> n = FileNode f"
  by (cases n) (simp_all add: entry_of_def)

lemma blocked_walk:
  assumes "tree_ok v" "root v = Some r" "blocked (tree v) ps"
  shows "mount_walk v r ps fid = v" "mount_dir_walk v r ps = v"
proof -
  from assms(3) obtain us f where "strict_prefix us ps" "tree v us = Some (EFile f)"
    unfolding blocked_iff by blast
  moreover from this assms(2) obtain m where "walk (vchild (nodes v)) r us = Some m" "nodes v ! m = FileNode f"
    by (auto simp: tree_eq dest: entry_of_file)
  ultimately show "mount_walk v r ps fid = v" "mount_dir_walk v r ps = v" using walk_to_file by blast+
qed

lemma mount_tree:
  assumes "tree_ok v" "plain ps" "tree v ps = None"
  shows "tree_ok (mount v (path_of ps) fid)" "files (mount v (path_of ps) fid) = files v"
    "tree (mount v (path_of ps) fid) = (if blocked (tree v) ps then tree v else add_path (EFile fid) ps (tree v))"
proof -
  from assms(1) obtain r where r: "root v = Some r" by (rule tree_okD)
  have ne: "ps \<noteq> []" using assms(3) tree_root [OF assms(1)] by auto
  have m: "mount v (path_of ps) fid = mount_walk v r ps fid"
    by (simp add: mount_def vfs_init_def r nonempty_parts_path [OF assms(2)])
  have below: "tree v qs = None" if "prefix ps qs" for qs
    using assms(3) that by (intro tree_below_missing [OF r]) (simp_all add: tree_eq [OF r])
  have open_path: "\<not> blocked (tree v) ps \<Longrightarrow> tree_ok (mount_walk v r ps fid) \<and> files (mount_walk v r ps fid) = files v \<and>
      (\<forall>qs. tree (mount_walk v r ps fid) qs = (if qs = ps then Some (EFile fid) else if prefix ps qs then None
             else if prefix qs ps \<and> qs \<noteq> [] then Some EDir else tree v qs))"
    using mount_walk_spec [OF assms(1) r, of "[]" r ps fid] ne unfolding blocked_iff by simp
  show "tree_ok (mount v (path_of ps) fid)" "files (mount v (path_of ps) fid) = files v"
    "tree (mount v (path_of ps) fid) = (if blocked (tree v) ps then tree v else add_path (EFile fid) ps (tree v))"
    using blocked_walk(1) [OF assms(1) r] open_path assms(1) m
    by (cases "blocked (tree v) ps"; auto simp: fun_eq_iff add_path_def below tree_root)+
qed

lemma mount_dir_tree:
  assumes "tree_ok v" "plain ps" "tree v ps = None"
  shows "tree_ok (mount_dir v (path_of ps))" "files (mount_dir v (path_of ps)) = files v"
    "tree (mount_dir v (path_of ps)) = (if blocked (tree v) ps then tree v else add_path EDir ps (tree v))"
proof -
  from assms(1) obtain r where r: "root v = Some r" by (rule tree_okD)
  have m: "mount_dir v (path_of ps) = mount_dir_walk v r ps"
    by (simp add: mount_dir_def vfs_init_def r nonempty_parts_path [OF assms(2)])
  have open_path: "\<not> blocked (tree v) ps \<Longrightarrow> tree_ok (mount_dir_walk v r ps) \<and> files (mount_dir_walk v r ps) = files v \<and>
      (\<forall>qs. tree (mount_dir_walk v r ps) qs = (if prefix qs ps \<and> qs \<noteq> [] then Some EDir else tree v qs))"
    using mount_dir_walk_spec [OF assms(1) r, of "[]" r ps] assms(3) unfolding blocked_iff by simp
  show "tree_ok (mount_dir v (path_of ps))" "files (mount_dir v (path_of ps)) = files v"
    "tree (mount_dir v (path_of ps)) = (if blocked (tree v) ps then tree v else add_path EDir ps (tree v))"
    using blocked_walk(2) [OF assms(1) r] open_path assms m
    by (cases "blocked (tree v) ps"; auto simp: fun_eq_iff add_path_def tree_root)+
qed

lemma create_sim:
  assumes "tree_ok v" "plain ps"
  shows "\<exists>v'. vfs_create created empty_file v (path_of ps) = Some v' \<and> tree_ok v' \<and>
           spec_op empty_file (tree v, files v) (Create ps created) = (True, tree v', files v')"
proof (cases "tree v ps = None")
  case True
  then show ?thesis
    using mount_tree [of "v\<lparr>files := files v @ [f]\<rparr>" ps "length (files v)" for f] assms
    by (simp add: vfs_create_def exists_path_tree new_file_def Let_def)
qed (use assms in \<open>simp add: vfs_create_def exists_path_tree\<close>)

lemma mkdir_sim:
  assumes "tree_ok v" "plain ps"
  shows "\<exists>v'. mkdir v (path_of ps) = Some v' \<and> tree_ok v' \<and>
           spec_op empty_file (tree v, files v) (Mkdir ps) = (True, tree v', files v')"
proof (cases "ps = []")
  case True
  then show ?thesis using assms(1) by (simp add: mkdir_def path_of_def trim_end_def tree_root)
next
  case False
  then have "trim_end (path_of ps) = path_of ps" "path_of ps \<noteq> []"
    using trim_end_path [OF assms(2)] by (simp_all add: path_of_def)
  then show ?thesis
    using mount_dir_tree [OF assms] assms by (cases "tree v ps = None") (auto simp: mkdir_def exists_path_tree)
qed

lemma remove_entry_sim:
  assumes "tree_ok v" "plain ps" "ps \<noteq> []"
  shows "\<exists>r v'. map_option succeeded (remove_entry v (path_of ps)) = Some (r, v') \<and> tree_ok v' \<and>
           spec_remove True ps (tree v, files v) = (r, tree v', files v')"
proof -
  obtain qs q where ps: "ps = qs @ [q]" using assms(3) by (metis rev_exhaust)
  then show ?thesis
    using remove_entry_spec [of v qs q] assms
    by (cases "tree v ps = None")
      (auto simp: succeeded_def spec_remove_def cut_path_def fun_eq_iff split: if_splits)
qed

lemma remove_sim:
  assumes "tree_ok v" "plain ps" "ps \<noteq> []"
  shows "\<exists>r v'. map_option succeeded (remove unlinked v (path_of ps)) = Some (r, v') \<and> tree_ok v' \<and>
           spec_remove (under_fat (path_of ps) \<longrightarrow> unlinked = Inr ()) ps (tree v, files v) = (r, tree v', files v')"
  using remove_entry_sim [OF assms] assms(1)
  by (cases unlinked) (auto simp: remove_def spec_remove_def succeeded_def)

lemma rmdir_sim:
  assumes "tree_ok v" "plain ps" "ps \<noteq> []"
  shows "\<exists>r v'. map_option succeeded (rmdir removed unlinked v (path_of ps)) = Some (r, v') \<and> tree_ok v' \<and>
           spec_remove (under_fat (path_of ps) \<longrightarrow> removed = Inr () \<and> unlinked = Inr ()) ps (tree v, files v) =
             (r, tree v', files v')"
proof (cases "under_fat (path_of ps) \<and> removed \<noteq> Inr ()")
  case True
  then show ?thesis
    using assms(1) by (intro exI [of _ False], cases removed) (simp_all add: rmdir_def trim_end_path [OF assms(2,3)] spec_remove_def succeeded_def)
next
  case False
  then have "rmdir removed unlinked v (path_of ps) = remove unlinked v (path_of ps)"
    by (auto simp: rmdir_def Let_def trim_end_path [OF assms(2,3)])
  moreover have "(under_fat (path_of ps) \<longrightarrow> removed = Inr () \<and> unlinked = Inr ()) \<longleftrightarrow>
      (under_fat (path_of ps) \<longrightarrow> unlinked = Inr ())" using False by blast
  ultimately show ?thesis using remove_sim [OF assms, of unlinked] by (simp only:)
qed

lemma rename_error:
  assumes "tree_ok v" "plain (ps @ [p])" "plain (qs @ [q])" "tree v (ps @ [p]) = None \<or> tree v qs = None"
  shows "\<exists>e. rename v (path_of (ps @ [p])) (path_of (qs @ [q])) = Some (Inl e, v)"
proof -
  from assms(1) obtain r where r: "root v = Some r" by (rule tree_okD)
  have res: "(\<exists>e. resolve_node v (path_of us) = Some (Inl e)) \<or>
      (\<exists>n. resolve_node v (path_of us) = Some (Inr n) \<and> tree v us \<noteq> None)" if "plain us" for us
    using resolve_path_walk [OF assms(1) that r]
    by (cases "walk (vchild (nodes v)) r us") (auto simp: tree_eq [OF r])
  have par: "tree v ps \<noteq> None" if "tree v (ps @ [p]) \<noteq> None"
    using that by (auto simp: tree_eq [OF r] walk_snoc bind_eq_Some_conv)
  show ?thesis
    using res [of "ps @ [p]"] res [of ps] res [of qs] assms
    by (auto simp: rename_def resolve_parent_path [OF assms(2)] resolve_parent_path [OF assms(3)])
qed

lemma rename_sim:
  assumes "tree_ok v" "covered (tree v) (Rename ps qs)"
  shows "\<exists>r v'. map_option succeeded (rename v (path_of ps) (path_of qs)) = Some (r, v') \<and> tree_ok v' \<and>
           spec_op empty_file (tree v, files v) (Rename ps qs) = (r, tree v', files v')"
proof -
  obtain us p ws q where ps: "ps = us @ [p]" and qs: "qs = ws @ [q]"
    using assms(2) by (metis covered.simps(5) rev_exhaust)
  show ?thesis
  proof (cases "tree v ps = None \<or> tree v ws = None")
    case True
    then show ?thesis using rename_error [OF assms(1), of us p ws q] assms by (auto simp: ps qs succeeded_def)
  next
    case False
    then show ?thesis
      using rename_spec [OF assms(1), of us p ws q] assms
      by (intro exI [of _ True]) (auto simp: ps qs succeeded_def fun_eq_iff move_path_def cut_path_def)
  qed
qed

lemma run_op_sim:
  assumes "tree_ok v" "covered (tree v) op"
  shows "\<exists>r v'. run_op empty_file v op = Some (r, v') \<and> tree_ok v' \<and>
           spec_op empty_file (tree v, files v) op = (r, tree v', files v')"
proof (cases op)
  case (Create ps c)
  then show ?thesis using create_sim [OF assms(1), of ps c empty_file] assms(2) by auto
next
  case (Mkdir ps)
  then show ?thesis using mkdir_sim [OF assms(1), of ps empty_file] assms(2) by auto
next
  case (Remove ps u)
  then show ?thesis using remove_sim [OF assms(1), of ps u] assms(2) by simp
next
  case (Rmdir ps d u)
  then show ?thesis using rmdir_sim [OF assms(1), of ps d u] assms(2) by simp
next
  case (Rename ps qs)
  then show ?thesis using rename_sim [OF assms(1), of ps qs empty_file] assms(2) by simp
qed

text \<open>(C4) The file tree refines a map from lists of names to entries: any sequence of file
  creations, directory creations, removals and moves on canonical paths runs on the shared node
  store without a panic, answers success and failure as the map says, keeps the store a tree,
  and leaves exactly the entries and files of the map.  A move is covered when its target
  directory is a directory, or is missing, and lies outside what is moved.\<close>

theorem vfs_refines_tree:
  assumes "tree_ok v" "covered_ops empty_file (tree v, files v) ops"
  shows "\<exists>rs v'. run_ops empty_file v ops = Some (rs, v') \<and> tree_ok v' \<and>
           spec_ops empty_file (tree v, files v) ops = (rs, tree v', files v')"
  using assms
proof (induction ops arbitrary: v)
  case (Cons op ops)
  from Cons.prems obtain r v1 where s: "run_op empty_file v op = Some (r, v1)" "tree_ok v1"
    "spec_op empty_file (tree v, files v) op = (r, tree v1, files v1)"
    using run_op_sim [of v op empty_file] by auto
  with Cons.IH [of v1] Cons.prems(2) show ?case by (auto simp: Let_def split: prod.splits)
qed simp

lemma tree_ok_new: "tree_ok (vfs_init vfs_new)"
  by (auto simp: tree_ok_def vfs_init_def vfs_new_def new_node_def node_is_dir_def unique_parents_def vchild_def)

definition demo_vfs :: "nat vfs" where
  "demo_vfs = vfs_init vfs_new"

lemma demo_vfs_ok: "tree_ok demo_vfs"
  by (simp add: demo_vfs_def tree_ok_new)

definition demo_ops :: "nat vfs_op list" where
  "demo_ops =
     [Mkdir [''a'', ''b''], Create [''a'', ''f''] None, Rename [''a''] [''c''], Create [''c'', ''f'', ''x''] None,
      Remove [''a''] (Inr ()), Rmdir [''c'', ''b''] (Inr ()) (Inr ())]"

theorem vfs_refines_tree_witness:
  "\<exists>v. run_ops 7 demo_vfs demo_ops = Some ([True, True, True, True, False, True], v) \<and> tree_ok v \<and>
     tree v [''c'', ''f''] = Some (EFile 0) \<and> tree v [''c'', ''b''] = None \<and> tree v [''a''] = None \<and> files v = [7, 7]"
proof -
  have cov: "covered_ops 7 (tree demo_vfs, files demo_vfs) demo_ops" by code_simp
  have "map_option fst (run_ops 7 demo_vfs demo_ops) = Some [True, True, True, True, False, True]" by code_simp
  moreover have "(let t = fst (snd (spec_ops 7 (tree demo_vfs, files demo_vfs) demo_ops))
      in t [''c'', ''f''] = Some (EFile 0) \<and> t [''c'', ''b''] = None \<and> t [''a''] = None)" by code_simp
  moreover have "snd (snd (spec_ops 7 (tree demo_vfs, files demo_vfs) demo_ops)) = [7, 7]" by code_simp
  ultimately show ?thesis using vfs_refines_tree [OF demo_vfs_ok cov] by (auto simp: Let_def)
qed

section \<open>Reading and writing\<close>

lemma resolve_file:
  assumes "tree_ok v" "plain ps" "tree v ps = Some (EFile f)"
  obtains n where "resolve_node v (path_of ps) = Some (Inr n)" "nodes v ! n = FileNode f"
proof -
  from assms(1) obtain r where r: "root v = Some r" by (rule tree_okD)
  from assms(3) obtain n where n: "walk (vchild (nodes v)) r ps = Some n" "nodes v ! n = FileNode f"
    by (auto simp: tree_eq [OF r] dest: entry_of_file)
  with resolve_path_walk(1) [OF assms(1,2) r, of n] show thesis by (intro that) auto
qed

lemma resolve_node_files [simp]: "resolve_node (v\<lparr>files := fs\<rparr>) path = resolve_node v path"
  by (cases "root v") (simp_all add: resolve_node_def Let_def)

text \<open>Access to a file through its path is access to the file.\<close>

lemma read_raw_file:
  assumes "tree_ok v" "plain ps" "tree v ps = Some (EFile f)"
  shows "read_raw ops v (path_of ps) buf off = f_read ops (files v ! f) buf off"
    "write_raw ops v (path_of ps) buf off =
       map_option (\<lambda>(r, x). (r, v\<lparr>files := (files v)[f := x]\<rparr>)) (f_write ops (files v ! f) buf off)"
    "file_size ops v (path_of ps) = Some (Some (f_size ops (files v ! f)))"
proof -
  from assms obtain n where "resolve_node v (path_of ps) = Some (Inr n)" "nodes v ! n = FileNode f"
    by (rule resolve_file)
  then show "read_raw ops v (path_of ps) buf off = f_read ops (files v ! f) buf off"
    "write_raw ops v (path_of ps) buf off =
       map_option (\<lambda>(r, x). (r, v\<lparr>files := (files v)[f := x]\<rparr>)) (f_write ops (files v ! f) buf off)"
    "file_size ops v (path_of ps) = Some (Some (f_size ops (files v ! f)))"
    by (simp_all add: read_raw_def write_raw_def file_size_def)
qed

context file_object
begin

text \<open>What is written through a path is read back through it; the other files and the tree stay.\<close>

lemma path_write_read:
  assumes v: "tree_ok v" "plain ps" "tree v ps = Some (EFile f)" "f < length (files v)"
    and w: "write_raw ops v (path_of ps) buf off = Some (Inr n, v')"
  shows "read_raw ops v' (path_of ps) (replicate n 0) off = Some (Inr n, take n buf)"
    "tree_ok v' \<and> tree v' = tree v" "\<forall>g. g \<noteq> f \<longrightarrow> files v' ! g = files v ! g"
    "off' + k \<le> off \<or> off + n \<le> off' \<Longrightarrow> off' + k \<le> f_size ops (files v ! f) \<Longrightarrow>
       read_raw ops v' (path_of ps) (replicate k 0) off' = read_raw ops v (path_of ps) (replicate k 0) off'"
proof -
  from w obtain x where x: "f_write ops (files v ! f) buf off = Some (Inr n, x)"
    "v' = v\<lparr>files := (files v)[f := x]\<rparr>"
    by (auto simp: read_raw_file [OF v(1-3)])
  show t: "tree_ok v' \<and> tree v' = tree v" and "\<forall>g. g \<noteq> f \<longrightarrow> files v' ! g = files v ! g"
    using v(1) by (auto simp: x(2))
  have f': "files v' ! f = x" using v(4) by (simp add: x(2))
  have rd: "read_raw ops v' (path_of ps) b o' = f_read ops x b o'" for b o'
    using read_raw_file(1) [of v' ps f ops] v t f' by simp
  show "read_raw ops v' (path_of ps) (replicate n 0) off = Some (Inr n, take n buf)"
    using read_written [OF x(1)] by (simp add: rd)
  show "off' + k \<le> off \<or> off + n \<le> off' \<Longrightarrow> off' + k \<le> f_size ops (files v ! f) \<Longrightarrow>
       read_raw ops v' (path_of ps) (replicate k 0) off' = read_raw ops v (path_of ps) (replicate k 0) off'"
    using read_other [OF x(1)] by (simp add: rd read_raw_file [OF v(1-3)])
qed

end

lemma ram_write_fits:
  assumes "off + length buf < 2 ^ 63"
  shows "\<exists>data'. ram_write data buf off = Some (Inr (length buf), data')"
proof -
  have "(2 :: nat) ^ 63 < 2 ^ 64" by simp
  with assms have "off + length buf < 2 ^ 64" by (rule less_trans)
  then have "(off + length buf) mod 2 ^ 64 = off + length buf" by (rule mod_less)
  moreover have "\<not> 2 ^ 63 \<le> off + length buf" using assms by (simp only: not_le)
  ultimately show ?thesis by (simp only: ram_write_def Let_def) simp
qed

lemma read_all_done: "length buf \<le> tot \<Longrightarrow> read_all_from ops v path left buf tot = Some (Inr (take tot buf))"
  by (cases left) simp_all

text \<open>The whole file is read in one round.\<close>

lemma ram_read_raw_all:
  assumes "tree_ok v" "plain ps" "tree v ps = Some (EFile f)"
  shows "read_raw_all ram_ops v (path_of ps) = Some (Inr (files v ! f))"
proof -
  let ?d = "files v ! f"
  have "f_read ram_ops ?d (replicate (length ?d) 0) 0 = Some (Inr (length ?d), ?d)"
    by (auto simp: ram_ops_def ram_read_def Let_def put_bytes_def slice_def)
  then have "read_all_from ram_ops v (path_of ps) (length ?d) (replicate (length ?d) 0) 0 = Some (Inr ?d)"
    by (cases "length ?d") (auto simp: read_raw_file [OF assms] read_all_done)
  moreover have "f_size ram_ops ?d = length ?d" by (simp add: ram_ops_def)
  ultimately show ?thesis by (simp add: read_raw_all_def read_raw_file(3) [OF assms])
qed

lemma write_permission_reads: "has_permission caps res True x \<Longrightarrow> has_permission caps res False x"
  by (auto simp: has_permission_def list_ex_iff allows_def split: if_splits)


definition demo_ram :: "bytes vfs" where
  "demo_ram = mount ((vfs_init vfs_new)\<lparr>files := [[]]\<rparr>) (path_of [''etc'', ''f'']) 0"

definition demo_writer :: process where
  "demo_writer = (process_new demo_env 0 1 RedoxElf 0 0)\<lparr>p_capabilities := [token_new 1 None File full_perm 1]\<rparr>"

lemma demo_ram_ok: "tree_ok demo_ram" "tree demo_ram [''etc'', ''f''] = Some (EFile 0)" "files demo_ram = [[]]"
proof -
  let ?v = "(vfs_init vfs_new)\<lparr>files := [[]]\<rparr> :: bytes vfs"
  have "tree ?v [''etc'', ''f''] = None" by code_simp
  then show "tree_ok demo_ram" "files demo_ram = [[]]"
    using mount_tree(1,2) [of ?v "[''etc'', ''f'']" 0] tree_ok_new by (simp_all add: demo_ram_def plain_seg_def)
  show "tree demo_ram [''etc'', ''f''] = Some (EFile 0)" by code_simp
qed


section \<open>A move into a file\<close>

text \<open>(C40) Moving an entry to a path whose directory is a file answers success and loses the
  entry: afterwards nothing is found at the old path or below it, the new path does not exist,
  and every other path is as before.\<close>

theorem rename_into_file_loses_entry:
  assumes "tree_ok v" "plain (ps @ [p])" "plain (qs @ [q])"
    and "tree v (ps @ [p]) \<noteq> None" "tree v qs = Some (EFile f)"
  shows "\<exists>v'. rename v (path_of (ps @ [p])) (path_of (qs @ [q])) = Some (Inr (), v') \<and> tree_ok v' \<and>
           tree v' (qs @ [q]) = None \<and>
           (\<forall>rs. tree v' rs = (if prefix (ps @ [p]) rs then None else tree v rs))"
proof -
  let ?c = "vchild (nodes v)"
  from assms(1) obtain r where r: "root v = Some r" by (rule tree_okD)
  from assms(4) r obtain d n where d: "walk ?c r ps = Some d" and n: "walk ?c r (ps @ [p]) = Some n"
    by (auto simp: tree_eq walk_snoc bind_eq_Some_conv)
  then obtain ch where ch: "nodes v ! d = Directory ch"
    by (cases "nodes v ! d") (auto simp: walk_snoc vchild_def split: if_splits)
  have at: "dir_at v ps d ch" using r d ch by (auto simp: dir_at_def)
  from assms(5) r obtain e where e: "walk ?c r qs = Some e" "nodes v ! e = FileNode f"
    by (auto simp: tree_eq dest: entry_of_file)
  let ?v = "set_children v d (bt_remove p ch)"
  note R = remove_edge [OF assms(1) at refl, of p]
  have "d \<noteq> e" using ch e(2) by auto
  then have e': "nodes ?v ! e = FileNode f" using e(2) by (simp add: set_children_def)
  have "rename v (path_of (ps @ [p])) (path_of (qs @ [q])) = Some (Inr (), ?v)"
    using resolve_path_walk(1) [OF assms(1,2) r, of n] resolve_path_walk(1) [OF assms(1) _ r, of ps d]
      resolve_path_walk(1) [OF assms(1) _ r, of qs e] assms(2,3) n d e ch e'
    by (simp add: rename_def resolve_parent_path [OF assms(2)] resolve_parent_path [OF assms(3)] update_dir_def)
  moreover have "tree v (qs @ [q]) = None" using e by (simp add: tree_eq [OF r] walk_snoc vchild_def)
  ultimately show ?thesis using R(1,2) by auto
qed

theorem rename_into_file_loses_entry_witness:
  "\<exists>v'. rename demo_ram ''/etc'' ''/etc/f/x'' = Some (Inr (), v') \<and> tree v' [''etc''] = None \<and>
     tree demo_ram [''etc''] = Some EDir"
proof -
  have t: "tree demo_ram [''etc''] = Some EDir" by code_simp
  have path: "path_of [''etc''] = ''/etc''" "path_of [''etc'', ''f'', ''x''] = ''/etc/f/x''"
    by (simp_all add: path_of_def)
  show ?thesis
    using rename_into_file_loses_entry [OF demo_ram_ok(1), of "[]" "''etc''" "[''etc'', ''f'']" "''x''" 0] t
    by (auto simp: demo_ram_ok path plain_seg_def)
qed

end
