(* ===== verification/Ziqa_Vfs_List.thy ===== *)
theory Ziqa_Vfs_List
  imports Ziqa_Vfs_Props
begin

text \<open>
  The recursive listing of \<open>src/src/fs/vfs.rs\<close> (\<open>list\<close>, \<open>list_recursive\<close>): on a node store that is
  a tree it ends, since a walk from the root never meets a node twice, and it gives every
  path of the tree once.
\<close>

section \<open>Walks are short\<close>

lemma walk_short:
  assumes "tree_ok v" "root v = Some r" "walk (vchild (nodes v)) r ps = Some n"
  shows "length ps < length (nodes v)"
proof -
  let ?c = "vchild (nodes v)" and ?N = "length (nodes v)"
  from assms(1,2) have uniq: "unique_parents ?c r" by (auto elim!: tree_okD)
  have ex: "\<exists>m. walk ?c r (take k ps) = Some m" for k
    using walk_prefix [of ?c r ps "take k ps"] assms(3) by (auto simp: take_is_prefix)
  define g where "g k = the (walk ?c r (take k ps))" for k
  have g: "walk ?c r (take k ps) = Some (g k)" for k using ex [of k] by (auto simp: g_def)
  have "inj_on g {..length ps}"
  proof (rule inj_onI)
    fix j k assume jk: "j \<in> {..length ps}" "k \<in> {..length ps}" "g j = g k"
    then have "take j ps = take k ps" using walk_inj [OF uniq g] g by metis
    with jk show "j = k" by (metis atMost_iff length_take min.absorb2)
  qed
  moreover have "g ` {..length ps} \<subseteq> {..<?N}" using walk_bound [OF assms(1,2) g] by auto
  ultimately have "card {..length ps} \<le> card {..<?N}" by (metis card_inj_on_le finite_lessThan)
  then show ?thesis by simp
qed

section \<open>What a worklist lists\<close>

definition emits :: "vfs_node list \<Rightarrow> (string \<times> string \<times> nat) list \<Rightarrow> string list \<Rightarrow> bool" where
  "emits ns work L \<longleftrightarrow>
     (\<forall>rest. list_work ns (work @ rest) = Option.bind (list_work ns rest) (\<lambda>paths. Some (L @ paths)))"

lemma emits_Nil: "emits ns [] []"
  by (simp add: emits_def)

lemma emits_append: "emits ns w L \<Longrightarrow> emits ns w' L' \<Longrightarrow> emits ns (w @ w') (L @ L')"
  by (auto simp: emits_def split: bind_splits)

lemma emits_item:
  assumes "emits ns (map (\<lambda>(name, m). (join_prefix pre name0, name, m)) (children_of ns n)) L"
  shows "emits ns [(pre, name0, n)] (join_prefix pre name0 # L)"
  using assms by (subst emits_def) (auto simp: emits_def list_work.simps [of ns "(pre, name0, n) # _"] split: bind_splits)

lemma emits_all: "emits ns work L \<Longrightarrow> list_work ns work = Some L"
  using list_work.simps [of ns "[]"] by (auto simp: emits_def dest!: spec [of _ "[]"])

text \<open>The paths at and below a list of names.\<close>

definition below :: "'f vfs \<Rightarrow> string list \<Rightarrow> string list set" where
  "below v ps = {qs. prefix ps qs \<and> tree v qs \<noteq> None}"

lemma below_split:
  assumes "tree_ok v" "tree v ps \<noteq> None"
  shows "below v ps = insert ps (\<Union>a. below v (ps @ [a]))"
proof -
  have "prefix ps qs \<longleftrightarrow> qs = ps \<or> (\<exists>a. prefix (ps @ [a]) qs)" for qs
    by (metis append_Nil2 neq_Nil_conv prefix_def prefix_order.refl append.assoc append_Cons append_Nil)
  then show ?thesis using assms(2) by (auto simp: below_def)
qed

lemma below_disjoint: "a \<noteq> b \<Longrightarrow> below v (ps @ [a]) \<inter> below v (ps @ [b]) = {}"
  by (auto simp: below_def prefix_def)

lemma path_of_inj: "plain ps \<Longrightarrow> plain qs \<Longrightarrow> path_of ps = path_of qs \<Longrightarrow> ps = qs"
  by (metis path_parts_path_of)

lemma join_prefix_path: "plain (us @ [name]) \<Longrightarrow> join_prefix (path_of us) name = path_of (us @ [name])"
  by (cases "us = []") (auto simp: join_prefix_def path_of_snoc trim_end_path, auto simp: path_of_def join_slash_Nil)

text \<open>The children of a node, each listing the paths below it.\<close>

lemma emits_children:
  assumes names: "\<forall>qs. tree v qs \<noteq> None \<longrightarrow> plain qs" and "distinct (map fst xs)"
    and "\<forall>(a, m) \<in> set xs. \<exists>L. emits ns [(path_of ps, a, m)] L \<and> distinct L \<and> set L = path_of ` below v (ps @ [a])"
  shows "\<exists>L. emits ns (map (\<lambda>(a, m). (path_of ps, a, m)) xs) L \<and> distinct L \<and>
           set L = path_of ` (\<Union>a \<in> fst ` set xs. below v (ps @ [a]))"
  using assms(2,3)
proof (induction xs)
  case Nil
  then show ?case using emits_Nil by fastforce
next
  case (Cons x xs)
  obtain a m where x: "x = (a, m)" by (cases x)
  from Cons x obtain L where L: "emits ns [(path_of ps, a, m)] L" "distinct L" "set L = path_of ` below v (ps @ [a])"
    by auto
  from Cons obtain L' where L': "emits ns (map (\<lambda>(a, m). (path_of ps, a, m)) xs) L'" "distinct L'"
    "set L' = path_of ` (\<Union>a \<in> fst ` set xs. below v (ps @ [a]))"
    by auto
  have inj: "qs = qs'" if "qs \<in> below v us" "qs' \<in> below v us'" "path_of qs = path_of qs'" for qs qs' us us'
    using that names path_of_inj [of qs qs'] by (auto simp: below_def)
  have "y \<notin> set L'" if "y \<in> set L" for y
  proof
    assume "y \<in> set L'"
    then obtain b qs where b: "b \<in> fst ` set xs" "qs \<in> below v (ps @ [b])" "y = path_of qs"
      unfolding L'(3) by blast
    from that obtain qs' where "qs' \<in> below v (ps @ [a])" "y = path_of qs'" unfolding L(3) by blast
    with b inj have "qs \<in> below v (ps @ [a]) \<inter> below v (ps @ [b])" by blast
    with below_disjoint [of a b v ps] have "a = b" by blast
    with b(1) Cons.prems(1) show False by (simp add: x)
  qed
  then show ?case
    using emits_append [OF L(1) L'(1)] L(2,3) L'(2,3) by (intro exI [of _ "L @ L'"]) (auto simp: x image_Un)
qed

lemma children_walk:
  assumes "tree_ok v" "root v = Some r" "walk (vchild (nodes v)) r ps = Some n"
  shows "distinct (map fst (children_of (nodes v) n))"
    "(a, m) \<in> set (children_of (nodes v) n) \<Longrightarrow> walk (vchild (nodes v)) r (ps @ [a]) = Some m"
    "(\<Union>a \<in> fst ` set (children_of (nodes v) n). below v (ps @ [a])) = (\<Union>a. below v (ps @ [a]))"
proof -
  have n: "n < length (nodes v)" using walk_bound [OF assms] .
  have inv: "bt_inv (children_of (nodes v) n)"
    using assms(1) n by (auto simp: tree_ok_def children_of_def split: vfs_node.splits)
  then show d: "distinct (map fst (children_of (nodes v) n))" by (rule bt_inv_distinct)
  have c: "vchild (nodes v) n a = bt_get (children_of (nodes v) n) a" for a
    using n by (simp add: vchild_def children_of_def split: vfs_node.splits)
  show "(a, m) \<in> set (children_of (nodes v) n) \<Longrightarrow> walk (vchild (nodes v)) r (ps @ [a]) = Some m"
    using assms(3) d by (simp add: walk_snoc c)
  have "below v (ps @ [a]) = {}" if "a \<notin> fst ` set (children_of (nodes v) n)" for a
  proof -
    have "walk (vchild (nodes v)) r (ps @ [a]) = None"
      using that assms(3) by (simp add: walk_snoc c map_of_eq_None_iff)
    then show ?thesis using tree_below_missing [OF assms(2)] by (auto simp: below_def)
  qed
  then show "(\<Union>a \<in> fst ` set (children_of (nodes v) n). below v (ps @ [a])) = (\<Union>a. below v (ps @ [a]))"
    by blast
qed

lemma emits_subtree:
  assumes ok: "tree_ok v" "root v = Some r" and names: "\<forall>qs. tree v qs \<noteq> None \<longrightarrow> plain qs"
  shows "walk (vchild (nodes v)) r (us @ [name]) = Some n \<Longrightarrow>
    \<exists>L. emits (nodes v) [(path_of us, name, n)] L \<and> distinct L \<and> set L = path_of ` below v (us @ [name])"
proof (induction "length (nodes v) - length us" arbitrary: us name n rule: less_induct)
  case less
  let ?ps = "us @ [name]"
  note C = children_walk [OF ok less.prems]
  have t: "tree v ?ps \<noteq> None" using less.prems by (simp add: tree_eq [OF ok(2)])
  then have j: "join_prefix (path_of us) name = path_of ?ps" using names join_prefix_path by blast
  have "length (nodes v) - length ?ps < length (nodes v) - length us" using walk_short [OF ok less.prems] by simp
  then have "\<forall>(a, m) \<in> set (children_of (nodes v) n).
      \<exists>L. emits (nodes v) [(path_of ?ps, a, m)] L \<and> distinct L \<and> set L = path_of ` below v (?ps @ [a])"
    using less.hyps [of ?ps] C(2) by blast
  from emits_children [OF names C(1) this] obtain L where
    L: "emits (nodes v) (map (\<lambda>(a, m). (path_of ?ps, a, m)) (children_of (nodes v) n)) L" "distinct L"
      "set L = path_of ` (\<Union>a. below v (?ps @ [a]))" unfolding C(3) by blast
  have "path_of ?ps \<notin> set L"
  proof
    assume "path_of ?ps \<in> set L"
    then obtain a qs where "qs \<in> below v (?ps @ [a])" "path_of ?ps = path_of qs" unfolding L(3) by blast
    then have "?ps = qs" using names t path_of_inj [of ?ps qs] by (auto simp: below_def)
    with \<open>qs \<in> below v (?ps @ [a])\<close> show False by (auto simp: below_def)
  qed
  moreover have "insert (path_of ?ps) (set L) = path_of ` below v ?ps"
    unfolding L(3) below_split [OF ok(1) t] by (simp add: image_Un)
  ultimately show ?case
    using emits_item [of "nodes v" "path_of us" name n L] L(1,2) unfolding j by (intro exI [of _ "path_of ?ps # L"]) simp
qed

text \<open>(C28) The recursive listing ends on every file tree with canonical names and lists the
  path of every entry other than the root exactly once.\<close>

theorem list_all_paths_complete:
  assumes "tree_ok v" "\<forall>ps. tree v ps \<noteq> None \<longrightarrow> plain ps"
  shows "\<exists>paths. list_all_paths v = Some paths \<and> distinct paths \<and>
           set paths = path_of ` {ps. ps \<noteq> [] \<and> tree v ps \<noteq> None}"
proof -
  from assms(1) obtain r where r: "root v = Some r" by (rule tree_okD)
  have w: "walk (vchild (nodes v)) r [] = Some r" by simp
  note C = children_walk [OF assms(1) r w]
  have "\<forall>(a, m) \<in> set (children_of (nodes v) r).
      \<exists>L. emits (nodes v) [(path_of [], a, m)] L \<and> distinct L \<and> set L = path_of ` below v ([] @ [a])"
    using emits_subtree [OF assms(1) r assms(2), of "[]"] C(2) by blast
  from emits_children [OF assms(2) C(1) this] obtain L where
    L: "emits (nodes v) (map (\<lambda>(a, m). (''/'', a, m)) (children_of (nodes v) r)) L" "distinct L"
      "set L = path_of ` (\<Union>a. below v ([] @ [a]))" unfolding C(3) by (auto simp: path_of_def)
  have "(\<Union>a. below v ([] @ [a])) = {ps. ps \<noteq> [] \<and> tree v ps \<noteq> None}"
    by (auto simp: below_def neq_Nil_conv prefix_def)
  then show ?thesis using emits_all [OF L(1)] L(2,3) r by (simp add: list_all_paths_def)
qed

lemma demo_ram_plain: "tree demo_ram ps \<noteq> None \<longrightarrow> plain ps"
proof -
  let ?v = "(vfs_init vfs_new)\<lparr>files := [[]]\<rparr> :: bytes vfs" and ?ps = "[''etc'', ''f'']"
  have v: "tree (vfs_init vfs_new :: bytes vfs) qs = (if qs = [] then Some EDir else None)" for qs
    by (cases qs) (simp_all add: tree_def vfs_init_def vfs_new_def new_node_def entry_of_def vchild_def)
  have m: "tree demo_ram = (if blocked (tree ?v) ?ps then tree ?v else add_path (EFile 0) ?ps (tree ?v))"
    unfolding demo_ram_def
  proof (rule mount_tree(3))
    show "tree_ok ?v" using tree_ok_new by simp
    show "tree ?v ?ps = None" by (simp add: v)
  qed (simp add: plain_seg_def)
  show ?thesis
  proof
    assume t: "tree demo_ram ps \<noteq> None"
    have "prefix ps ?ps"
    proof (rule ccontr)
      assume n: "\<not> prefix ps ?ps"
      then have "ps \<noteq> []" "ps \<noteq> ?ps" by auto
      with n have "tree demo_ram ps = None" unfolding m by (simp add: add_path_def v)
      with t show False by simp
    qed
    then have "set ps \<subseteq> set ?ps" by (rule set_mono_prefix)
    then show "plain ps" by (auto simp: plain_seg_def)
  qed
qed

theorem list_all_paths_complete_witness:
  "\<exists>paths. list_all_paths demo_ram = Some paths \<and> distinct paths \<and> ''/etc/f'' \<in> set paths"
proof -
  have path: "path_of [''etc'', ''f''] = ''/etc/f''" by (simp add: path_of_def)
  have "[''etc'', ''f''] \<in> {ps. ps \<noteq> [] \<and> tree demo_ram ps \<noteq> None}" by (simp add: demo_ram_ok)
  from imageI [OF this, of path_of] show ?thesis
    using list_all_paths_complete [OF demo_ram_ok(1)] demo_ram_plain unfolding path by auto
qed

end
