(* ===== verification/Ziqa_Sync.thy ===== *)
theory Ziqa_Sync
  imports Ziqa_Sched_Life Ziqa_Fifo
begin

text \<open>
  Blocking primitives of \<open>src/src/sync\<close>: \<open>WaitCondition\<close>, \<open>WaitQueue\<close> and the futex manager,
  over the scheduler of \<open>Ziqa_Scheduler\<close>.  An operation that waits hands the processor over;
  its outcome \<open>Waiting\<close> is the state other processes run in until it is scheduled again, when
  it goes round its loop once more.  \<open>None\<close> is a panic.
\<close>

section \<open>Wait conditions\<close>

record wait_condition =
  waiters :: "pid list"

definition condition_new :: wait_condition where
  "condition_new = \<lparr>waiters = []\<rparr>"

definition unblock_pid :: "sched \<Rightarrow> pid \<Rightarrow> sched" where
  "unblock_pid s p = modify_process s p unblock"

definition notify :: "sched \<Rightarrow> wait_condition \<Rightarrow> nat \<times> wait_condition \<times> sched" where
  "notify s c = (length (waiters c), c\<lparr>waiters := []\<rparr>, foldl unblock_pid s (waiters c))"

definition condition_wait :: "kernel_env \<Rightarrow> sched \<Rightarrow> wait_condition \<Rightarrow> (wait_condition \<times> sched) option" where
  "condition_wait env s c =
     (case current_pid s of
        None \<Rightarrow> None
      | Some p \<Rightarrow>
          let c = c\<lparr>waiters := waiters c @ [p]\<rparr>;
              s = snd (with_current_task_mut s (\<lambda>proc. ((), block proc)))
          in map_option (Pair c) (schedule env s))"

section \<open>Wait queues\<close>

record 'a wait_queue =
  inner :: "'a list"
  condition :: wait_condition

datatype 'a outcome = Finished 'a | Waiting

definition wait_queue_new :: "'a wait_queue" where
  "wait_queue_new = \<lparr>inner = [], condition = condition_new\<rparr>"

definition wq_send :: "sched \<Rightarrow> 'a wait_queue \<Rightarrow> 'a \<Rightarrow> 'a wait_queue \<times> sched" where
  "wq_send s q x =
     (let q = q\<lparr>inner := inner q @ [x]\<rparr>;
          (n, c, s) = notify s (condition q)
      in (q\<lparr>condition := c\<rparr>, s))"

definition receive_nonblocking :: "'a wait_queue \<Rightarrow> 'a option \<times> 'a wait_queue" where
  "receive_nonblocking q =
     (case inner q of [] \<Rightarrow> (None, q) | x # xs \<Rightarrow> (Some x, q\<lparr>inner := xs\<rparr>))"

text \<open>One round of the loop of \<open>receive\<close>.\<close>

definition wq_receive :: "kernel_env \<Rightarrow> sched \<Rightarrow> 'a wait_queue \<Rightarrow> ('a outcome \<times> 'a wait_queue \<times> sched) option" where
  "wq_receive env s q =
     (case inner q of
        x # xs \<Rightarrow> Some (Finished x, q\<lparr>inner := xs\<rparr>, s)
      | [] \<Rightarrow> map_option (\<lambda>(c, s). (Waiting, q\<lparr>condition := c\<rparr>, s)) (condition_wait env s (condition q)))"

definition wq_len :: "'a wait_queue \<Rightarrow> nat" where
  "wq_len q = length (inner q)"

definition wq_is_empty :: "'a wait_queue \<Rightarrow> bool" where
  "wq_is_empty q \<longleftrightarrow> inner q = []"

text \<open>A wait queue is an unbounded queue; what a send does to the scheduler does not matter.\<close>

interpretation wq: fifo "\<lambda>q x. Some (fst (wq_send s q x))"
  "\<lambda>q. case receive_nonblocking q of (None, _) \<Rightarrow> None | (Some x, q') \<Rightarrow> Some (x, q')"
  inner "\<lambda>_. True" "\<lambda>_ _. True"
  by unfold_locales
    (auto simp: wq_send_def notify_def Let_def receive_nonblocking_def split: list.splits)

section \<open>Futexes\<close>

record waiter =
  w_pid :: pid
  w_bitset :: u32

type_synonym futex_manager = "(u64, waiter list) btree"

definition futex_new :: futex_manager where
  "futex_new = []"

text \<open>\<open>mem\<close> reads the word at a physical address.\<close>

definition futex_wait ::
  "(u64 \<Rightarrow> u32) \<Rightarrow> sched \<Rightarrow> futex_manager \<Rightarrow> u64 \<Rightarrow> u32 \<Rightarrow> u32 \<Rightarrow> bool \<times> futex_manager \<times> sched" where
  "futex_wait mem s m phys_addr expected_val bitset =
     (if mem phys_addr \<noteq> expected_val then (False, m, s)
      else case current_pid s of
        None \<Rightarrow> (False, m, s)
      | Some p \<Rightarrow>
          let ws = (case bt_get m phys_addr of None \<Rightarrow> [] | Some ws \<Rightarrow> ws);
              m = bt_insert phys_addr (ws @ [\<lparr>w_pid = p, w_bitset = bitset\<rparr>]) m;
              s = snd (with_current_task_mut s (\<lambda>proc. ((), block (proc\<lparr>p_timed_out := False\<rparr>))))
          in (True, m, s))"

text \<open>The loop of \<open>wake\<close> over the waiters from position \<open>i\<close> on.\<close>

fun wake_walk :: "sched \<Rightarrow> nat \<Rightarrow> nat \<Rightarrow> u32 \<Rightarrow> waiter list \<Rightarrow> nat \<times> waiter list \<times> sched" where
  "wake_walk s woken count bitset [] = (woken, [], s)"
| "wake_walk s woken count bitset (w # ws) =
     (if woken < count then
        if w_bitset w AND bitset \<noteq> 0 then
          (case get_process s (w_pid w) of
             Some _ \<Rightarrow> wake_walk (unblock_pid s (w_pid w)) (woken + 1) count bitset ws
           | None \<Rightarrow> wake_walk s woken count bitset ws)
        else let (n, rest, s) = wake_walk s woken count bitset ws in (n, w # rest, s)
      else (woken, w # ws, s))"

text \<open>Storing a list of waiters back; an empty one leaves the map.\<close>

definition put_waiters :: "futex_manager \<Rightarrow> u64 \<Rightarrow> waiter list \<Rightarrow> futex_manager" where
  "put_waiters m a ws = (if ws = [] then bt_remove a m else bt_insert a ws m)"

definition futex_wake :: "sched \<Rightarrow> futex_manager \<Rightarrow> u64 \<Rightarrow> nat \<Rightarrow> u32 \<Rightarrow> nat \<times> futex_manager \<times> sched" where
  "futex_wake s m phys_addr count bitset =
     (case bt_get m phys_addr of
        None \<Rightarrow> (0, m, s)
      | Some ws \<Rightarrow>
          let (woken, rest, s) = wake_walk s 0 count bitset ws
          in (woken, put_waiters m phys_addr rest, s))"

definition cancel_wait :: "futex_manager \<Rightarrow> u64 \<Rightarrow> pid \<Rightarrow> futex_manager" where
  "cancel_wait m phys_addr p =
     (case bt_get m phys_addr of
        None \<Rightarrow> m
      | Some ws \<Rightarrow> put_waiters m phys_addr (filter (\<lambda>w. w_pid w \<noteq> p) ws))"

text \<open>\<open>drain(..k)\<close> of the waiters at an address.\<close>

definition drain_waiters :: "futex_manager \<Rightarrow> u64 \<Rightarrow> nat \<Rightarrow> waiter list \<times> futex_manager" where
  "drain_waiters m a k =
     (case bt_get m a of
        None \<Rightarrow> ([], m)
      | Some ws \<Rightarrow> let k = min k (length ws) in (take k ws, put_waiters m a (drop k ws)))"

definition unblock_count :: "nat \<times> sched \<Rightarrow> pid \<Rightarrow> nat \<times> sched" where
  "unblock_count acc p =
     (case get_process (snd acc) p of
        None \<Rightarrow> acc
      | Some _ \<Rightarrow> (fst acc + 1, unblock_pid (snd acc) p))"

definition requeue :: "sched \<Rightarrow> futex_manager \<Rightarrow> u64 \<Rightarrow> u64 \<Rightarrow> nat \<Rightarrow> nat \<Rightarrow> nat \<times> futex_manager \<times> sched" where
  "requeue s m src_phys dst_phys wake_count requeue_count =
     (let (woken, m) = drain_waiters m src_phys wake_count;
          (count, s) = foldl unblock_count (0, s) (map w_pid woken);
          (moved, m) = drain_waiters m src_phys requeue_count;
          dst = (case bt_get m dst_phys of None \<Rightarrow> [] | Some ws \<Rightarrow> ws);
          m = (if moved = [] then m else bt_insert dst_phys (dst @ moved) m)
      in (count + length moved, m, s))"

section \<open>Waiting lists\<close>

definition waiting :: "futex_manager \<Rightarrow> u64 \<Rightarrow> waiter list" where
  "waiting m a = (case bt_get m a of None \<Rightarrow> [] | Some ws \<Rightarrow> ws)"

definition futex_inv :: "futex_manager \<Rightarrow> bool" where
  "futex_inv m \<longleftrightarrow> bt_inv m \<and> (\<forall>a. bt_get m a \<noteq> Some [])"

definition live :: "sched \<Rightarrow> pid \<Rightarrow> bool" where
  "live s p \<longleftrightarrow> get_process s p \<noteq> None"

lemma put_waiters_inv [simp]: "futex_inv m \<Longrightarrow> futex_inv (put_waiters m a ws)"
  by (auto simp: futex_inv_def put_waiters_def)

lemma waiting_put [simp]: "futex_inv m \<Longrightarrow> waiting (put_waiters m a ws) b = (if b = a then ws else waiting m b)"
  by (auto simp: waiting_def put_waiters_def futex_inv_def)

lemma waiting_get: "bt_get m a = None \<Longrightarrow> waiting m a = []" "bt_get m a = Some ws \<Longrightarrow> waiting m a = ws"
  by (simp_all add: waiting_def)

lemma unblock_pid_get:
  "get_process (unblock_pid s p) k = (if k = p then map_option unblock (get_process s k) else get_process s k)"
  by (simp add: unblock_pid_def)

lemma unblock_pid_live [simp]: "live (unblock_pid s p) k = live s k"
  by (simp add: live_def unblock_pid_get)

lemma unblock_unblock [simp]: "unblock (unblock p) = unblock p"
  by (simp add: unblock_def)

lemma unblock_idem: "map_option unblock (map_option unblock x) = map_option unblock x"
  by (cases x) simp_all

lemma unblock_pid_same [simp]:
  "queued (unblock_pid s p) = queued s" "current_pid (unblock_pid s p) = current_pid s"
  "the_cpu (unblock_pid s p) = the_cpu s"
  by (simp_all add: unblock_pid_def)

text \<open>What a wake-up that has looked at the first \<open>k\<close> waiters has done.\<close>

definition matches :: "u32 \<Rightarrow> waiter \<Rightarrow> bool" where
  "matches bitset w \<longleftrightarrow> w_bitset w AND bitset \<noteq> 0"

definition woke :: "sched \<Rightarrow> u32 \<Rightarrow> waiter list \<Rightarrow> nat \<Rightarrow> nat \<Rightarrow> waiter list \<Rightarrow> sched \<Rightarrow> bool" where
  "woke s bitset ws k n rest s' \<longleftrightarrow>
     k \<le> length ws \<and> rest = filter (\<lambda>w. \<not> matches bitset w) (take k ws) @ drop k ws \<and>
     n = length (filter (\<lambda>w. matches bitset w \<and> live s (w_pid w)) (take k ws)) \<and>
     (\<forall>p. get_process s' p =
        (if p \<in> w_pid ` {w \<in> set (take k ws). matches bitset w}
         then map_option unblock (get_process s p) else get_process s p)) \<and>
     queued s' = queued s \<and> the_cpu s' = the_cpu s"

lemma wake_walk_spec:
  assumes "wake_walk s woken count bitset ws = (n, rest, s')" "woken \<le> count"
  shows "woken \<le> n \<and> n \<le> count \<and>
         (\<exists>k. woke s bitset ws k (n - woken) rest s' \<and> (n < count \<longrightarrow> k = length ws))"
  using assms
proof (induction s woken count bitset ws arbitrary: n rest s' rule: wake_walk.induct)
  case (2 s woken count bitset w ws)
  show ?case
  proof (cases "woken < count")
    case False
    with 2(4,5) show ?thesis by (intro conjI exI [of _ 0]) (auto simp: woke_def)
  next
    case True
    consider (awake) proc where "w_bitset w AND bitset \<noteq> 0" "get_process s (w_pid w) = Some proc"
      | (dead) "w_bitset w AND bitset \<noteq> 0" "get_process s (w_pid w) = None"
      | (keep) "w_bitset w AND bitset = 0" by fastforce
    then show ?thesis
    proof cases
      case awake
      from 2(2) [OF True awake, of n rest s'] awake 2(4) True obtain k where
        "woken + 1 \<le> n" "n \<le> count" "n < count \<longrightarrow> k = length ws"
        "woke (unblock_pid s (w_pid w)) bitset ws k (n - (woken + 1)) rest s'" by auto
      moreover have "live s (w_pid w)" using awake by (simp add: live_def)
      ultimately show ?thesis
        using awake by (intro conjI exI [of _ "Suc k"])
          (auto simp: woke_def matches_def unblock_pid_get unblock_idem)
    next
      case dead
      from 2(1) [OF True dead, of n rest s'] dead 2(4,5) True obtain k where
        "woken \<le> n" "n \<le> count" "n < count \<longrightarrow> k = length ws" "woke s bitset ws k (n - woken) rest s'" by auto
      then show ?thesis
        using dead by (intro conjI exI [of _ "Suc k"]) (auto simp: woke_def matches_def live_def)
    next
      case keep
      then obtain rest' where r: "wake_walk s woken count bitset ws = (n, rest', s')" "rest = w # rest'"
        using 2(4) True by (auto split: prod.splits)
      from 2(3) [OF True _ r(1)] keep 2(5) obtain k where
        "woken \<le> n" "n \<le> count" "n < count \<longrightarrow> k = length ws" "woke s bitset ws k (n - woken) rest' s'" by auto
      then show ?thesis
        using keep r(2) by (intro conjI exI [of _ "Suc k"]) (auto simp: woke_def matches_def)
    qed
  qed
qed (auto simp: woke_def)

lemma wokeD:
  assumes "woke s bitset ws k n rest s'"
  shows "k \<le> length ws" "n = length (filter (\<lambda>w. matches bitset w \<and> live s (w_pid w)) (take k ws))"
    "get_process s' p = (if p \<in> w_pid ` {w \<in> set (take k ws). matches bitset w}
       then map_option unblock (get_process s p) else get_process s p)"
    "queued s' = queued s" "the_cpu s' = the_cpu s"
  using assms by (simp_all add: woke_def)

lemma futex_wake_spec:
  assumes "futex_inv m" "futex_wake s m a count bitset = (n, m', s')"
  shows "futex_inv m' \<and> n \<le> count \<and> (\<forall>b. b \<noteq> a \<longrightarrow> waiting m' b = waiting m b) \<and>
         (\<exists>k. woke s bitset (waiting m a) k n (waiting m' a) s' \<and> (n < count \<longrightarrow> k = length (waiting m a)))"
proof (cases "bt_get m a")
  case None
  with assms show ?thesis by (auto simp: futex_wake_def waiting_get woke_def)
next
  case (Some ws)
  obtain rest where w: "wake_walk s 0 count bitset ws = (n, rest, s')" "m' = put_waiters m a rest"
    using assms(2) Some by (auto simp: futex_wake_def split: prod.splits)
  from wake_walk_spec [OF w(1)] show ?thesis using assms(1) Some by (auto simp: w(2) waiting_get)
qed

text \<open>(C30) Futex wake-ups are fair: \<open>wake\<close> goes through the waiters of its address in the order in
  which they came, up to some position, takes out those whose bit set meets the request and
  makes the live ones Ready; it wakes no more than asked for, stops early only at the end of
  the list, keeps the others in order, and touches no other address and no other process.\<close>

theorem futex_wake_in_order:
  assumes "futex_inv m" "futex_wake s m a count bitset = (n, m', s')"
  shows "futex_inv m' \<and> n \<le> count \<and> (\<forall>b. b \<noteq> a \<longrightarrow> waiting m' b = waiting m b) \<and>
         (\<exists>k. woke s bitset (waiting m a) k n (waiting m' a) s' \<and> (n < count \<longrightarrow> k = length (waiting m a)))"
  using futex_wake_spec [OF assms] .

text \<open>Requeueing wakes the first waiters, moves the next ones to the end of the other list in
  order and leaves the rest.\<close>

lemma drain_waiters_spec:
  assumes "futex_inv m" "drain_waiters m a k = (ws, m')"
  shows "futex_inv m'" "ws = take k (waiting m a)"
    "waiting m' b = (if b = a then drop k (waiting m a) else waiting m b)"
  using assms by (auto simp: drain_waiters_def Let_def waiting_get min_def split: option.splits)

lemma requeue_waiting:
  assumes "futex_inv m" "src \<noteq> dst" "requeue s m src dst k l = (n, m', s')"
  shows "futex_inv m'" "waiting m' src = drop (k + l) (waiting m src)"
    "waiting m' dst = waiting m dst @ take l (drop k (waiting m src))"
    "b \<noteq> src \<Longrightarrow> b \<noteq> dst \<Longrightarrow> waiting m' b = waiting m b"
proof -
  obtain ws m1 where d1: "drain_waiters m src k = (ws, m1)" by fastforce
  obtain moved m2 where d2: "drain_waiters m1 src l = (moved, m2)" by fastforce
  note D1 = drain_waiters_spec [OF assms(1) d1] and D2 = drain_waiters_spec [OF drain_waiters_spec(1) [OF assms(1) d1] d2]
  have m': "m' = (if moved = [] then m2 else bt_insert dst (waiting m2 dst @ moved) m2)"
    using assms(3) by (auto simp: requeue_def d1 d2 waiting_def split: prod.splits)
  have put: "moved \<noteq> [] \<Longrightarrow> m' = put_waiters m2 dst (waiting m2 dst @ moved)" by (simp add: m' put_waiters_def)
  show "futex_inv m'" using D2(1) put by (cases "moved = []") (simp_all add: m')
  show "waiting m' src = drop (k + l) (waiting m src)"
    using D2 D1(3) put assms(2) by (cases "moved = []") (simp_all add: m' add.commute)
  show "waiting m' dst = waiting m dst @ take l (drop k (waiting m src))"
    using D2 D1(3) put assms(2) by (cases "moved = []") (simp_all add: m')
  show "b \<noteq> src \<Longrightarrow> b \<noteq> dst \<Longrightarrow> waiting m' b = waiting m b"
    using D2 D1(3) put assms(2) by (cases "moved = []") (simp_all add: m')
qed

lemma futex_wait_waiting:
  assumes "futex_inv m" "futex_wait mem s m a v bitset = (r, m', s')"
  shows "futex_inv m'" "r = (mem a = v \<and> current_pid s \<noteq> None)"
    "waiting m' b = (if r \<and> b = a then waiting m a @ [\<lparr>w_pid = the (current_pid s), w_bitset = bitset\<rparr>] else waiting m b)"
  using assms
  by (auto simp: futex_wait_def Let_def futex_inv_def waiting_def split: if_splits option.splits)

section \<open>Woken processes and the ready set\<close>

lemma switch_current:
  assumes "raw_ok s" "get_process s new = Some np" "switch_to env s new np = Some s'" "new \<noteq> - 1"
  shows "current_pid s' = Some new"
  using switch_to_self(2) [OF assms(1,2) _ assms(3)] switch_to_other(2) [OF assms(1,2) _ assms(3)] assms(4)
  by (cases "current_pid s = Some new") (auto intro: current_pid_of)

lemma schedule_from_current:
  assumes "schedule_from env q s = Some s'" "table_ok s"
  shows "current_pid s' = current_pid s \<or> (\<exists>p \<in> snd ` set q. current_pid s' = Some p)"
  using assms
proof (induction env q s rule: schedule_from.induct)
  case (2 env c new rest s)
  let ?s = "popped rest s"
  have ok: "table_ok ?s" using 2(4) by (auto simp: table_ok_def raw_ok_def)
  show ?case
  proof (cases "get_process ?s new")
    case None
    with 2 ok show ?thesis by (auto simp: Let_def)
  next
    case (Some np)
    then have "new \<noteq> - 1" "raw_ok ?s" using ok by (auto simp: table_ok_def)
    with switch_current [OF _ Some, of env s'] Some 2(2) [OF refl Some] 2(3) ok show ?thesis
      by (auto simp: Let_def split: if_splits)
  qed
qed simp

lemma schedules_keep_away:
  assumes "table_ok s" "sidelined s p" "current_pid s \<noteq> Some p" "schedules env n s = Some s'"
  shows "sidelined s' p \<and> current_pid s' \<noteq> Some p"
  using assms
proof (induction n arbitrary: s)
  case (Suc n)
  then obtain s1 where s1: "schedule env s = Some s1" "schedules env n s1 = Some s'" by (auto split: option.splits)
  note S = schedule_from_sidelined [OF Suc.prems(1) refl Suc.prems(2), of env s1]
  have cur: "current_pid s1 = current_pid s \<or> (\<exists>p \<in> queued s. current_pid s1 = Some p)"
    using schedule_from_current [of env "queues (ready_queues s)" s s1] s1(1) Suc.prems(1)
    by (simp only: schedule_def queued_def simp_thms)
  have "p \<notin> queued s" using Suc.prems(2) by (simp add: sidelined_def)
  with cur Suc.prems(3) have "current_pid s1 \<noteq> Some p" by auto
  with Suc.IH [of s1] S s1 show ?case by (simp add: schedule_def)
qed simp

lemma table_ok_unblock:
  assumes "table_ok s" "the_cpu s1 = the_cpu s"
    and g: "\<And>p. get_process s1 p = get_process s p \<or> get_process s1 p = map_option unblock (get_process s p)"
  shows "table_ok s1"
proof -
  have pid: "p_pid p = k" if "get_process s1 k = Some p" for k p
    using g [of k] that assms(1) by (cases "get_process s k") (auto simp: table_ok_def raw_ok_def unblock_def)
  have key: "get_process s1 k = None \<longleftrightarrow> get_process s k = None" for k using g [of k] by auto
  have "current_pid s1 = current_pid s" using assms(2) by (simp add: current_pid_def)
  with pid key assms(1,2) show ?thesis by (simp add: table_ok_def raw_ok_def)
qed

text \<open>(C31) A process that waits on a futex is not run again by a wake-up: \<open>wake\<close> marks it Ready and
  counts it as woken but gives it no entry in the ready set, and no number of \<open>schedule\<close> calls
  makes it the current process.\<close>

theorem futex_woken_never_runs:
  assumes "sched_inv s" "futex_inv m" "waiting m a = w # ws" "matches bitset w" "0 < count"
    and "live s (w_pid w)" "w_pid w \<notin> queued s" "current_pid s \<noteq> Some (w_pid w)"
    and "futex_wake s m a count bitset = (n, m', s1)" "schedules env j s1 = Some s2"
  shows "0 < n \<and> (\<exists>proc. get_process s2 (w_pid w) = Some proc \<and> p_state proc = Ready) \<and>
         w_pid w \<notin> queued s2 \<and> current_pid s2 \<noteq> Some (w_pid w)"
proof -
  from futex_wake_spec [OF assms(2,9)] obtain k where
    k: "woke s bitset (w # ws) k n (waiting m' a) s1" "n < count \<longrightarrow> k = length (w # ws)" unfolding assms(3) by blast
  note W = wokeD [OF k(1)]
  have "k \<noteq> 0" using k(2) W(2) assms(5) by (intro notI) simp
  then obtain k' where k': "k = Suc k'" by (cases k) auto
  have n: "0 < n" using W(2) assms(4,6) by (simp add: k')
  have "w_pid w \<in> w_pid ` {x \<in> set (take k (w # ws)). matches bitset x}" using assms(4) by (simp add: k')
  then have g: "get_process s1 (w_pid w) = map_option unblock (get_process s (w_pid w))"
    using W(3) by (simp only: if_True)
  note same = W(4,5)
  then have cur: "current_pid s1 = current_pid s" by (simp add: current_pid_def)
  have "get_process s1 p = get_process s p \<or> get_process s1 p = map_option unblock (get_process s p)" for p
    using W(3) [of p] by (simp only: if_split) blast
  then have "table_ok s1"
    by (rule table_ok_unblock [OF sched_inv_table_ok [OF assms(1)] same(2)])
  moreover have "sidelined s1 (w_pid w)"
    using g assms(6,7) same by (auto simp: sidelined_def live_def unblock_def)
  ultimately show ?thesis
    using schedules_keep_away [OF _ _ _ assms(10), of "w_pid w"] assms(8) cur n by (simp add: sidelined_def)
qed

section \<open>A concrete run\<close>

text \<open>The first process waits on a futex, and the scheduler switches to the second one.\<close>

definition demo_futexes :: futex_manager where
  "demo_futexes = [(0x1000, [\<lparr>w_pid = 1, w_bitset = 1\<rparr>])]"

definition demo_asleep :: sched where
  "demo_asleep = modify_process demo_sched 1 (\<lambda>p. block (p\<lparr>p_timed_out := False\<rparr>))"

lemma demo_futex_wait: "futex_wait (\<lambda>_. 7) demo_sched futex_new 0x1000 7 1 = (True, demo_futexes, demo_asleep)"
  using demo_sched_facts(3,5)
  by (auto simp: futex_wait_def futex_new_def demo_futexes_def demo_asleep_def with_current_task_mut_def
      with_process_mut_def modify_put)

lemma demo_asleep_inv: "sched_inv demo_asleep"
proof -
  obtain q where q: "get_process demo_sched 1 = Some q" using demo_sched_facts(5) by auto
  then show ?thesis
    unfolding demo_asleep_def modify_put by (auto intro!: sched_inv_update [OF demo_sched_inv q] simp: block_def)
qed

lemma demo_handed_over:
  "\<exists>s. schedule demo_env demo_asleep = Some s \<and> sched_inv s \<and> queued s = {} \<and> current_pid s = Some 2 \<and> live s 1"
proof -
  from schedule_inv [OF demo_asleep_inv, of demo_env] obtain s where
    s: "schedule demo_env demo_asleep = Some s" "sched_inv s" by blast
  let ?s = "popped [] demo_asleep"
  obtain p2 where p2: "get_process ?s 2 = Some p2" "p_state p2 = Ready"
    using demo_sched_facts(4) by (auto simp: demo_asleep_def)
  have c: "current_pid ?s = Some 1" using demo_sched_facts(3) by (simp add: demo_asleep_def)
  obtain p1 where p1: "get_process ?s 1 = Some p1" "p_state p1 = Blocked"
    using demo_sched_facts(5) by (auto simp: demo_asleep_def block_def)
  have q: "queues (ready_queues demo_asleep) = [(1, 2)]" using demo_sched_facts(1) by (simp add: demo_asleep_def)
  have sw: "switch_to demo_env ?s 2 p2 = Some s"
    using s(1) p2 c q by (simp add: schedule_def)
  have raw: "raw_ok ?s" using sched_inv_raw_ok [OF demo_asleep_inv] by (simp add: raw_ok_def)
  have ne: "current_pid ?s \<noteq> Some 2" using c by simp
  note S = switch_to_other [OF raw p2(1) ne sw]
  have t: "table_current ?s = Some 1" using c p1(1) by (simp add: table_current_Some)
  have "ready_queues s = ready_queues ?s" using S(5) p1 by (simp add: t)
  then have "queued s = {}" by (simp add: queued_def)
  moreover have "current_pid s = Some 2" using S(2) by (intro current_pid_of) simp_all
  moreover have "live s 1" using S(1) [of 1] p1(1) by (simp add: live_def t)
  ultimately show ?thesis using s by blast
qed

theorem futex_wake_in_order_witness:
  "\<exists>m' s'. futex_wake demo_asleep demo_futexes 0x1000 5 3 = (1, m', s') \<and> waiting m' 0x1000 = []"
proof -
  have inv: "futex_inv demo_futexes" by (simp add: futex_inv_def demo_futexes_def)
  have wt: "waiting demo_futexes 0x1000 = [\<lparr>w_pid = 1, w_bitset = 1\<rparr>]" by (simp add: waiting_def demo_futexes_def)
  have l: "live demo_asleep 1" using demo_sched_facts(5) by (auto simp: live_def demo_asleep_def)
  obtain n m' s' where w: "futex_wake demo_asleep demo_futexes 0x1000 5 3 = (n, m', s')" by (cases rule: prod_cases3)
  from futex_wake_in_order [OF inv w] obtain k where
    k: "woke demo_asleep 3 (waiting demo_futexes 0x1000) k n (waiting m' 0x1000) s'" "n \<le> 5" "n < 5 \<longrightarrow> k = 1"
    unfolding wt by auto
  have n: "n \<le> 1" using wokeD(2) [OF k(1)] by (simp add: wt take_Cons split: nat.splits)
  then have "k = 1" using k(3) by simp
  then have "n = 1" "waiting m' 0x1000 = []"
    using k(1) l by (simp_all add: woke_def wt matches_def)
  with w show ?thesis by blast
qed

theorem futex_woken_never_runs_witness:
  "\<exists>s n m' s1. schedule demo_env demo_asleep = Some s \<and> futex_wake s demo_futexes 0x1000 1 1 = (n, m', s1) \<and> 0 < n \<and>
     (\<forall>j s2. schedules demo_env j s1 = Some s2 \<longrightarrow> current_pid s2 \<noteq> Some 1)"
proof -
  from demo_handed_over obtain s where s: "schedule demo_env demo_asleep = Some s" "sched_inv s" "queued s = {}"
    "current_pid s = Some 2" "live s 1" by blast
  let ?w = "\<lparr>w_pid = 1, w_bitset = 1\<rparr> :: waiter"
  have inv: "futex_inv demo_futexes" by (simp add: futex_inv_def demo_futexes_def)
  have wt: "waiting demo_futexes 0x1000 = [?w]" by (simp add: waiting_def demo_futexes_def)
  have m: "matches 1 ?w" by (simp add: matches_def)
  obtain n m' s1 where w: "futex_wake s demo_futexes 0x1000 1 1 = (n, m', s1)" by (cases rule: prod_cases3)
  have "0 < n \<and> current_pid s2 \<noteq> Some 1" if "schedules demo_env j s1 = Some s2" for j s2
    using futex_woken_never_runs [OF s(2) inv wt m _ _ _ _ w that] s(3,4,5) by simp
  from this [of 0] this s(1) w show ?thesis by fastforce
qed

end
