(* ===== verification/Ziqa_Scheme.thy ===== *)
theory Ziqa_Scheme
  imports Ziqa_Sync Ziqa_Vfs
begin

text \<open>
  Schemes (\<open>src/src/scheme/mod.rs\<close>), the pipe scheme (\<open>scheme/pipe.rs\<close>), and the handles through
  which \<open>src/src/fs/vfs.rs\<close> reaches files and schemes.  A scheme is a value of a type parameter
  with a record of operations, as a file is.  The pipes are shared with blocked readers, so
  the scheme maps identifiers to indices of a store of pipes.
\<close>

section \<open>Schemes and their registry\<close>

record 's scheme_ops =
  s_open :: "'s \<Rightarrow> string \<Rightarrow> nat \<Rightarrow> (abi_error + nat) \<times> 's"
  s_read :: "'s \<Rightarrow> nat \<Rightarrow> bytes \<Rightarrow> (abi_error + nat) \<times> bytes \<times> 's"
  s_write :: "'s \<Rightarrow> nat \<Rightarrow> bytes \<Rightarrow> (abi_error + nat) \<times> 's"
  s_fevent :: "'s \<Rightarrow> nat \<Rightarrow> nat \<Rightarrow> abi_error + nat"
  s_close :: "'s \<Rightarrow> nat \<Rightarrow> (abi_error + unit) \<times> 's"

definition fevent_default :: "'s \<Rightarrow> nat \<Rightarrow> nat \<Rightarrow> abi_error + nat" where
  "fevent_default s i flags = Inr 0"

type_synonym 's scheme_registry = "(string, 's) btree"

definition scheme_registry_new :: "'s scheme_registry" where
  "scheme_registry_new = []"

definition iter_names :: "'s scheme_registry \<Rightarrow> string list" where
  "iter_names r = bt_keys r"

definition scheme_register :: "'s scheme_registry \<Rightarrow> string \<Rightarrow> 's \<Rightarrow> 's scheme_registry" where
  "scheme_register r name s = bt_insert name s r"

definition scheme_get :: "'s scheme_registry \<Rightarrow> string \<Rightarrow> 's option" where
  "scheme_get r name = bt_get r name"

section \<open>Handles\<close>

datatype vfs_handle = FileHandle nat | SchemeHandle string nat

text \<open>The part of a path before its first colon.\<close>

definition scheme_name :: "string \<Rightarrow> string option" where
  "scheme_name path =
     (if CHR '':'' \<in> set path then Some (takeWhile (\<lambda>c. c \<noteq> CHR '':'') path) else None)"

definition handle_scheme ::
  "'s scheme_ops \<Rightarrow> 's scheme_registry \<Rightarrow> string \<Rightarrow> nat \<Rightarrow> (abi_error + nat) option \<times> 's scheme_registry" where
  "handle_scheme ops reg path flags =
     (case scheme_name path of
        None \<Rightarrow> (None, reg)
      | Some name \<Rightarrow>
          (case scheme_get reg name of
             None \<Rightarrow> (None, reg)
           | Some s \<Rightarrow> let (r, s) = s_open ops s path flags in (Some r, bt_insert name s reg)))"

definition open_node :: "'f vfs \<Rightarrow> string \<Rightarrow> (abi_error + vfs_handle) option" where
  "open_node v path =
     map_option (\<lambda>r. case r of
        Inl e \<Rightarrow> Inl e
      | Inr n \<Rightarrow> (case nodes v ! n of
                    FileNode fid \<Rightarrow> Inr (FileHandle fid)
                  | Directory _ \<Rightarrow> Inl (Other ''Is a directory'')))
       (resolve_node v path)"

definition vfs_open ::
  "'s scheme_ops \<Rightarrow> 's scheme_registry \<Rightarrow> 'f vfs \<Rightarrow> string \<Rightarrow> nat \<Rightarrow>
     ((abi_error + vfs_handle) \<times> 's scheme_registry) option" where
  "vfs_open ops reg v path flags =
     (case scheme_name path of
        Some name \<Rightarrow>
          (case scheme_get reg name of
             Some s \<Rightarrow>
               let (r, s) = s_open ops s path flags
               in Some (case r of Inl e \<Rightarrow> Inl e | Inr i \<Rightarrow> Inr (SchemeHandle name i), bt_insert name s reg)
           | None \<Rightarrow> map_option (\<lambda>r. (r, reg)) (open_node v path))
      | None \<Rightarrow> map_option (\<lambda>r. (r, reg)) (open_node v path))"

definition read_handle ::
  "'f file_ops \<Rightarrow> 's scheme_ops \<Rightarrow> 's scheme_registry \<Rightarrow> 'f vfs \<Rightarrow> vfs_handle \<Rightarrow> bytes \<Rightarrow> nat \<Rightarrow>
     ((abi_error + nat) \<times> bytes \<times> 's scheme_registry) option" where
  "read_handle fops ops reg v h buf offset =
     (case h of
        FileHandle fid \<Rightarrow> map_option (\<lambda>(r, b). (r, b, reg)) (f_read fops (files v ! fid) buf offset)
      | SchemeHandle name i \<Rightarrow>
          (case scheme_get reg name of
             Some s \<Rightarrow> let (r, b, s) = s_read ops s i buf in Some (r, b, bt_insert name s reg)
           | None \<Rightarrow> Some (Inl (Other ''Scheme not found''), buf, reg)))"

definition write_handle ::
  "'f file_ops \<Rightarrow> 's scheme_ops \<Rightarrow> 's scheme_registry \<Rightarrow> 'f vfs \<Rightarrow> vfs_handle \<Rightarrow> bytes \<Rightarrow> nat \<Rightarrow>
     ((abi_error + nat) \<times> 's scheme_registry \<times> 'f vfs) option" where
  "write_handle fops ops reg v h buf offset =
     (case h of
        FileHandle fid \<Rightarrow>
          map_option (\<lambda>(r, f). (r, reg, v\<lparr>files := (files v)[fid := f]\<rparr>)) (f_write fops (files v ! fid) buf offset)
      | SchemeHandle name i \<Rightarrow>
          (case scheme_get reg name of
             Some s \<Rightarrow> let (r, s) = s_write ops s i buf in Some (r, bt_insert name s reg, v)
           | None \<Rightarrow> Some (Inl (Other ''Scheme not found''), reg, v)))"

definition close_handle ::
  "'s scheme_ops \<Rightarrow> 's scheme_registry \<Rightarrow> vfs_handle \<Rightarrow> (abi_error + unit) \<times> 's scheme_registry" where
  "close_handle ops reg h =
     (case h of
        FileHandle _ \<Rightarrow> (Inr (), reg)
      | SchemeHandle name i \<Rightarrow>
          (case scheme_get reg name of
             Some s \<Rightarrow> let (r, s) = s_close ops s i in (r, bt_insert name s reg)
           | None \<Rightarrow> (Inl (Other ''Scheme not found''), reg)))"

section \<open>Mounts\<close>

record mount_info =
  m_source :: string
  m_target :: string
  m_fstype :: string

definition register_mount :: "mount_info list \<Rightarrow> string \<Rightarrow> string \<Rightarrow> string \<Rightarrow> mount_info list" where
  "register_mount mounts source target fstype =
     mounts @ [\<lparr>m_source = source, m_target = target, m_fstype = fstype\<rparr>]"

section \<open>Pipes\<close>

record pipe_cell =
  queue :: bytes
  read_condition :: wait_condition
  write_condition :: wait_condition

record pipe_scheme =
  pipes :: "(nat, nat) btree"
  pipe_store :: "pipe_cell list"
  pipe_next_id :: nat

definition pipe_scheme_new :: pipe_scheme where
  "pipe_scheme_new = \<lparr>pipes = [], pipe_store = [], pipe_next_id = 1\<rparr>"

definition create_pipe :: "pipe_scheme \<Rightarrow> nat \<times> pipe_scheme" where
  "create_pipe ps =
     (let i = pipe_next_id ps
      in (i, ps\<lparr>pipe_next_id := (i + 1) mod 2 ^ 64,
                pipe_store := pipe_store ps @
                  [\<lparr>queue = [], read_condition = condition_new, write_condition = condition_new\<rparr>],
                pipes := bt_insert i (length (pipe_store ps)) (pipes ps)\<rparr>))"

definition pipe_open :: "pipe_scheme \<Rightarrow> string \<Rightarrow> nat \<Rightarrow> (abi_error + nat) \<times> pipe_scheme" where
  "pipe_open ps path flags = (let (i, ps) = create_pipe ps in (Inr i, ps))"

definition find_pipe :: "pipe_scheme \<Rightarrow> nat \<Rightarrow> abi_error + nat" where
  "find_pipe ps i =
     (case bt_get (pipes ps) i of None \<Rightarrow> Inl (Other ''Invalid pipe ID'') | Some k \<Rightarrow> Inr k)"

text \<open>The inner loop of \<open>read\<close>: bytes from the queue into the buffer from position \<open>i\<close> on.\<close>

fun pipe_fill :: "bytes \<Rightarrow> nat \<Rightarrow> bytes \<Rightarrow> nat \<times> bytes \<times> bytes" where
  "pipe_fill buf i [] = (i, buf, [])"
| "pipe_fill buf i (b # q) = (if i < length buf then pipe_fill (buf[i := b]) (i + 1) q else (i, buf, b # q))"

text \<open>One round of the outer loop of \<open>read\<close> on the pipe with index \<open>k\<close>.\<close>

definition pipe_read_round ::
  "kernel_env \<Rightarrow> sched \<Rightarrow> pipe_scheme \<Rightarrow> nat \<Rightarrow> bytes \<Rightarrow>
     ((abi_error + nat) outcome \<times> bytes \<times> pipe_scheme \<times> sched) option" where
  "pipe_read_round env s ps k buf =
     (let p = pipe_store ps ! k
      in if queue p \<noteq> [] then
           let (i, buf, q) = pipe_fill buf 0 (queue p);
               (n, c, s) = notify s (write_condition p)
           in Some (Finished (Inr i), buf,
                    ps\<lparr>pipe_store := (pipe_store ps)[k := p\<lparr>queue := q, write_condition := c\<rparr>]\<rparr>, s)
         else
           map_option (\<lambda>(c, s).
               (Waiting, buf, ps\<lparr>pipe_store := (pipe_store ps)[k := p\<lparr>read_condition := c\<rparr>]\<rparr>, s))
             (condition_wait env s (read_condition p)))"

definition pipe_read ::
  "kernel_env \<Rightarrow> sched \<Rightarrow> pipe_scheme \<Rightarrow> nat \<Rightarrow> bytes \<Rightarrow>
     ((abi_error + nat) outcome \<times> bytes \<times> pipe_scheme \<times> sched) option" where
  "pipe_read env s ps i buf =
     (case find_pipe ps i of
        Inl e \<Rightarrow> Some (Finished (Inl e), buf, ps, s)
      | Inr k \<Rightarrow> pipe_read_round env s ps k buf)"

definition pipe_write :: "sched \<Rightarrow> pipe_scheme \<Rightarrow> nat \<Rightarrow> bytes \<Rightarrow> (abi_error + nat) \<times> pipe_scheme \<times> sched" where
  "pipe_write s ps i buf =
     (case find_pipe ps i of
        Inl e \<Rightarrow> (Inl e, ps, s)
      | Inr k \<Rightarrow>
          let p = pipe_store ps ! k;
              q = foldl (\<lambda>q b. q @ [b]) (queue p) buf;
              (n, c, s) = notify s (read_condition p)
          in (Inr (length buf),
              ps\<lparr>pipe_store := (pipe_store ps)[k := p\<lparr>queue := q, read_condition := c\<rparr>]\<rparr>, s))"

definition pipe_close :: "pipe_scheme \<Rightarrow> nat \<Rightarrow> (abi_error + unit) \<times> pipe_scheme" where
  "pipe_close ps i = (Inr (), ps\<lparr>pipes := bt_remove i (pipes ps)\<rparr>)"

section \<open>A pipe is a queue of bytes\<close>

definition pipe_push :: "pipe_cell \<Rightarrow> u8 \<Rightarrow> pipe_cell option" where
  "pipe_push p b = Some (p\<lparr>queue := queue p @ [b]\<rparr>)"

definition pipe_pop :: "pipe_cell \<Rightarrow> (u8 \<times> pipe_cell) option" where
  "pipe_pop p = (case queue p of [] \<Rightarrow> None | b # q \<Rightarrow> Some (b, p\<lparr>queue := q\<rparr>))"

interpretation pipe: fifo pipe_push pipe_pop queue "\<lambda>_. True" "\<lambda>_ _. True"
  by unfold_locales (auto simp: pipe_push_def pipe_pop_def split: list.splits)

lemma push_all: "send_all pipe_push p bs = Some (p\<lparr>queue := foldl (\<lambda>q b. q @ [b]) (queue p) bs\<rparr>)"
  by (induction bs arbitrary: p) (simp_all add: pipe_push_def)

lemma foldl_push: "foldl (\<lambda>q b. q @ [b]) (q :: bytes) bs = q @ bs"
  using pipe.send_all_contents [of "\<lparr>queue = q, read_condition = condition_new, write_condition = condition_new\<rparr>" bs]
  by (simp add: push_all)

text \<open>The reading loop takes bytes from the queue as long as the buffer has room.\<close>

lemma pipe_fill_recv:
  assumes "queue p = q" "i \<le> length buf" "recv_n pipe_pop p (length buf - i) = (xs, p')"
  shows "pipe_fill buf i q = (i + length xs, put_bytes buf i xs, queue p')"
  using assms
proof (induction buf i q arbitrary: p xs rule: pipe_fill.induct)
  case (1 buf i)
  then show ?case by (cases "length buf - i") (auto simp: pipe_pop_def put_bytes_def)
next
  case (2 buf i b q)
  show ?case
  proof (cases "i < length buf")
    case True
    then obtain n where n: "length buf - i = Suc n" by (cases "length buf - i") auto
    have pop: "pipe_pop p = Some (b, p\<lparr>queue := q\<rparr>)" using 2(2) by (simp add: pipe_pop_def)
    obtain ys where ys: "recv_n pipe_pop (p\<lparr>queue := q\<rparr>) n = (ys, p')" "xs = b # ys"
      using 2(2,4) n pop by (auto split: prod.splits)
    have n': "length buf - Suc i = n" using n by simp
    have "pipe_fill (buf[i := b]) (i + 1) q = (i + 1 + length ys, put_bytes (buf[i := b]) (i + 1) ys, queue p')"
      using True n ys(1) by (intro 2(1) [of "p\<lparr>queue := q\<rparr>"]) (auto simp: n')
    moreover have "put_bytes (buf[i := b]) (i + 1) ys = put_bytes buf i (b # ys)"
      using True by (simp add: put_bytes_def take_Suc_conv_app_nth)
    ultimately show ?thesis using True ys(2) by simp
  next
    case False
    with 2(2-4) show ?thesis by (auto simp: put_bytes_def)
  qed
qed

lemma pipe_fill_spec:
  assumes "n = min (length buf) (length q)"
  shows "pipe_fill buf 0 q = (n, put_bytes buf 0 (take n q), drop n q)"
proof -
  let ?p = "\<lparr>queue = q, read_condition = condition_new, write_condition = condition_new\<rparr>"
  obtain xs p' where r: "recv_n pipe_pop ?p (length buf) = (xs, p')" by fastforce
  have "xs = take n q" "queue p' = drop n q"
    using pipe.recv_n_contents [OF _ r] assms by (auto simp: min_def)
  with pipe_fill_recv [of ?p q 0 buf xs p'] r assms show ?thesis by (auto simp: min_def)
qed

section \<open>Streams\<close>

definition pipe_inv :: "pipe_scheme \<Rightarrow> bool" where
  "pipe_inv ps \<longleftrightarrow> bt_inv (pipes ps) \<and> (\<forall>i k. bt_get (pipes ps) i = Some k \<longrightarrow> k < length (pipe_store ps)) \<and>
     (\<forall>i j k. bt_get (pipes ps) i = Some k \<and> bt_get (pipes ps) j = Some k \<longrightarrow> i = j)"

definition pipe_contents :: "pipe_scheme \<Rightarrow> nat \<Rightarrow> bytes option" where
  "pipe_contents ps i = map_option (\<lambda>k. queue (pipe_store ps ! k)) (bt_get (pipes ps) i)"

fun pipe_writes :: "sched \<Rightarrow> pipe_scheme \<Rightarrow> nat \<Rightarrow> bytes list \<Rightarrow> pipe_scheme \<times> sched" where
  "pipe_writes s ps i [] = (ps, s)"
| "pipe_writes s ps i (xs # xss) = (let (r, ps, s) = pipe_write s ps i xs in pipe_writes s ps i xss)"

lemma create_pipe_inv:
  assumes "pipe_inv ps" "create_pipe ps = (i, ps')"
  shows "pipe_inv ps'" "pipe_contents ps' i = Some []"
    "j \<noteq> i \<Longrightarrow> pipe_contents ps' j = pipe_contents ps j"
proof -
  have *: "bt_get (pipes ps) a = Some b \<Longrightarrow> b < length (pipe_store ps)" for a b
    using assms(1) by (simp add: pipe_inv_def)
  have fresh: "bt_get (pipes ps) a \<noteq> Some (length (pipe_store ps))" for a using * [of a] by auto
  have eq: "pipes ps' = bt_insert i (length (pipe_store ps)) (pipes ps)"
    "length (pipe_store ps') = Suc (length (pipe_store ps))"
    using assms(2) by (auto simp: create_pipe_def Let_def)
  show "pipe_inv ps'"
    using assms(1) * fresh unfolding pipe_inv_def eq by (auto simp: less_Suc_eq)
  show "pipe_contents ps' i = Some []" "j \<noteq> i \<Longrightarrow> pipe_contents ps' j = pipe_contents ps j"
    using assms(2) * [of j]
    by (cases "bt_get (pipes ps) j"; auto simp: pipe_contents_def create_pipe_def Let_def nth_append)+
qed

text \<open>Changing the cell of one pipe changes the contents of that pipe only.\<close>

lemma pipe_update:
  assumes "pipe_inv ps" "bt_get (pipes ps) i = Some k"
  shows "pipe_inv (ps\<lparr>pipe_store := (pipe_store ps)[k := p]\<rparr>)"
    "pipe_contents (ps\<lparr>pipe_store := (pipe_store ps)[k := p]\<rparr>) j =
       (if j = i then Some (queue p) else pipe_contents ps j)"
proof -
  show "pipe_inv (ps\<lparr>pipe_store := (pipe_store ps)[k := p]\<rparr>)" using assms(1) by (simp add: pipe_inv_def)
  show "pipe_contents (ps\<lparr>pipe_store := (pipe_store ps)[k := p]\<rparr>) j =
       (if j = i then Some (queue p) else pipe_contents ps j)"
    using assms by (cases "bt_get (pipes ps) j") (auto simp: pipe_contents_def pipe_inv_def nth_list_update)
qed

lemma pipe_write_spec:
  assumes "pipe_inv ps" "pipe_contents ps i = Some c" "pipe_write s ps i xs = (r, ps', s')"
  shows "r = Inr (length xs)" "pipe_inv ps'"
    "pipe_contents ps' j = (if j = i then Some (c @ xs) else pipe_contents ps j)"
proof -
  from assms(2) obtain k where k: "bt_get (pipes ps) i = Some k" "queue (pipe_store ps ! k) = c"
    by (auto simp: pipe_contents_def)
  then obtain p where p: "r = Inr (length xs)" "ps' = ps\<lparr>pipe_store := (pipe_store ps)[k := p]\<rparr>" "queue p = c @ xs"
    using assms(3) by (auto simp: pipe_write_def find_pipe_def notify_def Let_def foldl_push)
  then show "r = Inr (length xs)" "pipe_inv ps'"
    "pipe_contents ps' j = (if j = i then Some (c @ xs) else pipe_contents ps j)"
    using pipe_update [OF assms(1) k(1)] by simp_all
qed

lemma pipe_writes_spec:
  assumes "pipe_inv ps" "pipe_contents ps i = Some c" "pipe_writes s ps i xss = (ps', s')"
  shows "pipe_inv ps' \<and> (\<forall>j. pipe_contents ps' j = (if j = i then Some (c @ concat xss) else pipe_contents ps j))"
  using assms
proof (induction xss arbitrary: s ps c)
  case (Cons xs xss)
  obtain r ps1 s1 where w: "pipe_write s ps i xs = (r, ps1, s1)" by (cases rule: prod_cases3)
  note W = pipe_write_spec [OF Cons.prems(1,2) w]
  from Cons.IH [of ps1 "c @ xs" s1] W Cons.prems(3) w show ?case by simp
qed auto

text \<open>(C23) A pipe is a byte stream: after any sequence of writes to it, a read returns the oldest
  bytes written and not yet read, in order, as many as fit in the buffer; the rest stays for the
  next read, and no other pipe changes.\<close>

theorem pipe_is_byte_stream:
  assumes "pipe_inv ps" "pipe_contents ps i = Some c" "pipe_writes s ps i xss = (ps1, s1)" "c @ concat xss \<noteq> []"
    and "n = min (length buf) (length (c @ concat xss))"
  shows "\<exists>ps2 s2. pipe_read env s1 ps1 i buf = Some (Finished (Inr n), put_bytes buf 0 (take n (c @ concat xss)), ps2, s2) \<and>
           pipe_inv ps2 \<and>
           (\<forall>j. pipe_contents ps2 j = (if j = i then Some (drop n (c @ concat xss)) else pipe_contents ps j))"
proof -
  note W = pipe_writes_spec [OF assms(1-3)]
  then have "pipe_contents ps1 i = Some (c @ concat xss)" by simp
  then obtain k where k: "bt_get (pipes ps1) i = Some k" "queue (pipe_store ps1 ! k) = c @ concat xss"
    by (auto simp: pipe_contents_def)
  let ?p = "(pipe_store ps1 ! k)\<lparr>queue := drop n (c @ concat xss), write_condition := condition_new\<rparr>"
  have nt: "\<exists>s2. notify s1 w = (length (waiters w), condition_new, s2)" for w
    by (simp add: notify_def condition_new_def)
  have "\<exists>s2. pipe_read env s1 ps1 i buf = Some (Finished (Inr n), put_bytes buf 0 (take n (c @ concat xss)),
      ps1\<lparr>pipe_store := (pipe_store ps1)[k := ?p]\<rparr>, s2)"
    using k assms(4) nt [of "write_condition (pipe_store ps1 ! k)"] pipe_fill_spec [OF assms(5)]
    by (auto simp: pipe_read_def find_pipe_def pipe_read_round_def Let_def)
  with pipe_update [OF conjunct1 [OF W] k(1), of ?p] W show ?thesis by fastforce
qed

definition demo_pipes :: pipe_scheme where
  "demo_pipes = snd (create_pipe (snd (create_pipe pipe_scheme_new)))"

lemma demo_pipes_inv: "pipe_inv demo_pipes" "pipe_contents demo_pipes 1 = Some []" "pipe_contents demo_pipes 2 = Some []"
  by (auto simp: demo_pipes_def create_pipe_def pipe_scheme_new_def pipe_inv_def pipe_contents_def split: if_splits)

theorem pipe_is_byte_stream_witness:
  "\<exists>ps1 s1 ps2 s2. pipe_writes demo_sched demo_pipes 1 [[1, 2], [], [3]] = (ps1, s1) \<and>
     pipe_read demo_env s1 ps1 1 [0, 0] = Some (Finished (Inr 2), [1, 2], ps2, s2) \<and>
     pipe_contents ps2 1 = Some [3] \<and> pipe_contents ps2 2 = Some []"
proof -
  obtain ps1 s1 where w: "pipe_writes demo_sched demo_pipes 1 [[1, 2], [], [3]] = (ps1, s1)" by fastforce
  from pipe_is_byte_stream [OF demo_pipes_inv(1,2) w, of 2 "[0, 0]" demo_env] w demo_pipes_inv(3) show ?thesis
    by (auto simp: put_bytes_def)
qed

section \<open>Files through handles\<close>

text \<open>A handle opened on the path of a file reads and writes what the path does.\<close>

lemma open_handle:
  assumes "scheme_name path = None" "vfs_open sops reg v path flags = Some (Inr h, reg')"
  shows "reg' = reg"
    "read_handle fops sops reg v h buf off = map_option (\<lambda>(r, b). (r, b, reg)) (read_raw fops v path buf off)"
    "write_handle fops sops reg v h buf off = map_option (\<lambda>(r, v). (r, reg, v)) (write_raw fops v path buf off)"
    "close_handle sops reg h = (Inr (), reg)"
proof -
  obtain n fid where n: "resolve_node v path = Some (Inr n)" "nodes v ! n = FileNode fid" "h = FileHandle fid" "reg' = reg"
    using assms unfolding vfs_open_def open_node_def
    by (cases "resolve_node v path") (auto split: sum.split_asm vfs_node.split_asm)
  then show "reg' = reg"
    "read_handle fops sops reg v h buf off = map_option (\<lambda>(r, b). (r, b, reg)) (read_raw fops v path buf off)"
    "close_handle sops reg h = (Inr (), reg)"
    by (simp_all add: read_handle_def close_handle_def read_raw_def)
  show "write_handle fops sops reg v h buf off = map_option (\<lambda>(r, v). (r, reg, v)) (write_raw fops v path buf off)"
    using n by (cases "f_write fops (files v ! fid) buf off") (auto simp: write_handle_def write_raw_def)
qed

end
