(* ===== verification/Ziqa_Pagecache.thy ===== *)
theory Ziqa_Pagecache
  imports Ziqa_Prelude
begin

text \<open>
  The page cache (\<open>src/src/fs/pagecache.rs\<close>): sixteen slots with least-recently-used
  replacement, against a partial map from keys to page contents.
\<close>

section \<open>The cache\<close>

definition PAGE_SIZE :: nat where "PAGE_SIZE = 4096"
definition CACHE_PAGES :: nat where "CACHE_PAGES = 16"

record page_key =
  file_id :: u32
  page_num :: u32

record cache_entry =
  e_key :: page_key
  e_data :: bytes
  e_size :: nat
  access_count :: u64
  e_dirty :: bool

record page_cache =
  entries :: "cache_entry option list"
  access_epoch :: u64

definition cache_new :: page_cache where
  "cache_new = \<lparr>entries = replicate CACHE_PAGES None, access_epoch = 0\<rparr>"

definition has_key :: "page_key \<Rightarrow> cache_entry option \<Rightarrow> bool" where
  "has_key key x = (case x of None \<Rightarrow> False | Some e \<Rightarrow> e_key e = key)"

text \<open>\<open>None\<close> is a slice out of range.\<close>

definition cache_get :: "page_cache \<Rightarrow> page_key \<Rightarrow> (bytes option \<times> page_cache) option" where
  "cache_get c key =
     (let c = c\<lparr>access_epoch := access_epoch c + 1\<rparr>
      in case position (has_key key) (entries c) of
           None \<Rightarrow> Some (None, c)
         | Some i \<Rightarrow>
             let e = the (entries c ! i);
                 c = c\<lparr>entries := (entries c)[i := Some (e\<lparr>access_count := access_epoch c\<rparr>)]\<rparr>
             in if e_size e > length (e_data e) then None else Some (Some (take (e_size e) (e_data e)), c))"

text \<open>The search for an empty slot or the least recently used one.\<close>

fun find_slot :: "nat \<Rightarrow> u64 \<Rightarrow> nat option \<Rightarrow> cache_entry option list \<Rightarrow> nat option" where
  "find_slot i min_access lru_idx [] = lru_idx"
| "find_slot i min_access lru_idx (None # es) = Some i"
| "find_slot i min_access lru_idx (Some e # es) =
     (if access_count e < min_access then find_slot (i + 1) (access_count e) (Some i) es
      else find_slot (i + 1) min_access lru_idx es)"

definition cache_put :: "page_cache \<Rightarrow> page_key \<Rightarrow> bytes \<Rightarrow> (abi_error + unit) \<times> page_cache" where
  "cache_put c key data =
     (if length data > PAGE_SIZE then (Inl OutOfMemory, c)
      else case position (has_key key) (entries c) of
        Some i \<Rightarrow>
          let e = the (entries c ! i);
              e = e\<lparr>e_data := put_bytes (e_data e) 0 data, e_size := length data,
                    access_count := access_epoch c, e_dirty := True\<rparr>
          in (Inr (), c\<lparr>entries := (entries c)[i := Some e]\<rparr>)
      | None \<Rightarrow>
          (case find_slot 0 (- 1) None (entries c) of
             Some i \<Rightarrow>
               let e = \<lparr>e_key = key, e_data = put_bytes (replicate PAGE_SIZE 0) 0 data, e_size = length data,
                        access_count = access_epoch c, e_dirty = True\<rparr>
               in (Inr (), c\<lparr>entries := (entries c)[i := Some e]\<rparr>)
           | None \<Rightarrow> (Inl OutOfMemory, c)))"

definition cache_mark_dirty :: "page_cache \<Rightarrow> page_key \<Rightarrow> page_cache" where
  "cache_mark_dirty c key =
     (case position (has_key key) (entries c) of
        None \<Rightarrow> c
      | Some i \<Rightarrow> c\<lparr>entries := (entries c)[i := Some ((the (entries c ! i))\<lparr>e_dirty := True\<rparr>)]\<rparr>)"

definition is_dirty :: "cache_entry option \<Rightarrow> bool" where
  "is_dirty x = (case x of None \<Rightarrow> False | Some e \<Rightarrow> e_dirty e)"

definition cache_flush :: "page_cache \<Rightarrow> nat \<times> page_cache" where
  "cache_flush c =
     (length (filter is_dirty (entries c)),
      c\<lparr>entries := map (map_option (\<lambda>e. e\<lparr>e_dirty := False\<rparr>)) (entries c)\<rparr>)"

record cache_stats =
  total_entries :: nat
  dirty_entries :: nat
  cs_capacity :: nat
  epoch :: u64

definition stats :: "page_cache \<Rightarrow> cache_stats" where
  "stats c = \<lparr>total_entries = length (filter (\<lambda>x. x \<noteq> None) (entries c)),
              dirty_entries = length (filter is_dirty (entries c)),
              cs_capacity = CACHE_PAGES, epoch = access_epoch c\<rparr>"

definition cache_clear :: "page_cache \<Rightarrow> page_cache" where
  "cache_clear c = c\<lparr>entries := map (\<lambda>_. None) (entries c), access_epoch := 0\<rparr>"

definition get_cached_page :: "page_cache \<Rightarrow> page_key \<Rightarrow> (bytes option \<times> page_cache) option" where
  "get_cached_page c key = cache_get c key"

definition cache_page :: "page_cache \<Rightarrow> page_key \<Rightarrow> bytes \<Rightarrow> (abi_error + unit) \<times> page_cache" where
  "cache_page c key data = cache_put c key data"

section \<open>The cache as a map\<close>

definition entry_ok :: "u64 \<Rightarrow> cache_entry \<Rightarrow> bool" where
  "entry_ok ep e \<longleftrightarrow> length (e_data e) = PAGE_SIZE \<and> e_size e \<le> PAGE_SIZE \<and> access_count e \<le> ep"

definition cache_inv :: "page_cache \<Rightarrow> bool" where
  "cache_inv c \<longleftrightarrow> length (entries c) = CACHE_PAGES \<and>
     (\<forall>i < CACHE_PAGES. \<forall>e. entries c ! i = Some e \<longrightarrow> entry_ok (access_epoch c) e) \<and>
     (\<forall>i < CACHE_PAGES. \<forall>j < CACHE_PAGES. \<forall>e f.
        entries c ! i = Some e \<and> entries c ! j = Some f \<and> e_key e = e_key f \<longrightarrow> i = j)"

definition page_of :: "cache_entry \<Rightarrow> bytes" where
  "page_of e = take (e_size e) (e_data e)"

definition lookup :: "page_cache \<Rightarrow> page_key \<Rightarrow> cache_entry option" where
  "lookup c key = (case position (has_key key) (entries c) of None \<Rightarrow> None | Some i \<Rightarrow> entries c ! i)"

lemma cache_entry_ok:
  "cache_inv c \<Longrightarrow> i < CACHE_PAGES \<Longrightarrow> entries c ! i = Some e \<Longrightarrow> entry_ok (access_epoch c) e"
  unfolding cache_inv_def by blast

lemma position_lookup:
  assumes "cache_inv c"
  shows "position (has_key key) (entries c) = None \<longleftrightarrow> lookup c key = None"
    "position (has_key key) (entries c) = Some i \<Longrightarrow>
       i < CACHE_PAGES \<and> (\<exists>e. entries c ! i = Some e \<and> e_key e = key \<and> lookup c key = Some e)"
proof -
  have *: "i < CACHE_PAGES \<and> (\<exists>e. entries c ! i = Some e \<and> e_key e = key \<and> lookup c key = Some e)"
    if "position (has_key key) (entries c) = Some i" for i
    using position_SomeD [OF that] assms that
    by (cases "entries c ! i") (auto simp: cache_inv_def has_key_def lookup_def)
  show "position (has_key key) (entries c) = None \<longleftrightarrow> lookup c key = None"
  proof (cases "position (has_key key) (entries c)")
    case None
    then show ?thesis by (simp only: lookup_def option.case simp_thms)
  next
    case (Some i)
    with * [OF Some] show ?thesis by (metis option.distinct(1))
  qed
  show "position (has_key key) (entries c) = Some i \<Longrightarrow>
       i < CACHE_PAGES \<and> (\<exists>e. entries c ! i = Some e \<and> e_key e = key \<and> lookup c key = Some e)"
    using * .
qed

lemma lookup_iff:
  assumes "cache_inv c"
  shows "lookup c key = Some e \<longleftrightarrow> (\<exists>i < CACHE_PAGES. entries c ! i = Some e \<and> e_key e = key)"
proof (cases "position (has_key key) (entries c)")
  case None
  then have "\<not> has_key key x" if "x \<in> set (entries c)" for x using that by simp
  then have "e_key e \<noteq> key" if "i < CACHE_PAGES" "entries c ! i = Some e" for i
    using that assms nth_mem [of i "entries c"] by (fastforce simp: cache_inv_def has_key_def)
  with position_lookup(1) [OF assms, of key] None show ?thesis by auto
next
  case (Some i)
  from position_lookup(2) [OF assms Some] obtain f where
    f: "i < CACHE_PAGES" "entries c ! i = Some f" "e_key f = key" "lookup c key = Some f" by blast
  have "j = i" if "j < CACHE_PAGES" "entries c ! j = Some e" "e_key e = key" for j
    using assms f that unfolding cache_inv_def by metis
  with f show ?thesis by auto
qed

text \<open>Storing an entry in a slot that holds no other key, or whose key goes away.\<close>

lemma store_entry:
  assumes inv: "cache_inv c" and i: "i < CACHE_PAGES" and e: "entry_ok (access_epoch c) e"
    and key: "\<forall>j f. j < CACHE_PAGES \<longrightarrow> j \<noteq> i \<longrightarrow> entries c ! j = Some f \<longrightarrow> e_key f \<noteq> e_key e"
    and c': "c' = c\<lparr>entries := (entries c)[i := Some e]\<rparr>"
  shows "cache_inv c'"
    "lookup c' k = (if k = e_key e then Some e
        else if \<exists>f. entries c ! i = Some f \<and> e_key f = k then None else lookup c k)"
proof -
  have len: "length (entries c) = CACHE_PAGES" using inv by (simp add: cache_inv_def)
  have at: "entries c' ! j = (if j = i then Some e else entries c ! j)" for j using i len by (simp add: c')
  have other: "length (entries c') = CACHE_PAGES" "access_epoch c' = access_epoch c" using len by (simp_all add: c')
  have ok: "j < CACHE_PAGES \<Longrightarrow> entries c ! j = Some f \<Longrightarrow> entry_ok (access_epoch c) f" for j f
    using inv unfolding cache_inv_def by blast
  have uniq: "a = b" if "a < CACHE_PAGES" "b < CACHE_PAGES" "entries c ! a = Some f" "entries c ! b = Some g"
    "e_key f = e_key g" for a b f g
    using inv that unfolding cache_inv_def by blast
  have "a = b" if "a < CACHE_PAGES" "b < CACHE_PAGES" "entries c' ! a = Some f" "entries c' ! b = Some g"
    "e_key f = e_key g" for a b f g
    using that key [rule_format, of a f] key [rule_format, of b g] uniq [of a b f g] by (auto simp: at split: if_split_asm)
  moreover have "entry_ok (access_epoch c') f" if "j < CACHE_PAGES" "entries c' ! j = Some f" for j f
    using that e ok [of j f] by (auto simp: at other split: if_split_asm)
  ultimately show inv': "cache_inv c'" unfolding cache_inv_def other(1) by blast
  have l: "lookup c' k = Some f \<longleftrightarrow> (\<exists>j < CACHE_PAGES. (if j = i then Some e else entries c ! j) = Some f \<and> e_key f = k)" for f
    unfolding lookup_iff [OF inv'] at ..
  show "lookup c' k = (if k = e_key e then Some e
        else if \<exists>f. entries c ! i = Some f \<and> e_key f = k then None else lookup c k)"
  proof (cases "k = e_key e")
    case True
    then show ?thesis using l [of e] i by auto
  next
    case False
    then have l': "lookup c' k = Some f \<longleftrightarrow> (\<exists>j < CACHE_PAGES. j \<noteq> i \<and> entries c ! j = Some f \<and> e_key f = k)" for f
      unfolding l by auto
    have "lookup c' k = Some f \<longleftrightarrow>
        (\<nexists>f. entries c ! i = Some f \<and> e_key f = k) \<and> lookup c k = Some f" for f
      unfolding l' lookup_iff [OF inv] using uniq i by blast
    then show ?thesis using False by (metis option.exhaust option.distinct(1))
  qed
qed

section \<open>Replacement\<close>

lemma find_slot_empty:
  "position (\<lambda>x. x = None) es = Some k \<Longrightarrow> find_slot i m l es = Some (i + k)"
  by (induction i m l es arbitrary: k rule: find_slot.induct) auto

lemma find_slot_full:
  "None \<notin> set es \<Longrightarrow>
     (find_slot i m l es = l \<and> (\<forall>e. Some e \<in> set es \<longrightarrow> m \<le> access_count e)) \<or>
     (\<exists>k < length es. \<exists>e. find_slot i m l es = Some (i + k) \<and> es ! k = Some e \<and> access_count e < m \<and>
        (\<forall>f. Some f \<in> set es \<longrightarrow> access_count e \<le> access_count f))"
proof (induction i m l es rule: find_slot.induct)
  case (3 i m l e es)
  show ?case
  proof (cases "access_count e < m")
    case True
    with 3 consider
      "find_slot (i + 1) (access_count e) (Some i) es = Some i" "\<forall>f. Some f \<in> set es \<longrightarrow> access_count e \<le> access_count f"
      | k g where "k < length es" "find_slot (i + 1) (access_count e) (Some i) es = Some (i + 1 + k)"
        "es ! k = Some g" "access_count g < access_count e" "\<forall>f. Some f \<in> set es \<longrightarrow> access_count g \<le> access_count f"
      by auto
    then show ?thesis
    proof cases
      case 1
      with True show ?thesis by (intro disjI2 exI [of _ 0]) auto
    next
      case 2
      with True show ?thesis by (intro disjI2 exI [of _ "Suc k"]) auto
    qed
  next
    case False
    with 3 consider
      "find_slot (i + 1) m l es = l" "\<forall>f. Some f \<in> set es \<longrightarrow> m \<le> access_count f"
      | k g where "k < length es" "find_slot (i + 1) m l es = Some (i + 1 + k)"
        "es ! k = Some g" "access_count g < m" "\<forall>f. Some f \<in> set es \<longrightarrow> access_count g \<le> access_count f"
      by auto
    then show ?thesis
    proof cases
      case 1
      with False show ?thesis by auto
    next
      case 2
      with False show ?thesis by (intro disjI2 exI [of _ "Suc k"]) auto
    qed
  qed
qed auto

text \<open>The entry a full cache gives up is one of those used longest ago.\<close>

definition oldest :: "page_cache \<Rightarrow> cache_entry \<Rightarrow> bool" where
  "oldest c e \<longleftrightarrow> None \<notin> set (entries c) \<and> (\<forall>k f. lookup c k = Some f \<longrightarrow> access_count e \<le> access_count f)"

lemma lookup_in: "lookup c k = Some f \<Longrightarrow> Some f \<in> set (entries c)"
  by (auto simp: lookup_def split: option.splits dest: position_SomeD) (metis nth_mem position_SomeD)

lemma find_slot_victim:
  assumes "cache_inv c" "access_epoch c < - 1"
  obtains i where "find_slot 0 (- 1) None (entries c) = Some i" "i < CACHE_PAGES"
    "entries c ! i = None \<or> (\<exists>e. entries c ! i = Some e \<and> oldest c e)"
proof (cases "position (\<lambda>x. x = None) (entries c)")
  case (Some k)
  with find_slot_empty [OF Some, of 0] position_SomeD [OF Some] assms(1) that show thesis
    by (auto simp: cache_inv_def)
next
  case None
  then have full: "None \<notin> set (entries c)" by auto
  have len: "length (entries c) = CACHE_PAGES" using assms(1) by (simp add: cache_inv_def)
  then obtain e where e: "entries c ! 0 = Some e" using full nth_mem [of 0 "entries c"] by (cases "entries c ! 0") (auto simp: CACHE_PAGES_def)
  then have "access_count e \<le> access_epoch c"
    using cache_entry_ok [OF assms(1), of 0 e] by (simp add: entry_ok_def CACHE_PAGES_def)
  with assms(2) have "\<not> - 1 \<le> access_count e" by (meson leD le_less_trans)
  moreover have "Some e \<in> set (entries c)" using e len nth_mem [of 0 "entries c"] by (simp add: CACHE_PAGES_def)
  ultimately obtain k g where "k < length (entries c)" "find_slot 0 (- 1) None (entries c) = Some k"
      "entries c ! k = Some g" "\<forall>f. Some f \<in> set (entries c) \<longrightarrow> access_count g \<le> access_count f"
    using find_slot_full [OF full, of 0 "- 1" None] by auto
  with that full len lookup_in show thesis by (auto simp: oldest_def)
qed

lemma page_of_put: "length data \<le> length d \<Longrightarrow> take (length data) (put_bytes d 0 data) = data"
  by (simp add: put_bytes_def)

lemma cache_get_lookup:
  assumes "cache_inv c" "lookup c key = Some e"
  shows "\<exists>c'. cache_get c key = Some (Some (page_of e), c')"
proof -
  let ?c = "c\<lparr>access_epoch := access_epoch c + 1\<rparr>"
  from assms obtain i where i: "position (has_key key) (entries c) = Some i"
    using position_lookup(1) [OF assms(1), of key] by fastforce
  from position_lookup(2) [OF assms(1) i] assms have e: "entries c ! i = Some e" "i < CACHE_PAGES" by auto
  then have "e_size e \<le> length (e_data e)" using cache_entry_ok [OF assms(1)] by (auto simp: entry_ok_def)
  with i e(1) show ?thesis by (simp add: cache_get_def page_of_def)
qed

text \<open>What storing a page does to the map: the new page is found under its key, and at most one other
  page goes, the oldest of a full cache.\<close>

definition stored :: "page_cache \<Rightarrow> page_key \<Rightarrow> bytes \<Rightarrow> page_cache \<Rightarrow> bool" where
  "stored c key data c' \<longleftrightarrow>
     (\<exists>e. lookup c' key = Some e \<and> page_of e = data \<and> e_dirty e) \<and>
     (\<forall>k. k \<noteq> key \<and> lookup c' k \<noteq> lookup c k \<longrightarrow>
        lookup c key = None \<and> lookup c' k = None \<and> (\<exists>e. lookup c k = Some e \<and> oldest c e)) \<and>
     (\<forall>k l. k \<noteq> key \<and> l \<noteq> key \<and> lookup c' k \<noteq> lookup c k \<and> lookup c' l \<noteq> lookup c l \<longrightarrow> k = l)"

lemma cache_put_hit:
  assumes inv: "cache_inv c" and data: "length data \<le> PAGE_SIZE"
    and p: "position (has_key key) (entries c) = Some i"
  shows "\<exists>c'. cache_put c key data = (Inr (), c') \<and> cache_inv c' \<and> stored c key data c'"
proof -
  from position_lookup(2) [OF inv p] obtain f where
    f: "i < CACHE_PAGES" "entries c ! i = Some f" "e_key f = key" by blast
  have ok: "entry_ok (access_epoch c) f" using cache_entry_ok [OF inv f(1,2)] .
  let ?e = "f\<lparr>e_data := put_bytes (e_data f) 0 data, e_size := length data, access_count := access_epoch c, e_dirty := True\<rparr>"
  let ?c = "c\<lparr>entries := (entries c)[i := Some ?e]\<rparr>"
  have e: "entry_ok (access_epoch c) ?e" using ok data by (simp add: entry_ok_def)
  have other: "\<forall>j g. j < CACHE_PAGES \<longrightarrow> j \<noteq> i \<longrightarrow> entries c ! j = Some g \<longrightarrow> e_key g \<noteq> e_key ?e"
    using inv f unfolding cache_inv_def by fastforce
  note S = store_entry [OF inv f(1) e other refl]
  have "cache_put c key data = (Inr (), ?c)" using p f(2) data by (simp add: cache_put_def Let_def)
  moreover have "page_of ?e = data"
    using data ok by (simp add: page_of_def page_of_put entry_ok_def)
  ultimately show ?thesis using S f(2,3) by (intro exI [of _ ?c]) (auto simp: stored_def)
qed

lemma cache_put_miss:
  assumes inv: "cache_inv c" and data: "length data \<le> PAGE_SIZE" and epoch: "access_epoch c < - 1"
    and p: "position (has_key key) (entries c) = None"
  shows "\<exists>c'. cache_put c key data = (Inr (), c') \<and> cache_inv c' \<and> stored c key data c'"
proof -
  from inv epoch obtain i where i: "find_slot 0 (- 1) None (entries c) = Some i" "i < CACHE_PAGES"
    "entries c ! i = None \<or> (\<exists>e. entries c ! i = Some e \<and> oldest c e)" by (rule find_slot_victim)
  have miss: "lookup c key = None" using position_lookup(1) [OF inv, of key] p by simp
  let ?e = "\<lparr>e_key = key, e_data = put_bytes (replicate PAGE_SIZE 0) 0 data, e_size = length data,
             access_count = access_epoch c, e_dirty = True\<rparr>"
  let ?c = "c\<lparr>entries := (entries c)[i := Some ?e]\<rparr>"
  have e: "entry_ok (access_epoch c) ?e" using data by (simp add: entry_ok_def)
  have other: "\<forall>j g. j < CACHE_PAGES \<longrightarrow> j \<noteq> i \<longrightarrow> entries c ! j = Some g \<longrightarrow> e_key g \<noteq> e_key ?e"
    using lookup_iff [OF inv, of key] miss by auto
  note S = store_entry [OF inv i(2) e other refl]
  have put: "cache_put c key data = (Inr (), ?c)" using i(1) data unfolding cache_put_def p by (simp add: Let_def)
  have gone: "\<exists>f. entries c ! i = Some f \<and> k = e_key f \<and> lookup c k = Some f \<and> lookup ?c k = None \<and> oldest c f"
    if k: "k \<noteq> key" "lookup ?c k \<noteq> lookup c k" for k
  proof -
    obtain f where f: "entries c ! i = Some f" "e_key f = k" "lookup ?c k = None"
      using k S(2) [of k] by (auto split: if_split_asm)
    then have "lookup c k = Some f" using lookup_iff [OF inv, of k f] i(2) by auto
    with f i(3) show ?thesis by auto
  qed
  have "page_of ?e = data" using data by (simp add: page_of_def page_of_put)
  then have new: "\<exists>e. lookup ?c key = Some e \<and> page_of e = data \<and> e_dirty e"
    using S(2) [of key] by auto
  have "stored c key data ?c"
    unfolding stored_def using new gone miss by (metis option.inject)
  with put S(1) show ?thesis by blast
qed


lemma cache_new_inv: "cache_inv cache_new"
  by (simp add: cache_inv_def cache_new_def)


end
