(* ===== verification/Ziqa_Buddy.thy ===== *)
theory Ziqa_Buddy
  imports Ziqa_Prelude
begin

text \<open>
  Physical frames: the bump and buddy allocators of \<open>src/third_party/rmm/src/allocator/frame\<close>, which
  \<open>src/src/memory/frame_allocator.rs\<close> hands frames out from.  Physical memory, which the allocator
  reaches through the direct mapping, is a function from addresses to bytes; the usage map of
  an area lies in the first pages of the area itself.  The table of areas has a frame of its
  own and is kept as a list.  \<open>usize\<close> sums and products wrap at 64 bits.
\<close>

section \<open>Addresses and areas\<close>

definition usz :: "nat \<Rightarrow> nat" where
  "usz n = n mod 2 ^ 64"

definition usz_sub :: "nat \<Rightarrow> nat \<Rightarrow> nat" where
  "usz_sub a b = usz (a + 2 ^ 64 - b)"

definition FRAME_SHIFT :: nat where "FRAME_SHIFT = 12"
definition FRAME_SIZE :: nat where "FRAME_SIZE = 4096"

type_synonym pmem = "nat \<Rightarrow> u8"

definition write_bytes :: "pmem \<Rightarrow> nat \<Rightarrow> u8 \<Rightarrow> nat \<Rightarrow> pmem" where
  "write_bytes m a v n x = (if a \<le> x \<and> x < a + n then v else m x)"

record memory_area =
  a_base :: nat
  a_size :: nat

record frame_usage =
  fu_used :: nat
  fu_total :: nat

definition usage_free :: "frame_usage \<Rightarrow> nat" where
  "usage_free u = usz_sub (fu_total u) (fu_used u)"

section \<open>The bump allocator\<close>

record bump =
  orig_areas :: "memory_area list \<times> nat"
  cur_areas :: "memory_area list \<times> nat"

fun skip_areas :: "memory_area list \<Rightarrow> nat \<Rightarrow> memory_area list \<times> nat" where
  "skip_areas [] offset = ([], offset)"
| "skip_areas (a # as) offset =
     (if a_size a \<le> offset then skip_areas as (offset - a_size a) else (a # as, offset))"

definition bump_new :: "memory_area list \<Rightarrow> nat \<Rightarrow> bump" where
  "bump_new areas offset = (let x = skip_areas areas offset in \<lparr>orig_areas = x, cur_areas = x\<rparr>)"

definition bump_areas :: "bump \<Rightarrow> memory_area list" where
  "bump_areas b = fst (orig_areas b)"

definition free_areas :: "bump \<Rightarrow> memory_area list \<times> nat" where
  "free_areas b = cur_areas b"

definition abs_offset :: "bump \<Rightarrow> nat" where
  "abs_offset b = (case cur_areas b of ([], off) \<Rightarrow> 0 | (a # as, off) \<Rightarrow> usz (a_base a + off))"

definition sum_sizes :: "memory_area list \<Rightarrow> nat" where
  "sum_sizes as = foldl (\<lambda>s a. usz (s + a_size a)) 0 as"

definition bump_usage :: "bump \<Rightarrow> frame_usage" where
  "bump_usage b =
     (let tot = usz_sub (sum_sizes (fst (orig_areas b))) (snd (orig_areas b));
          free = usz_sub (sum_sizes (fst (cur_areas b))) (snd (cur_areas b))
      in \<lparr>fu_used = usz_sub tot free div FRAME_SIZE, fu_total = tot div FRAME_SIZE\<rparr>)"

definition bump_offset :: "bump \<Rightarrow> nat" where
  "bump_offset b = usz (usz_sub (fu_total (bump_usage b)) (usage_free (bump_usage b)) * FRAME_SIZE)"

fun bump_take :: "memory_area list \<Rightarrow> nat \<Rightarrow> nat \<Rightarrow> (nat \<times> memory_area list \<times> nat) option \<times> (memory_area list \<times> nat)" where
  "bump_take [] off req = (None, ([], off))"
| "bump_take (a # as) off req =
     (if usz_sub (a_size a) off < req then bump_take as 0 req
      else (Some (usz (a_base a + off), a # as, usz (off + req)), (a # as, usz (off + req))))"

definition bump_allocate :: "bump \<Rightarrow> pmem \<Rightarrow> nat \<Rightarrow> nat option \<times> bump \<times> pmem" where
  "bump_allocate b m count =
     (let req = usz (count * FRAME_SIZE);
          (r, cur) = bump_take (fst (cur_areas b)) (snd (cur_areas b)) req;
          b = b\<lparr>cur_areas := cur\<rparr>
      in case r of
           None \<Rightarrow> (None, b, m)
         | Some (block, _) \<Rightarrow> (Some block, b, write_bytes m block 0 req))"

section \<open>The buddy allocator\<close>

record buddy_entry =
  be_base :: nat
  be_size :: nat
  be_skip :: nat
  be_used :: nat

definition BUDDY_ENTRIES :: nat where "BUDDY_ENTRIES = 128"

definition entry_empty :: buddy_entry where
  "entry_empty = \<lparr>be_base = 0, be_size = 0, be_skip = 0, be_used = 0\<rparr>"

definition pages :: "buddy_entry \<Rightarrow> nat" where
  "pages e = be_size e div 2 ^ FRAME_SHIFT"

definition usage_pages :: "buddy_entry \<Rightarrow> nat" where
  "usage_pages e = usz (pages e + (FRAME_SIZE - 1)) div 2 ^ FRAME_SHIFT"

definition usage_addr :: "buddy_entry \<Rightarrow> nat \<Rightarrow> nat option" where
  "usage_addr e page = (if page < pages e then Some (usz (be_base e + page)) else None)"

definition get_usage :: "buddy_entry \<Rightarrow> pmem \<Rightarrow> nat \<Rightarrow> u8 option" where
  "get_usage e m page = map_option m (usage_addr e page)"

definition set_usage :: "buddy_entry \<Rightarrow> pmem \<Rightarrow> nat \<Rightarrow> u8 \<Rightarrow> pmem option" where
  "set_usage e m page u = map_option (\<lambda>a. m(a := u)) (usage_addr e page)"

record buddy =
  table_virt :: nat
  table :: "buddy_entry list"

text \<open>Adding an area to the table: it joins the first entry it touches or takes the first free one.\<close>

fun add_area :: "buddy_entry list \<Rightarrow> memory_area \<Rightarrow> buddy_entry list" where
  "add_area [] area = []"
| "add_area (e # es) area =
     (if usz (a_base area + a_size area) = be_base e
      then e\<lparr>be_base := a_base area, be_size := usz (be_size e + a_size area)\<rparr> # es
      else if a_base area = usz (be_base e + be_size e)
      then e\<lparr>be_size := usz (be_size e + a_size area)\<rparr> # es
      else if be_size e = 0 then e\<lparr>be_base := a_base area, be_size := a_size area\<rparr> # es
      else e # add_area es area)"

text \<open>The areas that are left after the first \<open>offset\<close> bytes.\<close>

fun add_areas :: "buddy_entry list \<Rightarrow> nat \<Rightarrow> memory_area list \<Rightarrow> buddy_entry list" where
  "add_areas t offset [] = t"
| "add_areas t offset (a # as) =
     (if offset \<ge> a_size a then add_areas t (offset - a_size a) as
      else if offset > 0
      then add_areas (add_area t \<lparr>a_base = usz (a_base a + offset), a_size = a_size a - offset\<rparr>) 0 as
      else add_areas (add_area t a) 0 as)"

fun mark_usage :: "buddy_entry \<Rightarrow> pmem \<Rightarrow> nat list \<Rightarrow> pmem option" where
  "mark_usage e m [] = Some m"
| "mark_usage e m (p # ps) = (case set_usage e m p 1 of None \<Rightarrow> None | Some m \<Rightarrow> mark_usage e m ps)"

definition init_entry :: "buddy_entry \<Rightarrow> pmem \<Rightarrow> (buddy_entry \<times> pmem) option" where
  "init_entry e m =
     (let up = usage_pages e; e' = e\<lparr>be_skip := up, be_used := up\<rparr>
      in if pages e > up then
           (case usage_addr e 0 of
              None \<Rightarrow> None
            | Some start \<Rightarrow>
                let m = foldl (\<lambda>m p. write_bytes m (usz (start + usz (p * 2 ^ FRAME_SHIFT))) 0 FRAME_SIZE) m [0..<up]
                in map_option (Pair e') (mark_usage e m [0..<up]))
         else Some (e', m))"

fun init_entries :: "buddy_entry list \<Rightarrow> pmem \<Rightarrow> (buddy_entry list \<times> pmem) option" where
  "init_entries [] m = Some ([], m)"
| "init_entries (e # es) m =
     (case init_entry e m of
        None \<Rightarrow> None
      | Some (e, m) \<Rightarrow> map_option (\<lambda>(es, m). (e # es, m)) (init_entries es m))"

text \<open>\<open>virt\<close> is the direct mapping of physical addresses.\<close>

definition buddy_new :: "(nat \<Rightarrow> nat) \<Rightarrow> bump \<Rightarrow> pmem \<Rightarrow> (buddy \<times> pmem) option" where
  "buddy_new virt b m =
     (case bump_allocate b m 1 of
        (None, _, _) \<Rightarrow> None
      | (Some table_phys, b, m) \<Rightarrow>
          let t = add_areas (replicate BUDDY_ENTRIES entry_empty) (bump_offset b) (bump_areas b)
          in map_option (\<lambda>(t, m). (\<lparr>table_virt = virt table_phys, table = t\<rparr>, m)) (init_entries t m))"

text \<open>The search for a run of free pages: its first page and its length.\<close>

fun find_run :: "buddy_entry \<Rightarrow> pmem \<Rightarrow> nat \<Rightarrow> nat list \<Rightarrow> nat \<Rightarrow> nat \<Rightarrow> (nat \<times> nat) option" where
  "find_run e m count [] free_page free_count = Some (free_page, free_count)"
| "find_run e m count (page # ps) free_page free_count =
     (case get_usage e m page of
        None \<Rightarrow> None
      | Some u \<Rightarrow>
          if u = 0 then
            if free_count + 1 = count then Some (free_page, free_count + 1)
            else find_run e m count ps free_page (free_count + 1)
          else find_run e m count ps (page + 1) 0)"

definition page_phys :: "buddy_entry \<Rightarrow> nat \<Rightarrow> nat" where
  "page_phys e page = usz (be_base e + usz (page * 2 ^ FRAME_SHIFT))"

text \<open>Taking the pages of a run; the flag says whether every page had a usage byte.\<close>

fun take_pages :: "buddy_entry \<Rightarrow> pmem \<Rightarrow> nat list \<Rightarrow> bool \<times> pmem" where
  "take_pages e m [] = (True, m)"
| "take_pages e m (page # ps) =
     (case get_usage e m page of
        None \<Rightarrow> (False, m)
      | Some u \<Rightarrow>
          let m = (case set_usage e m page (u + 1) of None \<Rightarrow> m | Some m \<Rightarrow> m)
          in take_pages e (write_bytes m (page_phys e page) 0 FRAME_SIZE) ps)"

text \<open>The entries from position \<open>i\<close> on; the table and memory stay as they are where the search
  goes on.\<close>

fun allocate_from :: "nat \<Rightarrow> buddy_entry list \<Rightarrow> buddy \<Rightarrow> pmem \<Rightarrow> nat \<Rightarrow> nat option \<times> buddy \<times> pmem" where
  "allocate_from i [] b m count = (None, b, m)"
| "allocate_from i (e # es) b m count =
     (case find_run e m count [be_skip e..<pages e] (be_skip e) 0 of
        None \<Rightarrow> (None, b, m)
      | Some (free_page, free_count) \<Rightarrow>
          if free_count = count then
            (case take_pages e m [free_page..<free_page + free_count] of
               (False, m) \<Rightarrow> (None, b, m)
             | (True, m) \<Rightarrow>
                 let e = (if be_skip e = free_page then e\<lparr>be_skip := free_page + free_count\<rparr> else e);
                     e = e\<lparr>be_used := usz (be_used e + free_count)\<rparr>
                 in (Some (page_phys e free_page), b\<lparr>table := (table b)[i := e]\<rparr>, m))
          else allocate_from (i + 1) es b m count)"

definition buddy_allocate :: "buddy \<Rightarrow> pmem \<Rightarrow> nat \<Rightarrow> nat option \<times> buddy \<times> pmem" where
  "buddy_allocate b m count =
     (if table_virt b = 0 then (None, b, m) else allocate_from 0 (table b) b m count)"

text \<open>\<open>None\<close> is a panic.\<close>

fun free_pages :: "buddy_entry \<Rightarrow> pmem \<Rightarrow> nat list \<Rightarrow> (buddy_entry \<times> pmem) option" where
  "free_pages e m [] = Some (e, m)"
| "free_pages e m (page # ps) =
     (case get_usage e m page of
        None \<Rightarrow> None
      | Some u \<Rightarrow>
          if u > 0 then
            let e = (if u - 1 = 0
                     then e\<lparr>be_skip := (if page < be_skip e then page else be_skip e), be_used := usz_sub (be_used e) 1\<rparr>
                     else e)
            in (case set_usage e m page (u - 1) of None \<Rightarrow> None | Some m \<Rightarrow> free_pages e m ps)
          else None)"

fun free_from :: "nat \<Rightarrow> buddy_entry list \<Rightarrow> buddy \<Rightarrow> pmem \<Rightarrow> nat \<Rightarrow> nat \<Rightarrow> (buddy \<times> pmem) option" where
  "free_from i [] b m addr count = Some (b, m)"
| "free_from i (e # es) b m addr count =
     (if addr \<ge> be_base e \<and> usz (addr + usz (count * FRAME_SIZE)) \<le> usz (be_base e + be_size e) then
        let start_page = usz_sub addr (be_base e) div 2 ^ FRAME_SHIFT
        in map_option (\<lambda>(e, m). (b\<lparr>table := (table b)[i := e]\<rparr>, m))
             (free_pages e m [start_page..<start_page + count])
      else free_from (i + 1) es b m addr count)"

definition buddy_free :: "buddy \<Rightarrow> pmem \<Rightarrow> nat \<Rightarrow> nat \<Rightarrow> (buddy \<times> pmem) option" where
  "buddy_free b m addr count =
     (if table_virt b = 0 then Some (b, m) else free_from 0 (table b) b m addr count)"

definition buddy_usage :: "buddy \<Rightarrow> frame_usage" where
  "buddy_usage b =
     \<lparr>fu_used = foldl (\<lambda>s e. usz (s + be_used e)) 0 (table b),
      fu_total = foldl (\<lambda>s e. usz (s + be_size e div 2 ^ FRAME_SHIFT)) 0 (table b)\<rparr>"

text \<open>\<open>BootInfoFrameAllocator\<close>: one frame, aligned down to its size.\<close>

definition allocate_frame :: "buddy option \<Rightarrow> pmem \<Rightarrow> nat option \<times> buddy option \<times> pmem" where
  "allocate_frame ab m =
     (case ab of
        None \<Rightarrow> (None, None, m)
      | Some b \<Rightarrow>
          (case buddy_allocate b m 1 of
             (None, b, m) \<Rightarrow> (None, Some b, m)
           | (Some a, b, m) \<Rightarrow> (Some (a div FRAME_SIZE * FRAME_SIZE), Some b, m)))"

text \<open>The boot memory map: usable regions as areas, at most 32 of them.\<close>

record boot_region =
  r_usable :: bool
  r_start :: nat
  r_end :: nat

definition usable_areas :: "boot_region list \<Rightarrow> memory_area list" where
  "usable_areas rs =
     map (\<lambda>r. \<lparr>a_base = r_start r, a_size = usz_sub (r_end r) (r_start r)\<rparr>) (take 32 (filter r_usable rs))"

definition rmm_init_from_bootinfo :: "(nat \<Rightarrow> nat) \<Rightarrow> boot_region list \<Rightarrow> pmem \<Rightarrow> (buddy \<times> pmem) option" where
  "rmm_init_from_bootinfo virt rs m =
     (let areas = usable_areas rs
      in if areas = [] then None else buddy_new virt (bump_new areas 0) m)"

section \<open>Geometry of an area\<close>

lemma usz_small [simp]: "n < 2 ^ 64 \<Longrightarrow> usz n = n"
  by (simp add: usz_def)

definition fits :: "buddy_entry \<Rightarrow> bool" where
  "fits e \<longleftrightarrow> be_base e + be_size e + FRAME_SIZE < 2 ^ 64"

lemma frame_pow [simp]: "2 ^ FRAME_SHIFT = FRAME_SIZE"
  by (simp add: FRAME_SHIFT_def FRAME_SIZE_def)

lemma frame_pos [simp]: "0 < FRAME_SIZE"
  by (simp add: FRAME_SIZE_def)

lemma page_end: "p < pages e \<Longrightarrow> p * FRAME_SIZE + FRAME_SIZE \<le> be_size e"
proof -
  assume "p < pages e"
  then have "Suc p * FRAME_SIZE \<le> be_size e div FRAME_SIZE * FRAME_SIZE"
    by (intro mult_le_mono1) (simp add: pages_def)
  also have "\<dots> \<le> be_size e" by simp
  finally show ?thesis by simp
qed

lemma pages_le_size: "pages e \<le> be_size e"
  by (simp add: pages_def)

lemma usage_addr_eq: "fits e \<Longrightarrow> usage_addr e p = (if p < pages e then Some (be_base e + p) else None)"
  using pages_le_size [of e] by (auto simp: usage_addr_def fits_def)

lemma page_phys_eq: "fits e \<Longrightarrow> p < pages e \<Longrightarrow> page_phys e p = be_base e + p * FRAME_SIZE"
  using page_end [of p e] by (simp add: page_phys_def fits_def)

lemma usage_pages_eq: "fits e \<Longrightarrow> usage_pages e = (pages e + (FRAME_SIZE - 1)) div FRAME_SIZE"
  using pages_le_size [of e] by (simp add: usage_pages_def fits_def)

lemma usage_map_end: "fits e \<Longrightarrow> pages e \<le> usage_pages e * FRAME_SIZE"
proof -
  assume f: "fits e"
  have "pages e + (FRAME_SIZE - 1) < (pages e + (FRAME_SIZE - 1)) div FRAME_SIZE * FRAME_SIZE + FRAME_SIZE"
    by (metis add.commute div_mult_mod_eq frame_pos mod_less_divisor nat_add_left_cancel_less)
  then show ?thesis by (simp add: usage_pages_eq [OF f])
qed

text \<open>The bytes of a page, and the usage byte of a page.\<close>

definition frame_bytes :: "buddy_entry \<Rightarrow> nat \<Rightarrow> nat set" where
  "frame_bytes e p = {be_base e + p * FRAME_SIZE..<be_base e + p * FRAME_SIZE + FRAME_SIZE}"

definition us :: "buddy_entry \<Rightarrow> pmem \<Rightarrow> nat \<Rightarrow> u8" where
  "us e m p = m (be_base e + p)"

lemma get_usage_eq: "fits e \<Longrightarrow> get_usage e m p = (if p < pages e then Some (us e m p) else None)"
  by (simp add: get_usage_def usage_addr_eq us_def)

lemma set_usage_eq: "fits e \<Longrightarrow> set_usage e m p u = (if p < pages e then Some (m(be_base e + p := u)) else None)"
  by (simp add: set_usage_def usage_addr_eq)

lemma usage_not_in_frame:
  assumes "fits e" "q < pages e" "usage_pages e \<le> p"
  shows "be_base e + q \<notin> frame_bytes e p"
proof -
  have "q < usage_pages e * FRAME_SIZE" using usage_map_end [OF assms(1)] assms(2) by simp
  also have "\<dots> \<le> p * FRAME_SIZE" using assms(3) by simp
  finally show ?thesis by (simp add: frame_bytes_def)
qed

lemma take_pages_spec:
  assumes "fits e" "distinct ps" "\<forall>p \<in> set ps. usage_pages e \<le> p \<and> p < pages e"
  shows "\<exists>m'. take_pages e m ps = (True, m') \<and>
           (\<forall>q < pages e. us e m' q = (if q \<in> set ps then us e m q + 1 else us e m q)) \<and>
           (\<forall>p \<in> set ps. \<forall>x \<in> frame_bytes e p. m' x = 0) \<and>
           (\<forall>x. x \<notin> {be_base e..<be_base e + pages e} \<and> (\<forall>p \<in> set ps. x \<notin> frame_bytes e p) \<longrightarrow> m' x = m x) \<and>
           (\<forall>x. m x = 0 \<and> x \<notin> {be_base e..<be_base e + pages e} \<longrightarrow> m' x = 0)"
  using assms
proof (induction ps arbitrary: m)
  case (Cons p ps)
  have p: "usage_pages e \<le> p" "p < pages e" "p \<notin> set ps" using Cons.prems by auto
  let ?m = "write_bytes (m(be_base e + p := us e m p + 1)) (be_base e + p * FRAME_SIZE) 0 FRAME_SIZE"
  have step: "take_pages e m (p # ps) = take_pages e ?m ps"
    using p Cons.prems(1) by (simp add: get_usage_eq set_usage_eq page_phys_eq)
  have m: "?m x = (if x \<in> frame_bytes e p then 0 else if x = be_base e + p then us e m p + 1 else m x)" for x
    by (simp add: write_bytes_def frame_bytes_def)
  have u: "us e ?m q = (if q = p then us e m q + 1 else us e m q)" if "q < pages e" for q
    using usage_not_in_frame [OF Cons.prems(1) that p(1)] by (auto simp: us_def write_bytes_def frame_bytes_def)
  from Cons.IH [of ?m] Cons.prems obtain m' where
    m': "take_pages e ?m ps = (True, m')"
      "\<forall>q < pages e. us e m' q = (if q \<in> set ps then us e ?m q + 1 else us e ?m q)"
      "\<forall>p \<in> set ps. \<forall>x \<in> frame_bytes e p. m' x = 0"
      "\<forall>x. x \<notin> {be_base e..<be_base e + pages e} \<and> (\<forall>p \<in> set ps. x \<notin> frame_bytes e p) \<longrightarrow> m' x = ?m x"
      "\<forall>x. ?m x = 0 \<and> x \<notin> {be_base e..<be_base e + pages e} \<longrightarrow> m' x = 0"
    by (auto simp del: fun_upd_apply)
  have out: "x \<notin> {be_base e..<be_base e + pages e}" if "x \<in> frame_bytes e p" for x
    using usage_not_in_frame [OF Cons.prems(1) _ p(1), of "x - be_base e"] that by (auto simp: less_diff_conv2)
  show ?case
  proof (intro exI [of _ m'] conjI)
    show "take_pages e m (p # ps) = (True, m')" using step m'(1) by simp
    show "\<forall>q < pages e. us e m' q = (if q \<in> set (p # ps) then us e m q + 1 else us e m q)"
      using m'(2) u p(3) by auto
    show "\<forall>p \<in> set (p # ps). \<forall>x \<in> frame_bytes e p. m' x = 0"
      using m'(3,5) out m by auto
    show "\<forall>x. x \<notin> {be_base e..<be_base e + pages e} \<and> (\<forall>p \<in> set (p # ps). x \<notin> frame_bytes e p) \<longrightarrow> m' x = m x"
      using m'(4) m p(2) by auto
    show "\<forall>x. m x = 0 \<and> x \<notin> {be_base e..<be_base e + pages e} \<longrightarrow> m' x = 0"
      using m'(5) m p(2) by auto
  qed
qed (simp add: us_def)

section \<open>The search for a run\<close>

lemma find_run_spec:
  assumes "fits e" "p \<le> pages e" "fp + fc = p" "\<forall>q \<in> {fp..<p}. us e m q = 0" "fc < count"
  shows "\<exists>fp' fc'. find_run e m count [p..<pages e] fp fc = Some (fp', fc') \<and> fp \<le> fp' \<and> fp' + fc' \<le> pages e \<and>
           fc' \<le> count \<and> (\<forall>q \<in> {fp'..<fp' + fc'}. us e m q = 0) \<and>
           (fc' < count \<longrightarrow> (\<forall>a. fp \<le> a \<and> a + count \<le> pages e \<longrightarrow> (\<exists>q \<in> {a..<a + count}. us e m q \<noteq> 0)))"
  using assms(2-)
proof (induction "pages e - p" arbitrary: p fp fc)
  case 0
  then have p: "p = pages e" by simp
  have "\<not> (fp \<le> a \<and> a + count \<le> pages e)" for a using 0 p by auto
  with 0 p show ?case by auto
next
  case (Suc n)
  then have p: "p < pages e" by simp
  then have step: "[p..<pages e] = p # [Suc p..<pages e]" by (rule upt_conv_Cons)
  have n: "n = pages e - Suc p" using Suc.hyps(2) by simp
  have g: "get_usage e m p = Some (us e m p)" using p assms(1) by (simp add: get_usage_eq)
  show ?case
  proof (cases "us e m p = 0")
    case False
    from Suc.hyps(1) [OF n, of "Suc p" 0] Suc.prems p obtain fp' fc' where
      r: "find_run e m count [Suc p..<pages e] (Suc p) 0 = Some (fp', fc')" "Suc p \<le> fp'" "fp' + fc' \<le> pages e"
        "fc' \<le> count" "\<forall>q \<in> {fp'..<fp' + fc'}. us e m q = 0"
        "fc' < count \<longrightarrow> (\<forall>a. Suc p \<le> a \<and> a + count \<le> pages e \<longrightarrow> (\<exists>q \<in> {a..<a + count}. us e m q \<noteq> 0))"
      by auto
    have "\<exists>q \<in> {a..<a + count}. us e m q \<noteq> 0" if "fp \<le> a" "a \<le> p" "a + count \<le> pages e" for a
    proof -
      have "p < a + count" using that Suc.prems(2,4) by simp
      with that False show ?thesis by (intro bexI [of _ p]) auto
    qed
    then have "fc' < count \<longrightarrow> (\<forall>a. fp \<le> a \<and> a + count \<le> pages e \<longrightarrow> (\<exists>q \<in> {a..<a + count}. us e m q \<noteq> 0))"
      using r(6) by (meson not_less_eq_eq)
    with r Suc.prems(2) g False show ?thesis unfolding step by auto
  next
    case True
    show ?thesis
    proof (cases "fc + 1 = count")
      case full: True
      have "find_run e m count [p..<pages e] fp fc = Some (fp, count)" unfolding step using g True full by simp
      moreover have "\<forall>q \<in> {fp..<fp + count}. us e m q = 0"
        using Suc.prems(2,3) True full by (auto simp: less_Suc_eq)
      ultimately show ?thesis using Suc.prems(2) p full by auto
    next
      case more: False
      have "\<forall>q \<in> {fp..<Suc p}. us e m q = 0" using Suc.prems(3) True by (auto simp: less_Suc_eq)
      with Suc.hyps(1) [OF n, of fp "fc + 1"] Suc.prems p more
      show ?thesis unfolding step using g True by auto
    qed
  qed
qed

section \<open>The invariant\<close>

definition ready :: "buddy_entry \<Rightarrow> bool" where
  "ready e \<longleftrightarrow> usage_pages e < pages e"

definition entry_inv :: "buddy_entry \<Rightarrow> pmem \<Rightarrow> bool" where
  "entry_inv e m \<longleftrightarrow> fits e \<and>
     (if ready e
      then be_skip e \<le> pages e \<and> (\<forall>q < be_skip e. us e m q \<noteq> 0) \<and> (\<forall>q < usage_pages e. us e m q \<noteq> 0) \<and>
           (\<forall>q < pages e. us e m q \<in> {0, 1}) \<and> be_used e = card {q. q < pages e \<and> us e m q \<noteq> 0}
      else pages e \<le> be_skip e)"

definition area :: "buddy_entry \<Rightarrow> nat set" where
  "area e = {be_base e..<be_base e + be_size e}"

definition buddy_inv :: "buddy \<Rightarrow> pmem \<Rightarrow> bool" where
  "buddy_inv b m \<longleftrightarrow> table_virt b \<noteq> 0 \<and> (\<forall>e \<in> set (table b). entry_inv e m) \<and>
     (\<forall>i < length (table b). \<forall>j < length (table b). i \<noteq> j \<longrightarrow> area (table b ! i) \<inter> area (table b ! j) = {})"

text \<open>The frames a client holds.\<close>

definition frame :: "buddy_entry \<Rightarrow> nat \<Rightarrow> nat" where
  "frame e q = be_base e + q * FRAME_SIZE"

definition held :: "buddy_entry \<Rightarrow> pmem \<Rightarrow> nat set" where
  "held e m = frame e ` {q. ready e \<and> usage_pages e \<le> q \<and> q < pages e \<and> us e m q \<noteq> 0}"

definition allocated :: "buddy \<Rightarrow> pmem \<Rightarrow> nat set" where
  "allocated b m = (\<Union>e \<in> set (table b). held e m)"

definition no_run :: "buddy_entry \<Rightarrow> pmem \<Rightarrow> nat \<Rightarrow> bool" where
  "no_run e m count \<longleftrightarrow>
     (ready e \<longrightarrow> (\<forall>a. a + count \<le> pages e \<longrightarrow> (\<exists>q \<in> {a..<a + count}. us e m q \<noteq> 0)))"

text \<open>The new entry after a run of \<open>count\<close> pages from \<open>p\<close> on has been taken.\<close>

definition after_take :: "buddy_entry \<Rightarrow> nat \<Rightarrow> nat \<Rightarrow> buddy_entry" where
  "after_take e p count =
     e\<lparr>be_skip := (if be_skip e = p then p + count else be_skip e), be_used := usz (be_used e + count)\<rparr>"

lemma search_entry:
  assumes "entry_inv e m" "0 < count"
  shows "(\<exists>fp fc. find_run e m count [be_skip e..<pages e] (be_skip e) 0 = Some (fp, fc) \<and> fc \<noteq> count \<and> no_run e m count) \<or>
         (\<exists>p. find_run e m count [be_skip e..<pages e] (be_skip e) 0 = Some (p, count) \<and> ready e \<and> be_skip e \<le> p \<and>
            p + count \<le> pages e \<and> (\<forall>q \<in> {p..<p + count}. us e m q = 0))"
proof (cases "ready e")
  case False
  then have "[be_skip e..<pages e] = []" using assms(1) by (simp add: entry_inv_def)
  then have "find_run e m count [be_skip e..<pages e] (be_skip e) 0 = Some (be_skip e, 0)"
    by (simp only: find_run.simps)
  with False assms(2) show ?thesis by (simp add: no_run_def)
next
  case True
  then have inv: "fits e" "be_skip e \<le> pages e" "\<forall>q < be_skip e. us e m q \<noteq> 0" using assms(1) by (auto simp: entry_inv_def)
  from find_run_spec [OF inv(1,2), of "be_skip e" 0 m count] assms(2) obtain fp fc where
    r: "find_run e m count [be_skip e..<pages e] (be_skip e) 0 = Some (fp, fc)" "be_skip e \<le> fp" "fp + fc \<le> pages e"
      "fc \<le> count" "\<forall>q \<in> {fp..<fp + fc}. us e m q = 0"
      "fc < count \<longrightarrow> (\<forall>a. be_skip e \<le> a \<and> a + count \<le> pages e \<longrightarrow> (\<exists>q \<in> {a..<a + count}. us e m q \<noteq> 0))"
    by auto
  have "\<exists>q \<in> {a..<a + count}. us e m q \<noteq> 0" if "a < be_skip e" for a
    using that inv(3) assms(2) by (intro bexI [of _ a]) auto
  then have "fc < count \<longrightarrow> no_run e m count" using r(6) by (auto simp: no_run_def) (meson leI)
  with r True show ?thesis by (cases "fc = count") auto
qed

lemma after_take_simps [simp]:
  "be_base (after_take e p c) = be_base e" "be_size (after_take e p c) = be_size e"
  "pages (after_take e p c) = pages e" "usage_pages (after_take e p c) = usage_pages e"
  "ready (after_take e p c) = ready e" "fits (after_take e p c) = fits e" "us (after_take e p c) = us e"
  "area (after_take e p c) = area e" "frame_bytes (after_take e p c) = frame_bytes e"
  "frame (after_take e p c) = frame e"
  by (simp_all add: after_take_def frame_def pages_def usage_pages_def ready_def fits_def us_def area_def frame_bytes_def fun_eq_iff)

text \<open>Where an allocation succeeds: entry \<open>e\<close> with the run of free pages from \<open>p\<close> on.\<close>

definition takes :: "buddy_entry \<Rightarrow> pmem \<Rightarrow> nat \<Rightarrow> nat \<Rightarrow> pmem \<Rightarrow> bool" where
  "takes e m p count m' \<longleftrightarrow> ready e \<and> be_skip e \<le> p \<and> usage_pages e \<le> p \<and> p + count \<le> pages e \<and>
     (\<forall>q \<in> {p..<p + count}. us e m q = 0) \<and> take_pages e m [p..<p + count] = (True, m')"

lemma allocate_from_spec:
  assumes "\<forall>e \<in> set es. entry_inv e m" "0 < count"
  shows "(allocate_from i es b m count = (None, b, m) \<and> (\<forall>e \<in> set es. no_run e m count)) \<or>
         (\<exists>k < length es. \<exists>p m'. takes (es ! k) m p count m' \<and>
            allocate_from i es b m count =
              (Some (be_base (es ! k) + p * FRAME_SIZE), b\<lparr>table := (table b)[i + k := after_take (es ! k) p count]\<rparr>, m'))"
  using assms(1)
proof (induction es arbitrary: i)
  case (Cons e es)
  then have inv: "entry_inv e m" by simp
  then have f: "fits e" by (simp add: entry_inv_def)
  from search_entry [OF inv assms(2)] show ?case
  proof (elim disjE exE conjE)
    fix fp fc
    assume r: "find_run e m count [be_skip e..<pages e] (be_skip e) 0 = Some (fp, fc)" "fc \<noteq> count" "no_run e m count"
    then have step: "allocate_from i (e # es) b m count = allocate_from (i + 1) es b m count" by simp
    from Cons.IH [of "i + 1"] Cons.prems consider
      "allocate_from (i + 1) es b m count = (None, b, m)" "\<forall>e \<in> set es. no_run e m count"
      | k p m' where "k < length es" "takes (es ! k) m p count m'" "allocate_from (i + 1) es b m count =
          (Some (be_base (es ! k) + p * FRAME_SIZE), b\<lparr>table := (table b)[i + 1 + k := after_take (es ! k) p count]\<rparr>, m')"
      by auto
    then show ?thesis
    proof cases
      case 1
      with r(3) step show ?thesis by (simp del: allocate_from.simps)
    next
      case 2
      with step show ?thesis
        by (intro disjI2 exI [of _ "Suc k"] conjI exI [of _ p] exI [of _ m']) (simp_all del: allocate_from.simps)
    qed
  next
    fix p
    assume r: "find_run e m count [be_skip e..<pages e] (be_skip e) 0 = Some (p, count)" "ready e" "be_skip e \<le> p"
      "p + count \<le> pages e" "\<forall>q \<in> {p..<p + count}. us e m q = 0"
    have "us e m p = 0" using r(5) assms(2) by simp
    then have up: "usage_pages e \<le> p" using inv r(2) by (auto simp: entry_inv_def simp flip: not_less)
    obtain m' where t: "take_pages e m [p..<p + count] = (True, m')"
      using take_pages_spec [OF f, of "[p..<p + count]" m] up r(4) by auto
    have "page_phys e p = be_base e + p * FRAME_SIZE" using page_phys_eq [OF f, of p] r(4) assms(2) by simp
    moreover have "page_phys (e\<lparr>be_skip := s, be_used := u\<rparr>) p = page_phys e p" for s u by (simp add: page_phys_def)
    ultimately have "allocate_from i (e # es) b m count =
        (Some (be_base e + p * FRAME_SIZE), b\<lparr>table := (table b)[i := after_take e p count]\<rparr>, m')"
      using r(1) t by (auto simp: after_take_def page_phys_def)
    then show ?thesis
      using r t up by (intro disjI2 exI [of _ 0]) (auto simp: takes_def simp del: allocate_from.simps)
  qed
qed simp

text \<open>What depends on the usage bytes of an entry only.\<close>

lemma usage_cong:
  assumes "\<forall>q < pages e. us e m' q = us e m q"
  shows "entry_inv e m' = entry_inv e m" "held e m' = held e m"
proof -
  have "{q. q < pages e \<and> us e m' q \<noteq> 0} = {q. q < pages e \<and> us e m q \<noteq> 0}" using assms by auto
  moreover have "ready e \<Longrightarrow> q < usage_pages e \<Longrightarrow> us e m' q = us e m q" for q using assms by (simp add: ready_def)
  moreover have "be_skip e \<le> pages e \<Longrightarrow> q < be_skip e \<Longrightarrow> us e m' q = us e m q" for q using assms by simp
  ultimately show "entry_inv e m' = entry_inv e m" using assms by (auto simp: entry_inv_def)
  show "held e m' = held e m" using assms by (auto simp: held_def)
qed

lemma frame_in_area: "q < pages e \<Longrightarrow> frame_bytes e q \<subseteq> area e"
  using page_end [of q e] by (auto simp: frame_bytes_def area_def)

lemma frame_mem: "q < pages e \<Longrightarrow> frame e q \<in> area e"
  using frame_in_area [of q e] frame_pos by (auto simp: frame_bytes_def frame_def)

lemma held_in_area: "a \<in> held e m \<Longrightarrow> a \<in> area e"
  using frame_mem by (auto simp: held_def)

lemma frame_inj: "frame e q = frame e q' \<longleftrightarrow> q = q'"
  by (simp add: frame_def FRAME_SIZE_def)

lemma frame_bytes_disjoint:
  assumes "q \<noteq> q'" shows "frame_bytes e q \<inter> frame_bytes e q' = {}"
proof -
  have "x * FRAME_SIZE + FRAME_SIZE \<le> y * FRAME_SIZE" if "x < y" for x y
    using mult_le_mono1 [of "Suc x" y FRAME_SIZE] that by simp
  from this [of q q'] this [of q' q] assms show ?thesis by (auto simp: frame_bytes_def neq_iff)
qed

lemma out_of_map:
  assumes "fits e" "usage_pages e \<le> p" "x \<in> frame_bytes e p"
  shows "x \<notin> {be_base e..<be_base e + pages e}"
  using usage_not_in_frame [OF assms(1) _ assms(2), of "x - be_base e"] assms(3) by (auto simp: less_diff_conv2)

text \<open>Taking a run keeps the entry and leaves disjoint entries alone.\<close>

lemma takes_entry:
  assumes inv: "entry_inv e m" and t: "takes e m p count m'" and c: "0 < count"
  shows "entry_inv (after_take e p count) m'"
    "held (after_take e p count) m' = held e m \<union> frame e ` {p..<p + count}"
    "held e m \<inter> frame e ` {p..<p + count} = {}"
    "\<forall>q \<in> {p..<p + count}. \<forall>x \<in> frame_bytes e q. m' x = 0"
    "\<forall>x. x \<notin> area e \<longrightarrow> m' x = m x"
    "\<forall>f \<in> held e m. \<forall>x \<in> {f..<f + FRAME_SIZE}. m' x = m x"
proof -
  from inv t have r: "ready e" "fits e" "be_skip e \<le> pages e" "\<forall>q < be_skip e. us e m q \<noteq> 0"
    "\<forall>q < usage_pages e. us e m q \<noteq> 0" "\<forall>q < pages e. us e m q \<in> {0, 1}"
    "be_used e = card {q. q < pages e \<and> us e m q \<noteq> 0}" by (auto simp: entry_inv_def takes_def)
  from t have p: "be_skip e \<le> p" "usage_pages e \<le> p" "p + count \<le> pages e" "\<forall>q \<in> {p..<p + count}. us e m q = 0"
    "take_pages e m [p..<p + count] = (True, m')" by (auto simp: takes_def)
  have S: "\<forall>q < pages e. us e m' q = (if q \<in> {p..<p + count} then us e m q + 1 else us e m q)"
    "\<forall>q \<in> {p..<p + count}. \<forall>x \<in> frame_bytes e q. m' x = 0"
    "\<forall>x. x \<notin> {be_base e..<be_base e + pages e} \<and> (\<forall>q \<in> {p..<p + count}. x \<notin> frame_bytes e q) \<longrightarrow> m' x = m x"
    using take_pages_spec [OF r(2), of "[p..<p + count]" m] p(2,3,5) by auto
  show "\<forall>q \<in> {p..<p + count}. \<forall>x \<in> frame_bytes e q. m' x = 0" using S(2) .
  have u: "us e m' q = (if q \<in> {p..<p + count} then 1 else us e m q)" if "q < pages e" for q
    using S(1) that p(4) by auto
  have used: "{q. q < pages e \<and> us e m' q \<noteq> 0} = {q. q < pages e \<and> us e m q \<noteq> 0} \<union> {p..<p + count}"
    using u p(3) by (auto split: if_splits)
  have "card ({q. q < pages e \<and> us e m q \<noteq> 0} \<union> {p..<p + count}) = be_used e + count"
    using p(4) r(7) by (subst card_Un_disjoint) auto
  moreover have "card {q. q < pages e \<and> us e m' q \<noteq> 0} \<le> card {..<pages e}" by (intro card_mono) auto
  ultimately have cnt: "card {q. q < pages e \<and> us e m' q \<noteq> 0} = be_used e + count" "be_used e + count \<le> pages e"
    by (simp_all add: used)
  have "pages e < 2 ^ 64" using r(2) pages_le_size [of e] by (simp add: fits_def)
  then have w: "usz (be_used e + count) = be_used e + count" using cnt(2) by simp
  let ?skip = "if be_skip e = p then p + count else be_skip e"
  have nz: "us e m' q \<noteq> 0 \<longleftrightarrow> q \<in> {p..<p + count} \<or> us e m q \<noteq> 0" if "q < pages e" for q
    using u [OF that] by (auto split: if_splits)
  have nzr: "us e m' q \<noteq> 0" if "p \<le> q" "q < p + count" for q using nz [of q] that p(3) by simp
  have sk: "?skip \<le> pages e" "\<forall>q < ?skip. us e m' q \<noteq> 0"
    using p(3) r(3) nz r(4) by (auto simp: nzr not_less [symmetric])
  have up: "\<forall>q < usage_pages e. us e m' q \<noteq> 0" using nz r(1,5) by (auto simp: ready_def)
  have bin: "\<forall>q < pages e. us e m' q \<in> {0, 1}" using u r(6) by auto
  show "entry_inv (after_take e p count) m'"
    using r(1,2) sk up bin cnt(1) unfolding entry_inv_def after_take_simps by (simp add: after_take_def w)
  have "{q. usage_pages e \<le> q \<and> q < pages e \<and> us e m' q \<noteq> 0} =
      {q. usage_pages e \<le> q \<and> q < pages e \<and> us e m q \<noteq> 0} \<union> {p..<p + count}"
    using nz p(2,3) by (auto simp: nzr)
  then show "held (after_take e p count) m' = held e m \<union> frame e ` {p..<p + count}"
    using r(1) by (simp add: held_def image_Un)
  show "held e m \<inter> frame e ` {p..<p + count} = {}"
    using p(4) by (fastforce simp: held_def frame_inj)
  have "x \<notin> area e \<Longrightarrow> x \<notin> {be_base e..<be_base e + pages e}" for x using pages_le_size [of e] by (auto simp: area_def)
  moreover have "x \<notin> area e \<Longrightarrow> q \<in> {p..<p + count} \<Longrightarrow> x \<notin> frame_bytes e q" for q x
    using frame_in_area [of q e] p(3) by auto
  ultimately show "\<forall>x. x \<notin> area e \<longrightarrow> m' x = m x" using S(3) by blast
  show "\<forall>f \<in> held e m. \<forall>x \<in> {f..<f + FRAME_SIZE}. m' x = m x"
  proof (intro ballI)
    fix f x assume "f \<in> held e m" "x \<in> {f..<f + FRAME_SIZE}"
    then obtain q where q: "usage_pages e \<le> q" "q < pages e" "us e m q \<noteq> 0" "x \<in> frame_bytes e q"
      by (auto simp: held_def frame_bytes_def frame_def)
    have "x \<notin> frame_bytes e q'" if "q' \<in> {p..<p + count}" for q'
      using frame_bytes_disjoint [of q q' e] q(3,4) that p(4) by (cases "q = q'") auto
    then show "m' x = m x" using S(3) out_of_map [OF r(2) q(1,4)] by blast
  qed
qed

section \<open>One entry of the table changes\<close>

lemma update_entry:
  assumes inv: "buddy_inv b m" and k: "k < length (table b)" and e: "e = table b ! k"
    and e': "entry_inv e' m'" "area e' = area e" and m': "\<forall>x. x \<notin> area e \<longrightarrow> m' x = m x"
  shows "buddy_inv (b\<lparr>table := (table b)[k := e']\<rparr>) m'"
    "allocated (b\<lparr>table := (table b)[k := e']\<rparr>) m' = (allocated b m - held e m) \<union> held e' m'"
    "\<forall>f \<in> allocated b m - held e m. \<forall>x \<in> {f..<f + FRAME_SIZE}. m' x = m x"
proof -
  have d: "area (table b ! j) \<inter> area e = {}" if "j < length (table b)" "j \<noteq> k" for j
    using inv k that by (auto simp: buddy_inv_def e)
  have a: "area ((table b)[k := e'] ! j) = area (table b ! j)" if "j < length (table b)" for j
    using that e'(2) by (cases "j = k") (simp_all add: e)
  have same: "\<forall>q < pages (table b ! j). us (table b ! j) m' q = us (table b ! j) m q"
    if "j < length (table b)" "j \<noteq> k" for j
    using d [OF that] m' pages_le_size [of "table b ! j"] by (fastforce simp: us_def area_def)
  have old: "entry_inv (table b ! j) m" if "j < length (table b)" for j using inv that by (simp add: buddy_inv_def)
  have "entry_inv ((table b)[k := e'] ! j) m'" if "j < length (table b)" for j
    using e'(1) usage_cong(1) [OF same [OF that]] old [OF that] that by (cases "j = k") simp_all
  then have "\<forall>x \<in> set ((table b)[k := e']). entry_inv x m'" by (auto simp: in_set_conv_nth)
  then show "buddy_inv (b\<lparr>table := (table b)[k := e']\<rparr>) m'" using inv a by (simp add: buddy_inv_def)
  have h: "held (table b ! j) m \<inter> held e m = {}" if "j < length (table b)" "j \<noteq> k" for j
    using d [OF that] held_in_area [of _ "table b ! j" m] held_in_area [of _ e m] by auto
  have U: "allocated b m = (\<Union>j < length (table b). held (table b ! j) m)" for b m
    by (fastforce simp: allocated_def in_set_conv_nth)
  have new: "held ((table b)[k := e'] ! j) m' = (if j = k then held e' m' else held (table b ! j) m)"
    if "j < length (table b)" for j
    using usage_cong(2) [OF same [OF that]] that by simp
  have "allocated (b\<lparr>table := (table b)[k := e']\<rparr>) m' =
      (\<Union>j < length (table b). if j = k then held e' m' else held (table b ! j) m)"
    unfolding U using new by simp
  also have "\<dots> = (allocated b m - held e m) \<union> held e' m'"
    unfolding U using h k by (auto simp: e split: if_splits)
  finally show "allocated (b\<lparr>table := (table b)[k := e']\<rparr>) m' = (allocated b m - held e m) \<union> held e' m'" .
  show "\<forall>f \<in> allocated b m - held e m. \<forall>x \<in> {f..<f + FRAME_SIZE}. m' x = m x"
  proof (intro ballI)
    fix f x assume f: "f \<in> allocated b m - held e m" "x \<in> {f..<f + FRAME_SIZE}"
    then obtain j where j: "j < length (table b)" "f \<in> held (table b ! j) m" "j \<noteq> k" unfolding U e by blast
    then have "x \<in> area (table b ! j)"
      using f(2) frame_in_area [of _ "table b ! j"] by (fastforce simp: held_def frame_bytes_def frame_def)
    then show "m' x = m x" using d [OF j(1,3)] m' by blast
  qed
qed

section \<open>Allocation\<close>

definition run_frames :: "nat \<Rightarrow> nat \<Rightarrow> nat set" where
  "run_frames a count = (\<lambda>i. a + i * FRAME_SIZE) ` {..<count}"

lemma run_frames_frame: "frame e ` {p..<p + count} = run_frames (frame e p) count"
proof -
  have "frame e ` {p..<p + count} = frame e ` (+) p ` {..<count}"
    by (simp only: lessThan_atLeast0 image_add_atLeastLessThan add_0 add.commute)
  also have "\<dots> = run_frames (frame e p) count"
    unfolding run_frames_def image_image by (intro image_cong) (simp_all add: frame_def algebra_simps)
  finally show ?thesis .
qed

lemma buddy_allocate_cases:
  assumes "buddy_inv b m" "0 < count"
  shows "(buddy_allocate b m count = (None, b, m) \<and> (\<forall>e \<in> set (table b). no_run e m count)) \<or>
         (\<exists>k < length (table b). \<exists>p m'. takes (table b ! k) m p count m' \<and> buddy_allocate b m count =
            (Some (frame (table b ! k) p), b\<lparr>table := (table b)[k := after_take (table b ! k) p count]\<rparr>, m'))"
  using allocate_from_spec [of "table b" m count 0 b] assms by (simp add: buddy_inv_def buddy_allocate_def frame_def)

text \<open>What a successful allocation of \<open>count\<close> frames at \<open>a\<close> gives.\<close>

definition allocation_ok :: "buddy \<Rightarrow> pmem \<Rightarrow> nat \<Rightarrow> nat \<Rightarrow> buddy \<Rightarrow> pmem \<Rightarrow> bool" where
  "allocation_ok b m count a b' m' \<longleftrightarrow> buddy_inv b' m' \<and>
     (\<exists>e \<in> set (table b). {a..<a + count * FRAME_SIZE} \<subseteq> area e) \<and>
     run_frames a count \<inter> allocated b m = {} \<and> allocated b' m' = allocated b m \<union> run_frames a count \<and>
     (\<forall>x \<in> {a..<a + count * FRAME_SIZE}. m' x = 0) \<and>
     (\<forall>f \<in> allocated b m. \<forall>x \<in> {f..<f + FRAME_SIZE}. m' x = m x)"

lemma run_bytes:
  assumes "x \<in> {frame e p..<frame e p + count * FRAME_SIZE}"
  shows "\<exists>q \<in> {p..<p + count}. x \<in> frame_bytes e q"
proof -
  define i where "i = (x - frame e p) div FRAME_SIZE"
  have "i < count" using assms by (simp add: i_def less_mult_imp_div_less less_diff_conv2 add.commute)
  moreover have "i * FRAME_SIZE \<le> x - frame e p" "x - frame e p < i * FRAME_SIZE + FRAME_SIZE"
    using dividend_less_div_times [OF frame_pos, of "x - frame e p"] by (simp_all add: i_def add.commute)
  moreover have "frame_bytes e (p + i) = {frame e p + i * FRAME_SIZE..<frame e p + i * FRAME_SIZE + FRAME_SIZE}"
    by (simp add: frame_bytes_def frame_def algebra_simps)
  ultimately show ?thesis using assms by (intro bexI [of _ "p + i"]) auto
qed

lemma allocation_spec:
  assumes inv: "buddy_inv b m" and c: "0 < count" and k: "k < length (table b)"
    and t: "takes (table b ! k) m p count m'"
  shows "allocation_ok b m count (frame (table b ! k) p) (b\<lparr>table := (table b)[k := after_take (table b ! k) p count]\<rparr>) m'"
proof -
  let ?e = "table b ! k" and ?a = "frame (table b ! k) p"
  let ?b = "b\<lparr>table := (table b)[k := after_take ?e p count]\<rparr>"
  have e: "entry_inv ?e m" using inv k by (simp add: buddy_inv_def)
  note T = takes_entry [OF e t c]
  note U = update_entry [OF inv k refl T(1) _ T(5), simplified]
  have sub: "held ?e m \<subseteq> allocated b m" using nth_mem [OF k] by (auto simp: allocated_def)
  have pe: "p + count \<le> pages ?e" using t by (simp add: takes_def)
  have bytes: "{?a..<?a + count * FRAME_SIZE} \<subseteq> area ?e"
  proof
    fix x assume "x \<in> {?a..<?a + count * FRAME_SIZE}"
    from run_bytes [OF this] obtain q where q: "q \<in> {p..<p + count}" "x \<in> frame_bytes ?e q" ..
    then show "x \<in> area ?e" using frame_in_area [of q ?e] pe by auto
  qed
  have alloc: "allocated ?b m' = allocated b m \<union> run_frames ?a count"
    using U(2) T(2) sub by (auto simp: run_frames_frame)
  have "run_frames ?a count \<inter> allocated b m \<subseteq> held ?e m"
  proof
    fix f assume f: "f \<in> run_frames ?a count \<inter> allocated b m"
    then have "f \<in> frame ?e ` {p..<p + count}" by (simp add: run_frames_frame)
    then have "f \<in> area ?e" using frame_mem [of _ ?e] pe by auto
    moreover from f obtain j where "j < length (table b)" "f \<in> held (table b ! j) m"
      by (auto simp: allocated_def in_set_conv_nth)
    ultimately show "f \<in> held ?e m"
      using inv k held_in_area [of f "table b ! j" m] by (cases "j = k") (auto simp: buddy_inv_def)
  qed
  then have "run_frames ?a count \<inter> allocated b m = {}" using T(3) by (auto simp: run_frames_frame)
  moreover have "\<forall>x \<in> {?a..<?a + count * FRAME_SIZE}. m' x = 0" using run_bytes T(4) by blast
  moreover have "\<forall>f \<in> allocated b m. \<forall>x \<in> {f..<f + FRAME_SIZE}. m' x = m x" using U(3) T(6) by blast
  ultimately show ?thesis unfolding allocation_ok_def using U(1) alloc bytes k nth_mem by blast
qed

text \<open>(C7) \<open>BuddyAllocator::allocate\<close>: where it returns an address, the \<open>count\<close> frames from there on
  lie in one memory area, none of them was allocated, they are zeroed, exactly they become allocated,
  the content of every other allocated frame is unchanged, and the invariant is kept. Where it
  returns \<open>None\<close> nothing changed and no area has \<open>count\<close> free frames in a row.\<close>

theorem buddy_allocate_correct:
  assumes "buddy_inv b m" "0 < count"
  shows "case buddy_allocate b m count of
           (Some a, b', m') \<Rightarrow> allocation_ok b m count a b' m'
         | (None, b', m') \<Rightarrow> b' = b \<and> m' = m \<and> (\<forall>e \<in> set (table b). no_run e m count)"
  using buddy_allocate_cases [OF assms] allocation_spec [OF assms] by auto

section \<open>Freeing\<close>

definition after_free :: "buddy_entry \<Rightarrow> nat \<Rightarrow> nat \<Rightarrow> buddy_entry" where
  "after_free e s n = e\<lparr>be_skip := (if n = 0 then be_skip e else min (be_skip e) s), be_used := be_used e - n\<rparr>"

lemma after_free_simps [simp]:
  "be_base (after_free e p c) = be_base e" "be_size (after_free e p c) = be_size e"
  "pages (after_free e p c) = pages e" "usage_pages (after_free e p c) = usage_pages e"
  "ready (after_free e p c) = ready e" "fits (after_free e p c) = fits e" "us (after_free e p c) = us e"
  "area (after_free e p c) = area e" "frame (after_free e p c) = frame e"
  by (simp_all add: after_free_def frame_def pages_def usage_pages_def ready_def fits_def us_def area_def fun_eq_iff)

lemma free_pages_spec:
  assumes "fits e" "s + n \<le> pages e" "\<forall>q \<in> {s..<s + n}. us e m q = 1" "n \<le> be_used e" "be_used e < 2 ^ 64"
  shows "\<exists>m'. free_pages e m [s..<s + n] = Some (after_free e s n, m') \<and>
           (\<forall>q < pages e. us e m' q = (if q \<in> {s..<s + n} then 0 else us e m q)) \<and>
           (\<forall>x. x \<notin> {be_base e..<be_base e + pages e} \<longrightarrow> m' x = m x)"
  using assms
proof (induction n arbitrary: s e m)
  case 0
  then show ?case by (simp add: after_free_def)
next
  case (Suc n)
  let ?e = "after_free e s 1" and ?m = "m(be_base e + s := 0)"
  have used: "be_used ?e = be_used e - 1" by (simp add: after_free_def)
  have s: "s < pages e" "us e m s = 1" using Suc.prems(2,3) by auto
  have l: "[s..<s + Suc n] = s # [Suc s..<Suc s + n]" by (simp add: upt_conv_Cons)
  have "usz_sub (be_used e) 1 = be_used e - 1" using Suc.prems(4,5) by (simp add: usz_sub_def usz_def mod_if)
  moreover have "set_usage ?e m s 0 = Some ?m" using set_usage_eq [of ?e m s 0] Suc.prems(1) s(1) by simp
  moreover have "e\<lparr>be_skip := if s < be_skip e then s else be_skip e, be_used := be_used e - 1\<rparr> = ?e"
    by (simp add: after_free_def min_def)
  ultimately have step: "free_pages e m [s..<s + Suc n] = free_pages ?e ?m [Suc s..<Suc s + n]"
    unfolding l using s Suc.prems(1) by (simp add: get_usage_eq Let_def del: upt_Suc)
  have u: "us e ?m q = (if q = s then 0 else us e m q)" for q by (simp add: us_def)
  have "\<exists>m'. free_pages ?e ?m [Suc s..<Suc s + n] = Some (after_free ?e (Suc s) n, m') \<and>
           (\<forall>q < pages ?e. us ?e m' q = (if q \<in> {Suc s..<Suc s + n} then 0 else us ?e ?m q)) \<and>
           (\<forall>x. x \<notin> {be_base ?e..<be_base ?e + pages ?e} \<longrightarrow> m' x = ?m x)"
    using Suc.prems u by (intro Suc.IH) (auto simp: used [simplified] simp del: fun_upd_apply)
  moreover have "after_free ?e (Suc s) n = after_free e s (Suc n)" by (simp add: after_free_def)
  ultimately obtain m' where m': "free_pages e m [s..<s + Suc n] = Some (after_free e s (Suc n), m')"
    "\<forall>q < pages e. us e m' q = (if q \<in> {Suc s..<Suc s + n} then 0 else us e ?m q)"
    "\<forall>x. x \<notin> {be_base e..<be_base e + pages e} \<longrightarrow> m' x = ?m x"
    unfolding step by auto
  then show ?case using u s(1) by (intro exI [of _ m']) (auto simp: less_Suc_eq)
qed

lemma frees_entry:
  assumes inv: "entry_inv e m" and r: "ready e" "usage_pages e \<le> s" "s + n \<le> pages e" "0 < n"
    and h: "\<forall>q \<in> {s..<s + n}. us e m q \<noteq> 0"
  shows "\<exists>m'. free_pages e m [s..<s + n] = Some (after_free e s n, m') \<and> entry_inv (after_free e s n) m' \<and>
           held (after_free e s n) m' = held e m - frame e ` {s..<s + n} \<and> (\<forall>x. x \<notin> area e \<longrightarrow> m' x = m x) \<and>
           (\<forall>f \<in> held e m. \<forall>x \<in> {f..<f + FRAME_SIZE}. m' x = m x)"
proof -
  from inv r have i: "fits e" "be_skip e \<le> pages e" "\<forall>q < be_skip e. us e m q \<noteq> 0"
    "\<forall>q < usage_pages e. us e m q \<noteq> 0" "\<forall>q < pages e. us e m q \<in> {0, 1}"
    "be_used e = card {q. q < pages e \<and> us e m q \<noteq> 0}" by (auto simp: entry_inv_def)
  have "us e m q = 1" if "q \<in> {s..<s + n}" for q
  proof -
    from that r(3) have "q < pages e" by simp
    then show ?thesis using h i(5) that by blast
  qed
  then have one: "\<forall>q \<in> {s..<s + n}. us e m q = 1" ..
  have "card {s..<s + n} \<le> be_used e" unfolding i(6) using h r(3) by (intro card_mono) auto
  then have n: "n \<le> be_used e" by simp
  have "be_used e \<le> card {..<pages e}" unfolding i(6) by (intro card_mono) auto
  then have lt: "be_used e < 2 ^ 64" using i(1) pages_le_size [of e] by (simp add: fits_def)
  from free_pages_spec [OF i(1) r(3) one n lt] obtain m' where
    m': "free_pages e m [s..<s + n] = Some (after_free e s n, m')"
      "\<forall>q < pages e. us e m' q = (if q \<in> {s..<s + n} then 0 else us e m q)"
      "\<forall>x. x \<notin> {be_base e..<be_base e + pages e} \<longrightarrow> m' x = m x" by blast
  have nz: "q < pages e \<Longrightarrow> us e m' q = 0 \<longleftrightarrow> q \<in> {s..<s + n} \<or> us e m q = 0" for q using m'(2) by auto
  have set: "{q. q < pages e \<and> us e m' q \<noteq> 0} = {q. q < pages e \<and> us e m q \<noteq> 0} - {s..<s + n}"
    by (auto simp: nz)
  have card: "card {q. q < pages e \<and> us e m' q \<noteq> 0} = be_used e - n"
    unfolding set i(6) using h r(3) by (subst card_Diff_subset) auto
  have "\<forall>q < min (be_skip e) s. us e m' q \<noteq> 0" using i(2,3) by (auto simp: nz)
  moreover have "\<forall>q < usage_pages e. us e m' q \<noteq> 0" using i(4) r(1,2) by (auto simp: ready_def nz)
  moreover have "\<forall>q < pages e. us e m' q \<in> {0, 1}" using m'(2) i(5) by simp
  ultimately have "entry_inv (after_free e s n) m'"
    using i(1,2) r(1,4) card unfolding entry_inv_def after_free_simps by (simp add: after_free_def)
  moreover have "held (after_free e s n) m' = held e m - frame e ` {s..<s + n}"
    using r(1) by (auto simp: held_def frame_inj nz)
  moreover have "\<forall>x. x \<notin> area e \<longrightarrow> m' x = m x" using m'(3) pages_le_size [of e] by (auto simp: area_def)
  moreover have "\<forall>f \<in> held e m. \<forall>x \<in> {f..<f + FRAME_SIZE}. m' x = m x"
    using m'(3) out_of_map [OF i(1)] by (fastforce simp: held_def frame_bytes_def frame_def)
  ultimately show ?thesis using m'(1) by blast
qed

lemma free_from_hit:
  assumes "k < length es" "\<forall>j < k. \<not> (addr \<ge> be_base (es ! j) \<and>
      usz (addr + usz (count * FRAME_SIZE)) \<le> usz (be_base (es ! j) + be_size (es ! j)))"
    and "addr \<ge> be_base (es ! k)"
      "usz (addr + usz (count * FRAME_SIZE)) \<le> usz (be_base (es ! k) + be_size (es ! k))"
  shows "free_from i es b m addr count =
     (let s = usz_sub addr (be_base (es ! k)) div FRAME_SIZE
      in map_option (\<lambda>(e, m). (b\<lparr>table := (table b)[i + k := e]\<rparr>, m)) (free_pages (es ! k) m [s..<s + count]))"
  using assms
proof (induction es arbitrary: i k)
  case (Cons e es)
  show ?case
  proof (cases k)
    case (Suc j)
    have "\<not> (addr \<ge> be_base e \<and> usz (addr + usz (count * FRAME_SIZE)) \<le> usz (be_base e + be_size e))"
      using Cons.prems(2) Suc by (metis nth_Cons_0 zero_less_Suc)
    then have "free_from i (e # es) b m addr count = free_from (i + 1) es b m addr count" by auto
    moreover have "\<forall>l < j. \<not> (addr \<ge> be_base (es ! l) \<and>
        usz (addr + usz (count * FRAME_SIZE)) \<le> usz (be_base (es ! l) + be_size (es ! l)))"
      using Cons.prems(2) Suc by (metis Suc_less_eq nth_Cons_Suc)
    ultimately show ?thesis using Cons.IH [of j "i + 1"] Cons.prems Suc by simp
  qed (use Cons.prems in simp)
qed simp

text \<open>The frames of a run that a client holds in entry \<open>k\<close>.\<close>

lemma buddy_free_eq:
  assumes inv: "buddy_inv b m" and k: "k < length (table b)" and n: "0 < n"
    and h: "run_frames a n \<subseteq> held (table b ! k) m"
  shows "\<exists>s. a = frame (table b ! k) s \<and> usage_pages (table b ! k) \<le> s \<and> s + n \<le> pages (table b ! k) \<and> ready (table b ! k) \<and>
           (\<forall>q \<in> {s..<s + n}. us (table b ! k) m q \<noteq> 0) \<and>
           buddy_free b m a n = map_option (\<lambda>(e, m). (b\<lparr>table := (table b)[k := e]\<rparr>, m))
             (free_pages (table b ! k) m [s..<s + n])"
proof -
  let ?e = "table b ! k"
  have mem: "a + i * FRAME_SIZE \<in> held ?e m" if "i < n" for i using h that by (auto simp: run_frames_def)
  from mem [OF n] obtain s where s: "a = frame ?e s" "usage_pages ?e \<le> s" "ready ?e" by (auto simp: held_def)
  have "frame ?e (s + i) \<in> held ?e m" if "i < n" for i
    using mem [OF that] by (simp add: s(1) frame_def algebra_simps)
  then have q: "s + i < pages ?e \<and> us ?e m (s + i) \<noteq> 0" if "i < n" for i
    using that by (fastforce simp: held_def frame_inj)
  have sn: "s + n \<le> pages ?e" using q [of "n - 1"] n by auto
  have us: "us ?e m x \<noteq> 0" if "x \<in> {s..<s + n}" for x
    using q [of "x - s"] that by (simp add: less_diff_conv2)
  have fits: "fits (table b ! j)" if "j < length (table b)" for j
    using inv that by (simp add: buddy_inv_def entry_inv_def)
  have "(s + n) * FRAME_SIZE \<le> be_size ?e"
    using mult_le_mono1 [OF sn, of FRAME_SIZE] by (rule order_trans) (simp add: pages_def)
  then have e: "a + n * FRAME_SIZE \<le> be_base ?e + be_size ?e" by (simp add: s(1) frame_def algebra_simps)
  then have w: "usz (n * FRAME_SIZE) = n * FRAME_SIZE" "usz (a + n * FRAME_SIZE) = a + n * FRAME_SIZE"
    using fits [OF k] by (simp_all add: fits_def)
  have wj: "usz (be_base (table b ! j) + be_size (table b ! j)) = be_base (table b ! j) + be_size (table b ! j)"
    if "j < length (table b)" for j using fits [OF that] by (simp add: fits_def)
  have "a \<in> area ?e" using held_in_area mem [OF n] by simp
  moreover have "area (table b ! j) \<inter> area ?e = {}" if "j < k" for j using inv k that by (simp add: buddy_inv_def)
  ultimately have other: "a \<notin> area (table b ! j)" if "j < k" for j using that by blast
  have pos: "0 < n * FRAME_SIZE" using n by simp
  have miss: "\<not> (a \<ge> be_base (table b ! j) \<and>
      usz (a + usz (n * FRAME_SIZE)) \<le> usz (be_base (table b ! j) + be_size (table b ! j)))" if "j < k" for j
    using other [OF that] pos k that unfolding w area_def wj [OF less_trans [OF that k]] atLeastLessThan_iff by linarith
  have start: "usz_sub a (be_base ?e) div FRAME_SIZE = s"
    using fits [OF k] page_end [of s ?e] sn n
    by (simp add: usz_sub_def usz_def s(1) frame_def fits_def)
  have hit: "be_base ?e \<le> a" "usz (a + usz (n * FRAME_SIZE)) \<le> usz (be_base ?e + be_size ?e)"
    unfolding w wj [OF k] using e by (simp_all add: s(1) frame_def)
  have "buddy_free b m a n = free_from 0 (table b) b m a n" using inv by (simp add: buddy_free_def buddy_inv_def)
  also have "\<dots> = map_option (\<lambda>(e, m). (b\<lparr>table := (table b)[k := e]\<rparr>, m)) (free_pages ?e m [s..<s + n])"
    using free_from_hit [OF k _ hit, of 0 b m] miss unfolding start Let_def add_0 by blast
  finally have "buddy_free b m a n = map_option (\<lambda>(e, m). (b\<lparr>table := (table b)[k := e]\<rparr>, m))
      (free_pages ?e m [s..<s + n])" .
  then show ?thesis using s sn us by blast
qed

lemma free_spec:
  assumes inv: "buddy_inv b m" and n: "0 < n" and e: "e \<in> set (table b)" "run_frames a n \<subseteq> held e m"
  shows "\<exists>b' m'. buddy_free b m a n = Some (b', m') \<and> buddy_inv b' m' \<and>
           allocated b' m' = allocated b m - run_frames a n \<and>
           (\<forall>f \<in> allocated b m. \<forall>x \<in> {f..<f + FRAME_SIZE}. m' x = m x)"
proof -
  from e(1) obtain k where k: "k < length (table b)" "e = table b ! k" by (auto simp: in_set_conv_nth)
  have ei: "entry_inv e m" using inv e(1) by (simp add: buddy_inv_def)
  from buddy_free_eq [OF inv k(1) n e(2) [unfolded k(2)], folded k(2)] obtain s where
    s: "a = frame e s" "usage_pages e \<le> s" "s + n \<le> pages e" "ready e" "\<forall>q \<in> {s..<s + n}. us e m q \<noteq> 0"
      "buddy_free b m a n = map_option (\<lambda>(e, m). (b\<lparr>table := (table b)[k := e]\<rparr>, m)) (free_pages e m [s..<s + n])"
    by blast
  from frees_entry [OF ei s(4,2,3) n s(5)] obtain m' where
    m': "free_pages e m [s..<s + n] = Some (after_free e s n, m')" "entry_inv (after_free e s n) m'"
      "held (after_free e s n) m' = held e m - frame e ` {s..<s + n}" "\<forall>x. x \<notin> area e \<longrightarrow> m' x = m x"
      "\<forall>f \<in> held e m. \<forall>x \<in> {f..<f + FRAME_SIZE}. m' x = m x" by blast
  note U = update_entry [OF inv k m'(2) _ m'(4), simplified]
  have sub: "held e m \<subseteq> allocated b m" using e(1) by (auto simp: allocated_def)
  have run: "frame e ` {s..<s + n} = run_frames a n" by (simp add: run_frames_frame s(1))
  show ?thesis
  proof (intro exI conjI)
    show "buddy_free b m a n = Some (b\<lparr>table := (table b)[k := after_free e s n]\<rparr>, m')" using s(6) m'(1) by simp
    show "buddy_inv (b\<lparr>table := (table b)[k := after_free e s n]\<rparr>) m'" by (rule U(1))
    show "allocated (b\<lparr>table := (table b)[k := after_free e s n]\<rparr>) m' = allocated b m - run_frames a n"
      unfolding U(2) m'(3) run using sub e(2) by blast
    show "\<forall>f \<in> allocated b m. \<forall>x \<in> {f..<f + FRAME_SIZE}. m' x = m x" using U(3) m'(5) by blast
  qed
qed

lemma alloc_free_spec:
  assumes "buddy_inv b m" "0 < n" and al: "buddy_allocate b m n = (Some a, b', m')"
  shows "\<exists>b'' m''. buddy_free b' m' a n = Some (b'', m'') \<and> buddy_inv b'' m'' \<and> allocated b'' m'' = allocated b m"
proof -
  from al buddy_allocate_cases [OF assms(1,2)] obtain k p where
    k: "k < length (table b)" "takes (table b ! k) m p n m'" "a = frame (table b ! k) p"
      "b' = b\<lparr>table := (table b)[k := after_take (table b ! k) p n]\<rparr>" by auto
  have ok: "allocation_ok b m n a b' m'" unfolding k(3,4) by (rule allocation_spec [OF assms(1,2) k(1,2)])
  have ei: "entry_inv (table b ! k) m" using assms(1) k(1) by (simp add: buddy_inv_def)
  have "run_frames a n \<subseteq> held (after_take (table b ! k) p n) m'"
    using takes_entry(2) [OF ei k(2) assms(2)] by (simp add: k(3) run_frames_frame)
  moreover have "after_take (table b ! k) p n \<in> set (table b')" using k(1) by (simp add: k(4) set_update_memI)
  ultimately have "\<exists>b'' m''. buddy_free b' m' a n = Some (b'', m'') \<and> buddy_inv b'' m'' \<and>
      allocated b'' m'' = allocated b' m' - run_frames a n"
    using free_spec [of b' m' n "after_take (table b ! k) p n" a] ok assms(2) by (auto simp: allocation_ok_def)
  moreover have "allocated b' m' - run_frames a n = allocated b m" using ok by (auto simp: allocation_ok_def)
  ultimately show ?thesis by simp
qed

text \<open>(C18) \<open>BuddyAllocator::free\<close> of a run of frames that lies in one area and is allocated does not
  panic, gives back exactly these frames, leaves the content of every frame that was allocated
  unchanged and keeps the invariant; so a free of what \<open>allocate\<close> has just returned restores the set
  of allocated frames.\<close>

theorem buddy_free_correct:
  assumes "buddy_inv b m" "0 < n"
  shows "((\<exists>e \<in> set (table b). run_frames a n \<subseteq> held e m) \<longrightarrow>
            (\<exists>b' m'. buddy_free b m a n = Some (b', m') \<and> buddy_inv b' m' \<and>
               allocated b' m' = allocated b m - run_frames a n \<and>
               (\<forall>f \<in> allocated b m. \<forall>x \<in> {f..<f + FRAME_SIZE}. m' x = m x))) \<and>
         (buddy_allocate b m n = (Some a, b', m') \<longrightarrow>
            (\<exists>b'' m''. buddy_free b' m' a n = Some (b'', m'') \<and> buddy_inv b'' m'' \<and> allocated b'' m'' = allocated b m))"
  using free_spec [OF assms] alloc_free_spec [OF assms] by blast

text \<open>An area of three frames: the first holds the usage map, the second is free.\<close>

definition demo_entry :: buddy_entry where
  "demo_entry = \<lparr>be_base = 8192, be_size = 12288, be_skip = 1, be_used = 2\<rparr>"

definition demo_buddy :: buddy where
  "demo_buddy = \<lparr>table_virt = 4096, table = [demo_entry]\<rparr>"

definition demo_mem :: pmem where
  "demo_mem x = (if x = 8192 \<or> x = 8194 then 1 else 0)"

lemma demo_pages [simp]: "pages demo_entry = 3" "usage_pages demo_entry = 1" "ready demo_entry" "be_skip demo_entry = 1"
    "be_base demo_entry = 8192" "be_size demo_entry = 12288" "be_used demo_entry = 2"
  by (simp_all add: demo_entry_def pages_def usage_pages_def ready_def usz_def FRAME_SIZE_def FRAME_SHIFT_def)

lemma demo_us: "us demo_entry demo_mem q = (if q = 0 \<or> q = 2 then 1 else 0)"
  by (simp add: us_def demo_mem_def)

lemma demo_inv: "buddy_inv demo_buddy demo_mem"
proof -
  have "{q. q < (3 :: nat) \<and> us demo_entry demo_mem q \<noteq> 0} = {0, 2}" by (auto simp: demo_us)
  then have "card {q. q < (3 :: nat) \<and> us demo_entry demo_mem q \<noteq> 0} = 2" by simp
  moreover have "fits demo_entry" by (simp add: fits_def FRAME_SIZE_def)
  ultimately have "entry_inv demo_entry demo_mem" unfolding entry_inv_def demo_pages by (auto simp: demo_us)
  then show ?thesis by (simp add: buddy_inv_def demo_buddy_def)
qed

lemma demo_held: "held demo_entry demo_mem = {16384}"
proof -
  have "{q. ready demo_entry \<and> 1 \<le> q \<and> q < (3 :: nat) \<and> us demo_entry demo_mem q \<noteq> 0} = {2}" by (auto simp: demo_us)
  then show ?thesis unfolding held_def demo_pages by (simp add: frame_def FRAME_SIZE_def)
qed

theorem buddy_allocate_correct_witness:
  "fst (buddy_allocate demo_buddy demo_mem 1) = Some 12288 \<and> fst (buddy_allocate demo_buddy demo_mem 2) = None \<and>
   (case buddy_allocate demo_buddy demo_mem 1 of
      (Some a, b', m') \<Rightarrow> allocation_ok demo_buddy demo_mem 1 a b' m'
    | (None, b', m') \<Rightarrow> b' = demo_buddy \<and> m' = demo_mem \<and> (\<forall>e \<in> set (table demo_buddy). no_run e demo_mem 1))"
proof (intro conjI)
  have f: "fits demo_entry" by (simp add: fits_def FRAME_SIZE_def)
  have l: "[Suc 0..<3] = [Suc 0, 2]" by (simp add: upt_rec)
  show "fst (buddy_allocate demo_buddy demo_mem 1) = Some 12288"
    by (simp add: buddy_allocate_def demo_buddy_def l get_usage_eq f demo_us page_phys_def FRAME_SIZE_def)
  show "fst (buddy_allocate demo_buddy demo_mem 2) = None"
    by (simp add: buddy_allocate_def demo_buddy_def l get_usage_eq f demo_us)
qed (rule buddy_allocate_correct [OF demo_inv, of 1], simp)

theorem buddy_free_correct_witness:
  "\<exists>b' m'. buddy_free demo_buddy demo_mem 16384 1 = Some (b', m') \<and> buddy_inv b' m' \<and> allocated b' m' = {}"
proof -
  have r: "run_frames 16384 1 = {16384}" by (auto simp: run_frames_def)
  have sub: "run_frames 16384 1 \<subseteq> held demo_entry demo_mem" unfolding r demo_held by simp
  have none: "allocated demo_buddy demo_mem - run_frames 16384 1 = {}"
    unfolding r by (simp add: demo_held allocated_def demo_buddy_def)
  have "demo_entry \<in> set (table demo_buddy)" by (simp add: demo_buddy_def)
  with sub have ex: "\<exists>e \<in> set (table demo_buddy). run_frames 16384 1 \<subseteq> held e demo_mem" by (rule bexI)
  from buddy_free_correct [OF demo_inv zero_less_one, of 16384, THEN conjunct1, THEN mp, OF ex]
  show ?thesis unfolding none by (elim exE conjE) (intro exI conjI)
qed

end
