(* ===== verification/Ziqa_Wasm.thy ===== *)
theory Ziqa_Wasm
  imports Ziqa_Path Ziqa_Scheduler
begin

text \<open>
  The WebAssembly module parser of \<open>abi/wasm/mod.rs\<close>: the LEB128 readers, the sections, the data
  segments, and the search for the end of a block.
  A \<open>usize\<close> is a 64-bit word and wraps as in the release profile.  \<open>Fail\<close> is a returned error,
  \<open>Panics\<close> an index or a slice out of range, \<open>OutOfFuel\<close> a loop that used up its fuel; only the loop
  over the sections needs fuel, the others run a number of rounds the module gives.
\<close>

section \<open>Outcomes\<close>

datatype ('a, 'e) run = Ret 'a | Fail 'e | Panics | OutOfFuel

type_synonym 'a wasm_result = "('a, string) run"

fun rbind :: "('a, 'e) run \<Rightarrow> ('a \<Rightarrow> ('b, 'e) run) \<Rightarrow> ('b, 'e) run" where
  "rbind (Ret x) f = f x"
| "rbind (Fail e) f = Fail e"
| "rbind Panics f = Panics"
| "rbind OutOfFuel f = OutOfFuel"

lemma rbind_Ret [simp]: "rbind r f = Ret y \<longleftrightarrow> (\<exists>x. r = Ret x \<and> f x = Ret y)"
  by (cases r) auto

lemma rbind_Fuel: "rbind r f = OutOfFuel \<longleftrightarrow> r = OutOfFuel \<or> (\<exists>x. r = Ret x \<and> f x = OutOfFuel)"
  by (cases r) auto

definition or_err :: "'a option \<Rightarrow> string \<Rightarrow> 'a wasm_result" where
  "or_err x e = (case x of None \<Rightarrow> Fail e | Some x \<Rightarrow> Ret x)"

primrec times :: "nat \<Rightarrow> ('s \<Rightarrow> ('s, 'e) run) \<Rightarrow> 's \<Rightarrow> ('s, 'e) run" where
  "times 0 f s = Ret s"
| "times (Suc n) f s = rbind (f s) (times n f)"

text \<open>Indexing and slicing, with the panic out of range.\<close>

definition byte_at :: "bytes \<Rightarrow> u64 \<Rightarrow> u8 wasm_result" where
  "byte_at data i = (if unat i < length data then Ret (data ! unat i) else Panics)"

definition range_of :: "bytes \<Rightarrow> u64 \<Rightarrow> u64 \<Rightarrow> bytes wasm_result" where
  "range_of data a b =
     (if a \<le> b \<and> unat b \<le> length data then Ret (slice data (unat a) (unat b - unat a)) else Panics)"

text \<open>\<open>memory[off..off + bs.len()].copy_from_slice(bs)\<close>\<close>

definition wasm_write :: "bytes \<Rightarrow> u64 \<Rightarrow> bytes \<Rightarrow> bytes wasm_result" where
  "wasm_write memory off bs =
     (let e = off + of_nat (length bs)
      in if off \<le> e \<and> unat e \<le> length memory \<and> unat e - unat off = length bs
         then Ret (put_bytes memory (unat off) bs) else Panics)"

section \<open>LEB128\<close>

text \<open>The value and the number of bytes read.\<close>

fun leb_unsigned :: "bytes \<Rightarrow> nat \<Rightarrow> u64 \<Rightarrow> nat \<Rightarrow> (u64 \<times> nat) option" where
  "leb_unsigned [] shift result n = None"
| "leb_unsigned (b # bs) shift result n =
     (let result = result OR push_bit shift (ucast (b AND 0x7F))
      in if b AND 0x80 = 0 then Some (result, n + 1)
         else if shift + 7 \<ge> 64 then None
         else leb_unsigned bs (shift + 7) result (n + 1))"

definition read_leb128 :: "bytes \<Rightarrow> u64 \<Rightarrow> (u64 \<times> u64) option" where
  "read_leb128 data off =
     map_option (\<lambda>(v, n). (v, off + of_nat n)) (leb_unsigned (drop (unat off) data) 0 0 0)"

text \<open>The signed reader has no limit on the length; the shift amount is taken modulo 64.\<close>

fun leb_signed :: "bytes \<Rightarrow> nat \<Rightarrow> u64 \<Rightarrow> nat \<Rightarrow> (u64 \<times> nat) option" where
  "leb_signed [] shift result n = None"
| "leb_signed (b # bs) shift result n =
     (let result = result OR push_bit (shift mod 64) (ucast (b AND 0x7F)); shift = shift + 7
      in if b AND 0x80 = 0
         then Some (if shift < 64 \<and> b AND 0x40 \<noteq> 0 then result OR push_bit shift (- 1) else result, n + 1)
         else leb_signed bs shift result (n + 1))"

definition read_leb128_signed :: "bytes \<Rightarrow> u64 \<Rightarrow> (u64 \<times> u64) option" where
  "read_leb128_signed data off =
     map_option (\<lambda>(v, n). (v, off + of_nat n)) (leb_signed (drop (unat off) data) 0 0 0)"

section \<open>Modules\<close>

record local_decl =
  ld_count :: u32
  ld_val_type :: u8

datatype wasm_function =
    Imported (imp_module: string) (imp_name: string) (fn_type: u64)
  | Internal (fn_type: u64) (fn_locals: "local_decl list") (fn_code: bytes)

record wasm_instance =
  wi_memory :: bytes
  wi_functions :: "wasm_function list"
  wi_type_sigs :: "(u64 \<times> u64) list"
  wi_start :: "u64 option"

text \<open>What the sections have given so far.\<close>

record wasm_parse =
  wp_functions :: "wasm_function list"
  wp_pages :: u64
  wp_segments :: "(u64 \<times> bytes) list"
  wp_start :: "u64 option"
  wp_bodies :: "(local_decl list \<times> bytes) list"
  wp_sigs :: "(u64 \<times> u64) list"
  wp_types :: "u64 list"

definition wp_init :: wasm_parse where
  "wp_init = \<lparr>wp_functions = [], wp_pages = 0, wp_segments = [], wp_start = None, wp_bodies = [],
              wp_sigs = [], wp_types = []\<rparr>"

definition wasm_can_load :: "bytes \<Rightarrow> bool" where
  "wasm_can_load binary \<longleftrightarrow> 4 \<le> length binary \<and> binary ! 0 = 0x00 \<and> binary ! 1 = 0x61 \<and> binary ! 2 = 0x73 \<and> binary ! 3 = 0x6D"

definition leb :: "bytes \<Rightarrow> u64 \<Rightarrow> string \<Rightarrow> (u64 \<times> u64) wasm_result" where
  "leb data off e = or_err (read_leb128 data off) e"

definition type_entry :: "bytes \<Rightarrow> u64 \<times> wasm_parse \<Rightarrow> (u64 \<times> wasm_parse) wasm_result" where
  "type_entry data s =
     (let (off, p) = s
      in if unat off \<ge> length data \<or> data ! unat off \<noteq> 0x60 then Fail ''Invalid type form''
         else rbind (leb data (off + 1) ''Failed to read param count'') (\<lambda>(params, off).
              rbind (leb data (off + params) ''Failed to read ret count'') (\<lambda>(rets, off).
              Ret (off + rets, p\<lparr>wp_sigs := wp_sigs p @ [(params, rets)]\<rparr>))))"

text \<open>A name: its length and its bytes, checked to be UTF-8.\<close>

definition read_name :: "bytes \<Rightarrow> u64 \<Rightarrow> string \<Rightarrow> string \<Rightarrow> (string \<times> u64) wasm_result" where
  "read_name data off e_len e_name =
     rbind (leb data off e_len) (\<lambda>(len, off).
     rbind (range_of data off (off + len)) (\<lambda>bs.
     rbind (or_err (from_utf8 bs) e_name) (\<lambda>name.
     Ret (name, off + len))))"

definition import_entry :: "bytes \<Rightarrow> u64 \<times> wasm_parse \<Rightarrow> (u64 \<times> wasm_parse) wasm_result" where
  "import_entry data s =
     (let (off, p) = s in
      rbind (read_name data off ''Failed to read mod length'' ''Invalid module name'') (\<lambda>(module, off).
      rbind (read_name data off ''Failed to read field length'' ''Invalid field name'') (\<lambda>(field, off).
      rbind (byte_at data off) (\<lambda>kind.
      let off = off + 1 in
      if kind = 0x00 then
        rbind (leb data off ''Failed to read type index'') (\<lambda>(t, off).
        Ret (off, p\<lparr>wp_functions := wp_functions p @ [Imported module field t]\<rparr>))
      else if kind = 0x01 then
        rbind (byte_at data off) (\<lambda>_.
        rbind (leb data (off + 1) ''Failed to read table min'') (\<lambda>(_, off). Ret (off, p)))
      else if kind = 0x02 then
        rbind (byte_at data off) (\<lambda>_.
        rbind (leb data (off + 1) ''Failed to read memory min'') (\<lambda>(mn, off). Ret (off, p\<lparr>wp_pages := mn\<rparr>)))
      else
        rbind (byte_at data off) (\<lambda>_. rbind (byte_at data (off + 1)) (\<lambda>_. Ret (off + 2, p)))))))"

definition function_entry :: "bytes \<Rightarrow> u64 \<times> wasm_parse \<Rightarrow> (u64 \<times> wasm_parse) wasm_result" where
  "function_entry data s =
     (let (off, p) = s in
      rbind (leb data off ''Failed to read type index'') (\<lambda>(t, off). Ret (off, p\<lparr>wp_types := wp_types p @ [t]\<rparr>)))"

definition memory_entry :: "bytes \<Rightarrow> u64 \<times> wasm_parse \<Rightarrow> (u64 \<times> wasm_parse) wasm_result" where
  "memory_entry data s =
     (let (off, p) = s in
      rbind (byte_at data off) (\<lambda>flags.
      rbind (leb data (off + 1) ''Failed to read memory min'') (\<lambda>(mn, off).
      let p = p\<lparr>wp_pages := mn\<rparr> in
      if flags AND 1 \<noteq> 0 then
        rbind (leb data off ''Failed to read memory max'') (\<lambda>(_, off). Ret (off, p))
      else Ret (off, p))))"

definition export_entry :: "bytes \<Rightarrow> u64 \<times> wasm_parse \<Rightarrow> (u64 \<times> wasm_parse) wasm_result" where
  "export_entry data s =
     (let (off, p) = s in
      rbind (read_name data off ''Failed to read export name length'' ''Invalid export name'') (\<lambda>(name, off).
      rbind (byte_at data off) (\<lambda>kind.
      rbind (leb data (off + 1) ''Failed to read export index'') (\<lambda>(idx, off).
      Ret (off, if kind = 0x00 \<and> (name = ''_start'' \<or> name = ''main'') then p\<lparr>wp_start := Some idx\<rparr> else p)))))"

definition local_entry :: "bytes \<Rightarrow> u64 \<times> local_decl list \<Rightarrow> (u64 \<times> local_decl list) wasm_result" where
  "local_entry data s =
     (let (off, decls) = s in
      rbind (leb data off ''Failed to read local count'') (\<lambda>(count, off).
      rbind (byte_at data off) (\<lambda>t.
      Ret (off + 1, decls @ [\<lparr>ld_count = ucast count, ld_val_type = t\<rparr>]))))"

definition code_entry :: "bytes \<Rightarrow> u64 \<times> wasm_parse \<Rightarrow> (u64 \<times> wasm_parse) wasm_result" where
  "code_entry data s =
     (let (off, p) = s in
      rbind (leb data off ''Failed to read body size'') (\<lambda>(body_size, off).
      let body_end = off + body_size in
      rbind (leb data off ''Failed to read locals count'') (\<lambda>(locals_count, off).
      rbind (times (unat locals_count) (local_entry data) (off, [])) (\<lambda>(off, decls).
      rbind (range_of data off body_end) (\<lambda>code.
      Ret (body_end, p\<lparr>wp_bodies := wp_bodies p @ [(decls, code)]\<rparr>))))))"

definition data_entry :: "bytes \<Rightarrow> u64 \<times> wasm_parse \<Rightarrow> (u64 \<times> wasm_parse) wasm_result" where
  "data_entry data s =
     (let (off, p) = s in
      rbind (leb data off ''Failed to read data flags'') (\<lambda>(_, off).
      rbind (byte_at data off) (\<lambda>b.
      if b \<noteq> 0x41 then Fail ''Only i32.const offset is supported in data section''
      else
        rbind (or_err (read_leb128_signed data (off + 1)) ''Failed to read offset value'') (\<lambda>(mem_off, off).
        rbind (byte_at data off) (\<lambda>b.
        if b \<noteq> 0x0B then Fail ''Expected end opcode after offset expression''
        else
          rbind (leb data (off + 1) ''Failed to read data segment length'') (\<lambda>(len, off).
          rbind (range_of data off (off + len)) (\<lambda>segment.
          Ret (off + len, p\<lparr>wp_segments := wp_segments p @ [(mem_off, segment)]\<rparr>))))))))"

definition counted ::
  "bytes \<Rightarrow> string \<Rightarrow> (bytes \<Rightarrow> u64 \<times> wasm_parse \<Rightarrow> (u64 \<times> wasm_parse) wasm_result) \<Rightarrow> u64 \<times> wasm_parse \<Rightarrow> wasm_parse wasm_result" where
  "counted data e entry s =
     (let (off, p) = s in
      rbind (leb data off e) (\<lambda>(count, off).
      rbind (times (unat count) (entry data) (off, p)) (\<lambda>(_, p). Ret p)))"

definition parse_section :: "bytes \<Rightarrow> u8 \<Rightarrow> u64 \<times> wasm_parse \<Rightarrow> wasm_parse wasm_result" where
  "parse_section data sec_id s =
     (if sec_id = 1 then counted data ''Failed to read type count'' type_entry s
      else if sec_id = 2 then counted data ''Failed to read import count'' import_entry s
      else if sec_id = 3 then counted data ''Failed to read func count'' function_entry s
      else if sec_id = 5 then counted data ''Failed to read memory count'' memory_entry s
      else if sec_id = 7 then counted data ''Failed to read export count'' export_entry s
      else if sec_id = 8 then
        rbind (leb data (fst s) ''Failed to read start index'') (\<lambda>(idx, _). Ret ((snd s)\<lparr>wp_start := Some idx\<rparr>))
      else if sec_id = 10 then counted data ''Failed to read code count'' code_entry s
      else if sec_id = 11 then counted data ''Failed to read data count'' data_entry s
      else Ret (snd s))"

primrec parse_sections :: "nat \<Rightarrow> bytes \<Rightarrow> u64 \<Rightarrow> wasm_parse \<Rightarrow> wasm_parse wasm_result" where
  "parse_sections 0 data off p = OutOfFuel"
| "parse_sections (Suc fuel) data off p =
     (if unat off \<ge> length data then Ret p
      else
        let sec_id = data ! unat off in
        rbind (leb data (off + 1) ''Failed to read section length'') (\<lambda>(sec_len, off).
        let sec_end = off + sec_len in
        if unat sec_end > length data then Fail ''Section length out of bounds''
        else rbind (parse_section data sec_id (off, p)) (parse_sections fuel data sec_end)))"

fun load_segments :: "(u64 \<times> bytes) list \<Rightarrow> bytes \<Rightarrow> bytes wasm_result" where
  "load_segments [] memory = Ret memory"
| "load_segments ((mem_off, segment) # segs) memory =
     (let e = mem_off + of_nat (length segment)
      in if unat e > length memory then Fail ''Data segment exceeds memory boundary''
         else rbind (wasm_write memory mem_off segment) (load_segments segs))"

text \<open>\<open>heap_ok n\<close> says whether the heap has \<open>n\<close> bytes for the memory of the instance.\<close>

definition parse_wasm :: "nat \<Rightarrow> (u64 \<Rightarrow> bool) \<Rightarrow> bytes \<Rightarrow> wasm_instance wasm_result" where
  "parse_wasm fuel heap_ok data =
     (if length data < 8 then Fail ''Binary too small''
      else if take 4 data \<noteq> [0x00, 0x61, 0x73, 0x6D] then Fail ''Invalid magic header''
      else if slice data 4 4 \<noteq> [1, 0, 0, 0] then Fail ''Unsupported WASM version''
      else
        rbind (parse_sections fuel data 8 wp_init) (\<lambda>p.
        if length (wp_types p) \<noteq> length (wp_bodies p) then Fail ''Function type / code body count mismatch''
        else
          let functions = wp_functions p @ map (\<lambda>(t, decls, code). Internal t decls code) (zip (wp_types p) (wp_bodies p));
              size = wp_pages p * 64 * 1024
          in if \<not> heap_ok size then Panics
             else rbind (load_segments (wp_segments p) (replicate (unat size) 0)) (\<lambda>memory.
                  Ret \<lparr>wi_memory = memory, wi_functions = functions, wi_type_sigs = wp_sigs p, wi_start = wp_start p\<rparr>)))"

section \<open>Skipping instructions\<close>

definition skip_instruction_args :: "bytes \<Rightarrow> u64 \<Rightarrow> u64 wasm_result" where
  "skip_instruction_args code pc =
     (if unat pc \<ge> length code then Ret pc
      else
        let op = code ! unat pc; pc = pc + 1;
            skip = (\<lambda>e pc. rbind (leb code pc e) (\<lambda>(_, pc). Ret pc))
        in if op \<in> {0x02, 0x03, 0x04} then Ret (if unat pc < length code then pc + 1 else pc)
           else if op \<in> {0x0C, 0x0D} then skip ''Failed to read label index'' pc
           else if op = 0x10 then skip ''Failed to read call index'' pc
           else if op \<in> {0x20, 0x21, 0x22} then skip ''Failed to read local index'' pc
           else if op = 0x36 then rbind (skip ''Failed to read alignment'' pc) (skip ''Failed to read offset'')
           else if op = 0x41 then
             rbind (or_err (read_leb128_signed code pc) ''Failed to read const value'') (\<lambda>(_, pc). Ret pc)
           else Ret pc)"

text \<open>Each round advances \<open>pc\<close>; the fuel is the length of the code and one more round.\<close>

primrec find_end :: "nat \<Rightarrow> bytes \<Rightarrow> u64 \<Rightarrow> nat \<Rightarrow> u64 wasm_result" where
  "find_end 0 code pc depth = OutOfFuel"
| "find_end (Suc fuel) code pc depth =
     (if unat pc \<ge> length code then Fail ''Matching end not found''
      else
        let op = code ! unat pc
        in if op \<in> {0x02, 0x03, 0x04} then
             let pc = pc + 1 in find_end fuel code (if unat pc < length code then pc + 1 else pc) (depth + 1)
           else if op = 0x0B then
             (if depth - 1 = 0 then Ret pc else find_end fuel code (pc + 1) (depth - 1))
           else rbind (skip_instruction_args code pc) (\<lambda>pc. find_end fuel code pc depth))"

definition find_matching_end :: "bytes \<Rightarrow> u64 \<Rightarrow> u64 wasm_result" where
  "find_matching_end code pc = find_end (length code + 1) code pc 1"

end
