(* ===== verification/Ziqa_Wasm_Exec.thy ===== *)
theory Ziqa_Wasm_Exec
  imports Ziqa_Wasm
begin

text \<open>
  The interpreter of \<open>abi/wasm/mod.rs\<close>: the host functions, one definition per group of
  instructions, the instruction loop, calls, and the entry point that runs the current process's
  module and exits the process.
  The operand stack and the stack of blocks have their top at the head.  The loop has fuel for its
  rounds and calls have fuel for their depth; console, keyboard and process exit are operations on
  a host state.
\<close>

record 'h host_ops =
  h_print :: "u8 \<Rightarrow> 'h \<Rightarrow> 'h"
  h_read_stdin :: "nat \<Rightarrow> 'h \<Rightarrow> bytes \<times> 'h"
  h_exit :: "int \<Rightarrow> 'h \<Rightarrow> 'h option"

text \<open>An error comes with the host state at that point.\<close>

type_synonym ('a, 'h) hrun = "('a, string \<times> 'h) run"
type_synonym 'h wres = "(u32 option \<times> wasm_instance \<times> 'h, 'h) hrun"

fun lift :: "'h \<Rightarrow> 'a wasm_result \<Rightarrow> ('a, 'h) hrun" where
  "lift h (Ret x) = Ret x"
| "lift h (Fail e) = Fail (e, h)"
| "lift h Panics = Panics"
| "lift h OutOfFuel = OutOfFuel"

section \<open>Host functions\<close>

definition arg_at :: "u32 list \<Rightarrow> nat \<Rightarrow> u32 wasm_result" where
  "arg_at args i = (if i < length args then Ret (args ! i) else Panics)"

definition as_usize :: "u32 \<Rightarrow> u64" where
  "as_usize w = scast w"

definition read_u32 :: "bytes \<Rightarrow> u64 \<Rightarrow> u64 wasm_result" where
  "read_u32 memory off =
     rbind (byte_at memory off) (\<lambda>a. rbind (byte_at memory (off + 1)) (\<lambda>b.
     rbind (byte_at memory (off + 2)) (\<lambda>c. rbind (byte_at memory (off + 3)) (\<lambda>d.
     Ret (le_word [a, b, c, d])))))"

definition too_long :: "bytes \<Rightarrow> u64 \<Rightarrow> bool" where
  "too_long memory e \<longleftrightarrow> unat e > length memory"

text \<open>The pointer and the length of an io vector, with the bounds checks of the code.\<close>

definition read_iov :: "bytes \<Rightarrow> u64 \<Rightarrow> nat \<Rightarrow> (u64 \<times> u64) wasm_result" where
  "read_iov memory iovs_ptr i =
     (let off = iovs_ptr + of_nat i * 8
      in if too_long memory (off + 8) then Fail ''Memory read out of bounds on iovs''
         else rbind (read_u32 memory off) (\<lambda>buf_ptr. rbind (read_u32 memory (off + 4)) (\<lambda>buf_len.
              if too_long memory (buf_ptr + buf_len) then Fail ''Memory read out of bounds on buffer''
              else Ret (buf_ptr, buf_len))))"

definition fd_write_iov ::
  "'h host_ops \<Rightarrow> bytes \<Rightarrow> u32 \<Rightarrow> u64 \<Rightarrow> nat \<times> u32 \<times> 'h \<Rightarrow> (nat \<times> u32 \<times> 'h, 'h) hrun" where
  "fd_write_iov ops memory fd iovs_ptr s =
     (let (i, nwritten, h) = s in
      rbind (lift h (read_iov memory iovs_ptr i)) (\<lambda>(buf_ptr, buf_len).
      rbind (lift h (range_of memory buf_ptr (buf_ptr + buf_len))) (\<lambda>bs.
      Ret (i + 1, nwritten + ucast buf_len, if fd = 1 \<or> fd = 2 then foldl (\<lambda>h b. h_print ops b h) h bs else h))))"

definition fd_write :: "'h host_ops \<Rightarrow> wasm_instance \<Rightarrow> u32 list \<Rightarrow> 'h \<Rightarrow> 'h wres" where
  "fd_write ops inst args h =
     rbind (lift h (arg_at args 0)) (\<lambda>fd. rbind (lift h (arg_at args 1)) (\<lambda>iovs_ptr.
     rbind (lift h (arg_at args 2)) (\<lambda>iovs_len. rbind (lift h (arg_at args 3)) (\<lambda>nwritten_ptr.
     rbind (times (unat (as_usize iovs_len)) (fd_write_iov ops (wi_memory inst) fd (as_usize iovs_ptr)) (0, 0, h))
       (\<lambda>(_, nwritten, h).
     if too_long (wi_memory inst) (as_usize nwritten_ptr + 4) then Fail (''Memory write out of bounds on nwritten'', h)
     else rbind (lift h (wasm_write (wi_memory inst) (as_usize nwritten_ptr) (le_bytes 4 nwritten))) (\<lambda>memory.
          Ret (Some 0, inst\<lparr>wi_memory := memory\<rparr>, h)))))))"

text \<open>The loop of \<open>fd_read\<close> over the io vectors; it stops at a short read.\<close>

primrec fd_read_iovs ::
  "'h host_ops \<Rightarrow> u32 \<Rightarrow> u64 \<Rightarrow> nat \<Rightarrow> nat \<Rightarrow> u32 \<Rightarrow> bytes \<Rightarrow> 'h \<Rightarrow> (u32 \<times> bytes \<times> 'h, 'h) hrun" where
  "fd_read_iovs ops fd iovs_ptr 0 i nread memory h = Ret (nread, memory, h)"
| "fd_read_iovs ops fd iovs_ptr (Suc n) i nread memory h =
     rbind (lift h (read_iov memory iovs_ptr i)) (\<lambda>(buf_ptr, buf_len).
     if fd = 0 then
       let (bs, h) = h_read_stdin ops (unat buf_len) h
       in if length bs > unat buf_len then Panics
          else rbind (lift h (wasm_write memory buf_ptr bs)) (\<lambda>memory.
               let nread = nread + of_nat (length bs)
               in if length bs < unat buf_len then Ret (nread, memory, h)
                  else fd_read_iovs ops fd iovs_ptr n (i + 1) nread memory h)
     else fd_read_iovs ops fd iovs_ptr n (i + 1) nread memory h)"

definition fd_read :: "'h host_ops \<Rightarrow> wasm_instance \<Rightarrow> u32 list \<Rightarrow> 'h \<Rightarrow> 'h wres" where
  "fd_read ops inst args h =
     rbind (lift h (arg_at args 0)) (\<lambda>fd. rbind (lift h (arg_at args 1)) (\<lambda>iovs_ptr.
     rbind (lift h (arg_at args 2)) (\<lambda>iovs_len. rbind (lift h (arg_at args 3)) (\<lambda>nread_ptr.
     rbind (fd_read_iovs ops fd (as_usize iovs_ptr) (unat (as_usize iovs_len)) 0 0 (wi_memory inst) h)
       (\<lambda>(nread, memory, h).
     if too_long memory (as_usize nread_ptr + 4) then Fail (''Memory write out of bounds on nread'', h)
     else rbind (lift h (wasm_write memory (as_usize nread_ptr) (le_bytes 4 nread))) (\<lambda>memory.
          Ret (Some 0, inst\<lparr>wi_memory := memory\<rparr>, h)))))))"

definition args_sizes_get :: "wasm_instance \<Rightarrow> u32 list \<Rightarrow> 'h \<Rightarrow> 'h wres" where
  "args_sizes_get inst args h =
     rbind (lift h (arg_at args 0)) (\<lambda>argc_ptr. rbind (lift h (arg_at args 1)) (\<lambda>size_ptr.
     if too_long (wi_memory inst) (as_usize argc_ptr + 4) \<or> too_long (wi_memory inst) (as_usize size_ptr + 4)
     then Fail (''Memory write out of bounds on args_sizes_get'', h)
     else rbind (lift h (wasm_write (wi_memory inst) (as_usize argc_ptr) (le_bytes 4 (2 :: u32)))) (\<lambda>memory.
          rbind (lift h (wasm_write memory (as_usize size_ptr) (le_bytes 4 (20 :: u32)))) (\<lambda>memory.
          Ret (Some 0, inst\<lparr>wi_memory := memory\<rparr>, h)))))"

fun put_args :: "string list \<Rightarrow> u64 \<Rightarrow> u64 \<Rightarrow> bytes \<Rightarrow> bytes wasm_result" where
  "put_args [] ptr_off buf memory = Ret memory"
| "put_args (a # as) ptr_off buf memory =
     (let bs = ascii a; len = of_nat (length bs)
      in if too_long memory (buf + len + 1) then Fail ''Memory write out of bounds on args_get buffer''
         else rbind (wasm_write memory buf bs) (\<lambda>memory.
              rbind (if unat (buf + len) < length memory then Ret (memory[unat (buf + len) := 0]) else Panics) (\<lambda>memory.
              if too_long memory (ptr_off + 4) then Fail ''Memory write out of bounds on args_get argv''
              else rbind (wasm_write memory ptr_off (le_bytes 4 (ucast buf :: u32))) (\<lambda>memory.
                   put_args as (ptr_off + 4) (buf + (len + 1)) memory))))"

definition args_get :: "wasm_instance \<Rightarrow> u32 list \<Rightarrow> 'h \<Rightarrow> 'h wres" where
  "args_get inst args h =
     rbind (lift h (arg_at args 0)) (\<lambda>argv_ptr. rbind (lift h (arg_at args 1)) (\<lambda>buf_ptr.
     rbind (lift h (put_args [''hello.wasm'', ''test-arg''] (as_usize argv_ptr) (as_usize buf_ptr) (wi_memory inst))) (\<lambda>memory.
     Ret (Some 0, inst\<lparr>wi_memory := memory\<rparr>, h))))"

definition proc_exit :: "'h host_ops \<Rightarrow> wasm_instance \<Rightarrow> u32 list \<Rightarrow> 'h \<Rightarrow> 'h wres" where
  "proc_exit ops inst args h =
     rbind (lift h (arg_at args 0)) (\<lambda>status. (case h_exit ops (sint status) h of None \<Rightarrow> Panics | Some h \<Rightarrow> Ret (Some 0, inst, h)))"

definition WASI :: string where "WASI = ''wasi_snapshot_preview1''"

definition call_import :: "'h host_ops \<Rightarrow> string \<Rightarrow> string \<Rightarrow> wasm_instance \<Rightarrow> u32 list \<Rightarrow> 'h \<Rightarrow> 'h wres" where
  "call_import ops module name inst args h =
     (if module = WASI \<and> name = ''fd_write'' then fd_write ops inst args h
      else if module = WASI \<and> name = ''fd_read'' then fd_read ops inst args h
      else if module = WASI \<and> name = ''args_sizes_get'' then args_sizes_get inst args h
      else if module = WASI \<and> name = ''args_get'' then args_get inst args h
      else if module = WASI \<and> name = ''proc_exit'' then proc_exit ops inst args h
      else Fail (''Unsupported host function import'', h))"

section \<open>Instructions\<close>

record control_block =
  cb_op :: u8
  cb_start :: u64
  cb_end :: u64

record 'h wstate =
  ws_pc :: u64
  ws_stack :: "u32 list"
  ws_locals :: "u32 list"
  ws_ctrl :: "control_block list"
  ws_inst :: wasm_instance
  ws_host :: 'h

text \<open>An instruction goes on or ends the function.\<close>

datatype 'h stepped = Next "'h wstate" | Finish "'h wstate"

definition pop :: "'h wstate \<Rightarrow> string \<Rightarrow> (u32 \<times> 'h wstate) wasm_result" where
  "pop s e = (case ws_stack s of [] \<Rightarrow> Fail e | v # st \<Rightarrow> Ret (v, s\<lparr>ws_stack := st\<rparr>))"

definition push :: "u32 \<Rightarrow> 'h wstate \<Rightarrow> 'h wstate" where
  "push v s = s\<lparr>ws_stack := v # ws_stack s\<rparr>"

definition push_ctrl :: "u8 \<Rightarrow> u64 \<Rightarrow> u64 \<Rightarrow> 'h wstate \<Rightarrow> 'h wstate" where
  "push_ctrl op start e s = s\<lparr>ws_ctrl := \<lparr>cb_op = op, cb_start = start, cb_end = e\<rparr> # ws_ctrl s\<rparr>"

definition op_block :: "bytes \<Rightarrow> u8 \<Rightarrow> 'h wstate \<Rightarrow> 'h stepped wasm_result" where
  "op_block code op s =
     rbind (byte_at code (ws_pc s)) (\<lambda>_.
     let pc = ws_pc s + 1 in
     rbind (find_matching_end code pc) (\<lambda>e. Ret (Next (push_ctrl op pc e (s\<lparr>ws_pc := pc\<rparr>)))))"

primrec scan_else :: "nat \<Rightarrow> bytes \<Rightarrow> u64 \<Rightarrow> int \<Rightarrow> u64 \<Rightarrow> u64 option wasm_result" where
  "scan_else 0 code end_pc depth scan = OutOfFuel"
| "scan_else (Suc fuel) code end_pc depth scan =
     (if scan \<ge> end_pc then Ret None
      else
        rbind (byte_at code scan) (\<lambda>op.
        if op \<in> {0x02, 0x03, 0x04} then
          let scan = scan + 1 in scan_else fuel code end_pc (depth + 1) (if scan < end_pc then scan + 1 else scan)
        else if op = 0x0B then scan_else fuel code end_pc (depth - 1) (scan + 1)
        else if op = 0x05 \<and> depth = 1 then Ret (Some scan)
        else rbind (skip_instruction_args code scan) (scan_else fuel code end_pc depth)))"

definition op_if :: "bytes \<Rightarrow> 'h wstate \<Rightarrow> 'h stepped wasm_result" where
  "op_if code s =
     rbind (pop s ''Stack underflow on if condition'') (\<lambda>(cond, s).
     rbind (byte_at code (ws_pc s)) (\<lambda>_.
     let pc = ws_pc s + 1 in
     rbind (find_matching_end code pc) (\<lambda>e.
     rbind (scan_else (length code + 1) code e 1 pc) (\<lambda>else_pc.
     Ret (Next (if cond \<noteq> 0 then push_ctrl 0x04 pc e (s\<lparr>ws_pc := pc\<rparr>)
                else case else_pc of
                       Some epc \<Rightarrow> push_ctrl 0x05 (epc + 1) e (s\<lparr>ws_pc := epc + 1\<rparr>)
                     | None \<Rightarrow> s\<lparr>ws_pc := e\<rparr>))))))"

definition op_else :: "'h wstate \<Rightarrow> 'h stepped wasm_result" where
  "op_else s =
     (case ws_ctrl s of
        [] \<Rightarrow> Fail ''Else without matching if''
      | fr # frs \<Rightarrow> Ret (Next (s\<lparr>ws_pc := cb_end fr, ws_ctrl := frs\<rparr>)))"

definition op_end :: "'h wstate \<Rightarrow> 'h stepped wasm_result" where
  "op_end s = (case ws_ctrl s of [] \<Rightarrow> Ret (Finish s) | fr # frs \<Rightarrow> Ret (Next (s\<lparr>ws_ctrl := frs\<rparr>)))"

definition branch :: "u64 \<Rightarrow> 'h wstate \<Rightarrow> 'h stepped wasm_result" where
  "branch label_idx s =
     (if unat label_idx \<ge> length (ws_ctrl s) then Fail ''Branch label index out of bounds''
      else
        let target = ws_ctrl s ! unat label_idx
        in Ret (Next (if cb_op target = 0x03
                      then s\<lparr>ws_pc := cb_start target, ws_ctrl := drop (unat label_idx) (ws_ctrl s)\<rparr>
                      else s\<lparr>ws_pc := cb_end target, ws_ctrl := drop (unat label_idx + 1) (ws_ctrl s)\<rparr>)))"

definition op_br :: "bytes \<Rightarrow> 'h wstate \<Rightarrow> 'h stepped wasm_result" where
  "op_br code s = rbind (leb code (ws_pc s) ''Failed to read br label index'') (\<lambda>(l, _). branch l s)"

definition op_br_if :: "bytes \<Rightarrow> 'h wstate \<Rightarrow> 'h stepped wasm_result" where
  "op_br_if code s =
     rbind (leb code (ws_pc s) ''Failed to read br_if label index'') (\<lambda>(l, pc).
     rbind (pop (s\<lparr>ws_pc := pc\<rparr>) ''Stack underflow on br_if condition'') (\<lambda>(cond, s).
     if cond \<noteq> 0 then branch l s else Ret (Next s)))"

primrec pop_args :: "nat \<Rightarrow> 'h wstate \<Rightarrow> u32 list \<Rightarrow> (u32 list \<times> 'h wstate) wasm_result" where
  "pop_args 0 s acc = Ret (acc, s)"
| "pop_args (Suc n) s acc = rbind (pop s ''Stack underflow on call'') (\<lambda>(v, s). pop_args n s (v # acc))"

text \<open>\<open>call\<close> runs the function with an index on arguments.\<close>

definition op_call ::
  "(wasm_instance \<Rightarrow> u64 \<Rightarrow> u32 list \<Rightarrow> 'h \<Rightarrow> 'h wres) \<Rightarrow> bytes \<Rightarrow> 'h wstate \<Rightarrow> ('h stepped, 'h) hrun" where
  "op_call call code s =
     rbind (lift (ws_host s) (leb code (ws_pc s) ''Failed to read call index'')) (\<lambda>(target, pc).
     let s = s\<lparr>ws_pc := pc\<rparr>; fs = wi_functions (ws_inst s); sigs = wi_type_sigs (ws_inst s) in
     if unat target \<ge> length fs then Panics
     else let t = fn_type (fs ! unat target) in
       if unat t \<ge> length sigs then Panics
       else
         rbind (lift (ws_host s) (pop_args (unat (fst (sigs ! unat t))) s [])) (\<lambda>(args, s).
         rbind (call (ws_inst s) target args (ws_host s)) (\<lambda>(res, inst, h).
         let s = s\<lparr>ws_inst := inst, ws_host := h\<rparr>
         in Ret (Next (case res of None \<Rightarrow> s | Some r \<Rightarrow> push r s)))))"

definition op_local_get :: "bytes \<Rightarrow> 'h wstate \<Rightarrow> 'h stepped wasm_result" where
  "op_local_get code s =
     rbind (leb code (ws_pc s) ''Failed to read local index'') (\<lambda>(idx, pc).
     if unat idx < length (ws_locals s) then Ret (Next (push (ws_locals s ! unat idx) (s\<lparr>ws_pc := pc\<rparr>)))
     else Fail ''Local index out of bounds'')"

definition op_local_set :: "bytes \<Rightarrow> 'h wstate \<Rightarrow> 'h stepped wasm_result" where
  "op_local_set code s =
     rbind (leb code (ws_pc s) ''Failed to read local index'') (\<lambda>(idx, pc).
     rbind (pop (s\<lparr>ws_pc := pc\<rparr>) ''Stack underflow on local.set'') (\<lambda>(v, s).
     if unat idx \<ge> length (ws_locals s) then Fail ''Local index out of bounds''
     else Ret (Next (s\<lparr>ws_locals := (ws_locals s)[unat idx := v]\<rparr>))))"

definition store_i32 :: "u64 \<Rightarrow> 'h wstate \<Rightarrow> 'h stepped wasm_result" where
  "store_i32 store_off s =
     rbind (pop s ''Stack underflow on store val'') (\<lambda>(v, s).
     rbind (pop s ''Stack underflow on store addr'') (\<lambda>(addr, s).
     let target = as_usize addr + store_off; memory = wi_memory (ws_inst s) in
     if too_long memory (target + 4) then Fail ''Memory store out of bounds''
     else rbind (wasm_write memory target (le_bytes 4 v)) (\<lambda>memory.
          Ret (Next (s\<lparr>ws_inst := (ws_inst s)\<lparr>wi_memory := memory\<rparr>\<rparr>)))))"

definition op_store :: "bytes \<Rightarrow> 'h wstate \<Rightarrow> 'h stepped wasm_result" where
  "op_store code s =
     rbind (leb code (ws_pc s) ''Failed to read store alignment'') (\<lambda>(_, pc).
     rbind (leb code pc ''Failed to read store offset'') (\<lambda>(store_off, pc). store_i32 store_off (s\<lparr>ws_pc := pc\<rparr>)))"

definition op_const :: "bytes \<Rightarrow> 'h wstate \<Rightarrow> 'h stepped wasm_result" where
  "op_const code s =
     rbind (or_err (read_leb128_signed code (ws_pc s)) ''Failed to read i32.const'') (\<lambda>(v, pc).
     Ret (Next (push (ucast v) (s\<lparr>ws_pc := pc\<rparr>))))"

definition op_arith :: "(u32 \<Rightarrow> u32 \<Rightarrow> u32) \<Rightarrow> string \<Rightarrow> 'h wstate \<Rightarrow> 'h stepped wasm_result" where
  "op_arith f e s =
     rbind (pop s e) (\<lambda>(b, s). rbind (pop s e) (\<lambda>(a, s). Ret (Next (push (f a b) s))))"

definition op_drop :: "'h wstate \<Rightarrow> 'h stepped wasm_result" where
  "op_drop s = rbind (pop s ''Stack underflow on drop'') (\<lambda>(_, s). Ret (Next s))"

definition plain_op :: "bytes \<Rightarrow> u8 \<Rightarrow> 'h wstate \<Rightarrow> 'h stepped wasm_result" where
  "plain_op code op s =
     (if op = 0x01 then Ret (Next s)
      else if op = 0x02 \<or> op = 0x03 then op_block code op s
      else if op = 0x04 then op_if code s
      else if op = 0x05 then op_else s
      else if op = 0x0B then op_end s
      else if op = 0x0C then op_br code s
      else if op = 0x0D then op_br_if code s
      else if op = 0x20 then op_local_get code s
      else if op = 0x21 then op_local_set code s
      else if op = 0x36 then op_store code s
      else if op = 0x41 then op_const code s
      else if op = 0x6A then op_arith (+) ''Stack underflow on add'' s
      else if op = 0x6B then op_arith (-) ''Stack underflow on sub'' s
      else if op = 0x6C then op_arith (*) ''Stack underflow on mul'' s
      else if op = 0x1A then op_drop s
      else Fail ''Unsupported instruction'')"

definition exec_op ::
  "(wasm_instance \<Rightarrow> u64 \<Rightarrow> u32 list \<Rightarrow> 'h \<Rightarrow> 'h wres) \<Rightarrow> bytes \<Rightarrow> u8 \<Rightarrow> 'h wstate \<Rightarrow> ('h stepped, 'h) hrun" where
  "exec_op call code op s =
     (if op = 0x10 then op_call call code s else lift (ws_host s) (plain_op code op s))"

primrec wasm_loop ::
  "nat \<Rightarrow> (wasm_instance \<Rightarrow> u64 \<Rightarrow> u32 list \<Rightarrow> 'h \<Rightarrow> 'h wres) \<Rightarrow> bytes \<Rightarrow> 'h wstate \<Rightarrow> ('h wstate, 'h) hrun" where
  "wasm_loop 0 call code s = OutOfFuel"
| "wasm_loop (Suc fuel) call code s =
     (if unat (ws_pc s) \<ge> length code then Ret s
      else
        rbind (exec_op call code (code ! unat (ws_pc s)) (s\<lparr>ws_pc := ws_pc s + 1\<rparr>)) (\<lambda>r.
        case r of Next s \<Rightarrow> wasm_loop fuel call code s | Finish s \<Rightarrow> Ret s))"

definition enter :: "wasm_instance \<Rightarrow> local_decl list \<Rightarrow> u32 list \<Rightarrow> 'h \<Rightarrow> 'h wstate" where
  "enter inst decls args h =
     \<lparr>ws_pc = 0, ws_stack = [],
      ws_locals = args @ concat (map (\<lambda>d. replicate (unat (ld_count d)) 0) decls),
      ws_ctrl = [], ws_inst = inst, ws_host = h\<rparr>"

primrec execute_function :: "nat \<Rightarrow> nat \<Rightarrow> 'h host_ops \<Rightarrow> wasm_instance \<Rightarrow> u64 \<Rightarrow> u32 list \<Rightarrow> 'h \<Rightarrow> 'h wres" where
  "execute_function 0 fuel ops inst func_idx args h = OutOfFuel"
| "execute_function (Suc depth) fuel ops inst func_idx args h =
     (if unat func_idx \<ge> length (wi_functions inst) then Panics
      else case wi_functions inst ! unat func_idx of
             Imported module name _ \<Rightarrow> call_import ops module name inst args h
           | Internal _ decls code \<Rightarrow>
               rbind (wasm_loop fuel (execute_function depth fuel ops) code (enter inst decls args h)) (\<lambda>s.
               Ret (if ws_stack s = [] then None else Some (last (ws_stack s)), ws_inst s, ws_host s)))"

section \<open>The entry point\<close>

text \<open>The host state of a process is the console, with the keyboard, and the scheduler.\<close>

definition exit_current :: "kernel_env \<Rightarrow> int \<Rightarrow> 'c \<times> sched \<Rightarrow> ('c \<times> sched) option" where
  "exit_current env status h =
     (case with_current_task (snd h) p_pid of
        None \<Rightarrow> Some h
      | Some pid \<Rightarrow> map_option (Pair (fst h)) (exit_process env (snd h) pid status))"

definition kernel_ops ::
  "kernel_env \<Rightarrow> (u8 \<Rightarrow> 'c \<Rightarrow> 'c) \<Rightarrow> (nat \<Rightarrow> 'c \<Rightarrow> bytes \<times> 'c) \<Rightarrow> ('c \<times> sched) host_ops" where
  "kernel_ops env pr rd =
     \<lparr>h_print = (\<lambda>b (c, s). (pr b c, s)),
      h_read_stdin = (\<lambda>n (c, s). case rd n c of (bs, c) \<Rightarrow> (bs, c, s)),
      h_exit = exit_current env\<rparr>"

text \<open>The module's exit code and the host state it leaves.\<close>

definition run_module ::
  "nat \<Rightarrow> nat \<Rightarrow> (u64 \<Rightarrow> bool) \<Rightarrow> 'h host_ops \<Rightarrow> bytes \<Rightarrow> 'h \<Rightarrow> (int \<times> 'h, 'h) hrun" where
  "run_module depth fuel heap_ok ops binary h =
     (case parse_wasm fuel heap_ok binary of
        Ret inst \<Rightarrow>
          (case wi_start inst of
             None \<Rightarrow> Ret (0, h)
           | Some start \<Rightarrow>
               (case execute_function depth fuel ops inst start [] h of
                  Ret (v, _, h) \<Rightarrow> Ret (case v of None \<Rightarrow> 0 | Some r \<Rightarrow> sint r, h)
                | Fail (_, h) \<Rightarrow> Ret (- 1, h)
                | Panics \<Rightarrow> Panics
                | OutOfFuel \<Rightarrow> OutOfFuel))
      | Fail _ \<Rightarrow> Ret (- 1, h)
      | Panics \<Rightarrow> Panics
      | OutOfFuel \<Rightarrow> OutOfFuel)"

definition wasm_interpreter_entry ::
  "nat \<Rightarrow> nat \<Rightarrow> (u64 \<Rightarrow> bool) \<Rightarrow> kernel_env \<Rightarrow> (u8 \<Rightarrow> 'c \<Rightarrow> 'c) \<Rightarrow> (nat \<Rightarrow> 'c \<Rightarrow> bytes \<times> 'c) \<Rightarrow>
   'c \<times> sched \<Rightarrow> ('c \<times> sched, 'c \<times> sched) hrun" where
  "wasm_interpreter_entry depth fuel heap_ok env pr rd h =
     (case with_current_task (snd h) p_binary_data of
        None \<Rightarrow> Ret h
      | Some binary \<Rightarrow>
          rbind (run_module depth fuel heap_ok (kernel_ops env pr rd) binary h) (\<lambda>(exit_code, h).
          case exit_current env exit_code h of None \<Rightarrow> Panics | Some h \<Rightarrow> Ret h))"

section \<open>The ABI plugin\<close>

text \<open>\<open>entry\<close> is the address of \<open>wasm_interpreter_entry\<close>.\<close>

definition wasm_load :: "u64 \<Rightarrow> process \<Rightarrow> (abi_error + unit) \<times> process" where
  "wasm_load entry p = (Inr (), p\<lparr>p_entry_point := entry, p_cpu := (p_cpu p)\<lparr>rip := entry\<rparr>\<rparr>)"

definition WASM_PLUGIN :: "u64 \<Rightarrow> abi_plugin" where
  "WASM_PLUGIN entry = \<lparr>plugin_name = ''WebAssembly (WASI)'', plugin_kind = Wasm, can_load = wasm_can_load,
                        plugin_load = (\<lambda>_. wasm_load entry)\<rparr>"

text \<open>The system calls of a module run as a process \<open>p\<close>; the six arguments are a list.\<close>

definition wasm_handle_syscall ::
  "kernel_env \<Rightarrow> sched \<Rightarrow> pid \<Rightarrow> u64 \<Rightarrow> u64 list \<Rightarrow> ((abi_error + u64) \<times> sched) option" where
  "wasm_handle_syscall env s p number args =
     (if number = 10 then map_option (Pair (Inr 0)) (schedule env s)
      else if number = 21 then Some (Inr (args ! 1), s)
      else if number = 99 then Some (Inr 0, modify_process s p (\<lambda>q. process_exit q (sint (args ! 0))))
      else Some (Inl (UnsupportedSyscall number), s))"

definition random_get :: "u32 list \<Rightarrow> (abi_error + u64)" where
  "random_get args = (if length args < 2 then Inl (Other ''random_get requires 2 args'') else Inr (as_usize (args ! 1)))"

end
