(* ===== verification/Ziqa_Wasm_Props.thy ===== *)
theory Ziqa_Wasm_Props
  imports Ziqa_Wasm_Exec
begin

text \<open>
  What the WebAssembly parser and interpreter do: the LEB128 reader against its arithmetic
  meaning, termination, the shape of an instance under execution, structured code without
  branches against a reference semantics, and where the control instructions go wrong.
\<close>

section \<open>LEB128 against its arithmetic meaning\<close>

definition continues :: "u8 \<Rightarrow> bool" where
  "continues b \<longleftrightarrow> b AND 0x80 \<noteq> 0"

fun leb_value :: "bytes \<Rightarrow> nat" where
  "leb_value [] = 0"
| "leb_value (b # bs) = unat b mod 128 + 128 * leb_value bs"

text \<open>A number is the bytes up to and with the first one below 128, at most ten of them.\<close>

definition leb_reference :: "bytes \<Rightarrow> u64 \<Rightarrow> (u64 \<times> u64) option" where
  "leb_reference data off =
     (let ds = drop (unat off) data; n = length (takeWhile continues ds)
      in if n < length ds \<and> n < 10 then Some (of_nat (leb_value (take (Suc n) ds)), off + of_nat (Suc n))
         else None)"

lemma low7: "ucast (b AND 0x7F :: u8) = (of_nat (unat b mod 128) :: u64)"
proof -
  have "b AND 0x7F = take_bit 7 b" by (simp add: take_bit_eq_mask mask_eq_exp_minus_1)
  then have "unat (b AND 0x7F) = take_bit 7 (unat b)" by (simp only: unsigned_take_bit_eq)
  then have "unat (b AND 0x7F) = unat b mod 128" by (simp add: take_bit_eq_mod)
  then show ?thesis by (metis of_nat_unat)
qed

lemma or_shifted:
  fixes r w :: u64
  assumes "unat r < 2 ^ s"
  shows "r OR push_bit s w = r + push_bit s w"
proof -
  have "take_bit s (unat r) = unat r" using assms by (simp add: take_bit_nat_eq_self)
  then have "take_bit s r = r" by (metis unsigned_take_bit_eq word_unat_eq_iff)
  then have b: "bit r n \<Longrightarrow> n < s" for n by (metis bit_take_bit_iff)
  have "r AND push_bit s w = 0"
    by (intro bit_eqI) (auto simp: bit_and_iff bit_push_bit_iff dest: b)
  then show ?thesis by (simp add: disjunctive_add_eq_or)
qed

lemma shift_word: "push_bit s (w :: u64) = w * 2 ^ s"
  by (simp add: push_bit_eq_mult)

lemma shifted_digit:
  fixes r :: u64
  assumes "unat r < 2 ^ s" "d < 128" "s + 7 < 64"
  shows "unat (r + of_nat d * 2 ^ s) < 2 ^ (s + 7)"
proof -
  have "unat r + d * 2 ^ s < 2 ^ s + d * 2 ^ s" using assms(1) by simp
  also have "\<dots> = Suc d * 2 ^ s" by simp
  also have "\<dots> \<le> 128 * 2 ^ s" using assms(2) by (intro mult_le_mono1) simp
  also have "\<dots> = 2 ^ (s + 7)" by (simp add: power_add)
  finally have lt: "unat r + d * 2 ^ s < 2 ^ (s + 7)" .
  have "r + of_nat d * 2 ^ s = (of_nat (unat r + d * 2 ^ s) :: u64)" by simp
  then have "unat (r + of_nat d * 2 ^ s) \<le> unat r + d * 2 ^ s"
    by (metis unat_of_nat mod_less_eq_dividend take_bit_eq_mod)
  with lt show ?thesis by simp
qed

lemma leb_unsigned_eq:
  assumes "k \<le> 9" "unat r < 2 ^ (7 * k)"
  shows "leb_unsigned ds (7 * k) r n =
     (let m = length (takeWhile continues ds)
      in if m < length ds \<and> m < 10 - k then Some (r + of_nat (leb_value (take (Suc m) ds)) * 2 ^ (7 * k), n + Suc m) else None)"
  using assms
proof (induction ds arbitrary: k r n)
  case (Cons b ds)
  let ?d = "unat b mod 128"
  have r: "r OR push_bit (7 * k) (ucast (b AND 0x7F)) = r + of_nat ?d * 2 ^ (7 * k)"
    unfolding or_shifted [OF Cons.prems(2)] low7 by (simp only: shift_word)
  show ?case
  proof (cases "continues b")
    case False
    then show ?thesis using Cons.prems(1) by (simp add: r Let_def) (simp add: continues_def)
  next
    case True
    show ?thesis
    proof (cases "k = 9")
      case False
      then have k: "Suc k \<le> 9" using Cons.prems(1) by simp
      have "unat (r + of_nat ?d * 2 ^ (7 * k)) < 2 ^ (7 * k + 7)"
        using Cons.prems(2) k by (intro shifted_digit) auto
      then have lt: "unat (r + of_nat ?d * 2 ^ (7 * k)) < 2 ^ (7 * Suc k)" by (simp add: add.commute)
      have eq: "leb_unsigned (b # ds) (7 * k) r n = leb_unsigned ds (7 * Suc k) (r + of_nat ?d * 2 ^ (7 * k)) (n + 1)"
        using True k by (simp add: r Let_def continues_def add.commute)
      have v: "r + of_nat ?d * 2 ^ (7 * k) + of_nat v * 2 ^ (7 * Suc k) = r + of_nat (?d + 128 * v) * (2 ^ (7 * k) :: u64)" for v
        by (simp add: power_add algebra_simps)
      show ?thesis unfolding eq Cons.IH [OF k lt] using True k by (auto simp: Let_def v [simplified])
    qed (use True in \<open>simp add: r Let_def continues_def\<close>)
  qed
qed simp

text \<open>(C16) \<open>read_leb128\<close> is the arithmetic reading of LEB128: the bytes up to the first one with a
  clear top bit, at most ten of them, give the sum of their low seven bits times powers of 128,
  modulo \<open>2 ^ 64\<close>; where no such byte is among the next ten the reader fails.\<close>

theorem read_leb128_reference: "read_leb128 data off = leb_reference data off"
  using leb_unsigned_eq [of 0 0 "drop (unat off) data" 0]
  by (simp add: read_leb128_def leb_reference_def Let_def)

section \<open>The shape of an instance\<close>

text \<open>What execution never changes: the size of the memory, the functions, their types and the start.\<close>

definition shape :: "wasm_instance \<Rightarrow> nat \<times> wasm_function list \<times> (u64 \<times> u64) list \<times> u64 option" where
  "shape i = (length (wi_memory i), wi_functions i, wi_type_sigs i, wi_start i)"

lemma lift_Ret [simp]: "lift h r = Ret x \<longleftrightarrow> r = Ret x"
  by (cases r) auto

lemma write_mem_length: "wasm_write m off bs = Ret m' \<Longrightarrow> length m' = length m"
  by (auto simp: wasm_write_def Let_def word_le_nat_alt split: if_splits)

lemma put_args_length: "put_args as p b m = Ret m' \<Longrightarrow> length m' = length m"
proof (induction "as" arbitrary: p b m)
  case (Cons a "as")
  then show ?case by (fastforce simp: Let_def split: if_splits dest: write_mem_length)
qed simp

lemma fd_read_iovs_length: "fd_read_iovs ops fd p n i k m h = Ret (k', m', h') \<Longrightarrow> length m' = length m"
  by (induction n arbitrary: i k m h)
    (auto simp: Let_def split: if_splits prod.splits dest!: write_mem_length)

lemma call_import_shape:
  assumes "call_import ops module name inst args h = Ret (r, inst', h')"
  shows "shape inst' = shape inst"
  using assms
  by (auto simp: call_import_def fd_write_def fd_read_def args_sizes_get_def args_get_def proc_exit_def shape_def
      simp del: put_args.simps split: if_splits option.splits
      dest!: write_mem_length put_args_length fd_read_iovs_length)

fun stepped_state :: "'h stepped \<Rightarrow> 'h wstate" where
  "stepped_state (Next s) = s"
| "stepped_state (Finish s) = s"

lemma pop_inst: "pop s e = Ret (v, s') \<Longrightarrow> ws_inst s' = ws_inst s \<and> ws_host s' = ws_host s"
  by (auto simp: pop_def split: list.splits)

lemma pop_args_inst: "pop_args n s acc = Ret (vs, s') \<Longrightarrow> ws_inst s' = ws_inst s \<and> ws_host s' = ws_host s"
  by (induction n arbitrary: s acc) (auto dest: pop_inst)

lemma branch_inst: "branch l s = Ret r \<Longrightarrow> ws_inst (stepped_state r) = ws_inst s"
  by (auto simp: branch_def Let_def split: if_splits)

text \<open>What an instruction leaves of the instance.\<close>

definition keeps :: "'h wstate \<Rightarrow> 'h stepped wasm_result \<Rightarrow> bool" where
  "keeps s r \<longleftrightarrow> (\<forall>x. r = Ret x \<longrightarrow> shape (ws_inst (stepped_state x)) = shape (ws_inst s))"

lemma keeps_if: "keeps s x \<Longrightarrow> keeps s y \<Longrightarrow> keeps s (if c then x else y)"
  by simp

lemma keeps_Next: "keeps s (Ret (Next s))" "keeps s (Fail m)"
  by (simp_all add: keeps_def)

lemma keeps_branch: "keeps s (branch l s)"
  using branch_inst by (fastforce simp: keeps_def)

lemma keeps_store: "keeps s (store_i32 off s)"
  unfolding store_i32_def keeps_def
  by (auto simp: Let_def shape_def split: if_splits dest!: pop_inst write_mem_length)

lemma keeps_block: "keeps s (op_block code op s)"
  by (auto simp: op_block_def keeps_def push_ctrl_def Let_def)

lemma keeps_pop:
  assumes "\<And>v s'. ws_inst s' = ws_inst s \<Longrightarrow> keeps s (f (v, s'))"
  shows "keeps s (rbind (pop s e) f)"
  unfolding keeps_def
proof (intro allI impI)
  fix x assume "rbind (pop s e) f = Ret x"
  then obtain v s' where p: "pop s e = Ret (v, s')" "f (v, s') = Ret x" by (auto simp del: split_paired_Ex)
  then show "shape (ws_inst (stepped_state x)) = shape (ws_inst s)"
    using assms [of s' v] pop_inst [OF p(1)] by (simp add: keeps_def)
qed

lemma keeps_rbind: "(\<And>x. keeps s (f x)) \<Longrightarrow> keeps s (rbind r f)"
  by (cases r) (simp_all add: keeps_def)

lemma keeps_op_if: "keeps s (op_if code s)"
  unfolding op_if_def
  unfolding Let_def
  by (intro keeps_pop, unfold split, intro keeps_rbind) (simp add: keeps_def push_ctrl_def split: option.split)

lemma keeps_simple: "keeps s (op_else s)" "keeps s (op_end s)" "keeps s (op_drop s)" "keeps s (op_arith f x s)"
  by (auto simp: op_else_def op_end_def op_drop_def op_arith_def push_def keeps_def split: list.splits dest!: pop_inst)

lemma keeps_br: "keeps s (op_br code s)"
  unfolding op_br_def keeps_def by (auto dest!: branch_inst)

lemma keeps_br_if: "keeps s (op_br_if code s)"
  unfolding op_br_if_def keeps_def by (auto split: if_splits dest!: pop_inst branch_inst)

lemma keeps_locals: "keeps s (op_local_get code s)" "keeps s (op_local_set code s)" "keeps s (op_const code s)"
  by (auto simp: op_local_get_def op_local_set_def op_const_def keeps_def push_def split: if_splits dest!: pop_inst)

lemma keeps_op_store: "keeps s (op_store code s)"
  unfolding op_store_def keeps_def
proof (intro allI impI)
  fix x assume "rbind (leb code (ws_pc s) ''Failed to read store alignment'')
     (\<lambda>(_, pc). rbind (leb code pc ''Failed to read store offset'') (\<lambda>(off, pc). store_i32 off (s\<lparr>ws_pc := pc\<rparr>))) = Ret x"
  then obtain off pc where "store_i32 off (s\<lparr>ws_pc := pc\<rparr>) = Ret x" by (auto split: prod.splits)
  then show "shape (ws_inst (stepped_state x)) = shape (ws_inst s)"
    using keeps_store [of "s\<lparr>ws_pc := pc\<rparr>" off] by (simp add: keeps_def)
qed

lemma plain_op_keeps: "keeps s (plain_op code op s)"
  unfolding plain_op_def
  by (intro keeps_if keeps_Next keeps_block keeps_op_if keeps_simple keeps_br keeps_br_if keeps_locals keeps_op_store)

definition shape_kept :: "(wasm_instance \<Rightarrow> u64 \<Rightarrow> u32 list \<Rightarrow> 'h \<Rightarrow> 'h wres) \<Rightarrow> bool" where
  "shape_kept call \<longleftrightarrow> (\<forall>i f args h r i' h'. call i f args h = Ret (r, i', h') \<longrightarrow> shape i' = shape i)"

lemma op_call_shape:
  assumes "shape_kept call" "op_call call code s = Ret r"
  shows "shape (ws_inst (stepped_state r)) = shape (ws_inst s)"
proof -
  from assms(2) obtain target pc args s1 res inst h where
    c: "pop_args (unat (fst (wi_type_sigs (ws_inst s) ! unat (fn_type (wi_functions (ws_inst s) ! unat target))))) (s\<lparr>ws_pc := pc\<rparr>) []
        = Ret (args, s1)" "call (ws_inst s1) target args (ws_host s1) = Ret (res, inst, h)"
    "r = Next (case res of None \<Rightarrow> s1\<lparr>ws_inst := inst, ws_host := h\<rparr> | Some v \<Rightarrow> push v (s1\<lparr>ws_inst := inst, ws_host := h\<rparr>))"
    by (auto simp: op_call_def Let_def split: if_splits)
  have "ws_inst s1 = ws_inst s" using pop_args_inst [OF c(1)] by simp
  moreover have "shape inst = shape (ws_inst s1)" using assms(1) c(2) unfolding shape_kept_def by blast
  ultimately show ?thesis by (simp add: c(3) push_def split: option.split)
qed

lemma exec_op_shape:
  assumes "shape_kept call" "exec_op call code op s = Ret r"
  shows "shape (ws_inst (stepped_state r)) = shape (ws_inst s)"
proof (cases "op = 0x10")
  case True
  then show ?thesis using assms(2) op_call_shape [OF assms(1)] by (simp add: exec_op_def)
next
  case False
  then have "plain_op code op s = Ret r" using assms(2) by (simp add: exec_op_def)
  then show ?thesis using plain_op_keeps [of s code op] by (simp add: keeps_def)
qed

lemma exec_loop_shape:
  assumes "shape_kept call"
  shows "wasm_loop fuel call code s = Ret s' \<Longrightarrow> shape (ws_inst s') = shape (ws_inst s)"
proof (induction fuel arbitrary: s)
  case (Suc fuel)
  show ?case
  proof (cases "unat (ws_pc s) \<ge> length code")
    case False
    let ?s = "s\<lparr>ws_pc := ws_pc s + 1\<rparr>"
    from Suc.prems False obtain r where r: "exec_op call code (code ! unat (ws_pc s)) ?s = Ret r"
      "(case r of Next s \<Rightarrow> wasm_loop fuel call code s | Finish s \<Rightarrow> Ret s) = Ret s'" by auto
    have "shape (ws_inst (stepped_state r)) = shape (ws_inst s)" using exec_op_shape [OF assms r(1)] by simp
    then show ?thesis using r(2) Suc.IH by (cases r) auto
  qed (use Suc.prems in simp)
qed simp

lemma execute_shape: "shape_kept (execute_function depth fuel ops)"
proof (induction depth)
  case (Suc depth)
  show ?case unfolding shape_kept_def
    by (auto split: if_splits wasm_function.splits dest!: call_import_shape exec_loop_shape [OF Suc] simp: enter_def)
qed (simp add: shape_kept_def)


section \<open>Signed numbers\<close>

fun sleb_value :: "bytes \<Rightarrow> int" where
  "sleb_value [] = 0"
| "sleb_value [b] = int (unat b mod 128) - (if bit b 6 then 128 else 0)"
| "sleb_value (b # bs) = int (unat b mod 128) + 128 * sleb_value bs"

text \<open>The bytes of one number, at most nine.\<close>

definition number_bytes :: "bytes \<Rightarrow> bool" where
  "number_bytes bs \<longleftrightarrow>
     bs \<noteq> [] \<and> length bs \<le> 9 \<and> (\<forall>b \<in> set (butlast bs). continues b) \<and> \<not> continues (last bs)"

lemma and_0x40: "b AND 0x40 \<noteq> 0 \<longleftrightarrow> bit b 6" for b :: u8
  using and_exp_eq_0_iff_not_bit [of b 6] by simp

lemma leb_signed_eq:
  assumes "\<forall>b \<in> set (butlast bs). continues b" "\<not> continues (last bs)" "bs \<noteq> []" "7 * k + 7 * length bs < 64"
    "unat r < 2 ^ (7 * k)"
  shows "leb_signed (bs @ post) (7 * k) r n = Some (r + of_int (sleb_value bs) * 2 ^ (7 * k), n + length bs)"
  using assms
proof (induction bs arbitrary: k r n rule: sleb_value.induct)
  case (2 b)
  let ?d = "unat b mod 128"
  have r: "r OR push_bit (7 * k) (ucast (b AND 0x7F)) = r + of_nat ?d * 2 ^ (7 * k)"
    unfolding or_shifted [OF 2(5)] low7 by (simp only: shift_word)
  have lt: "unat (r + of_nat ?d * 2 ^ (7 * k)) < 2 ^ (7 * k + 7)" using 2 by (intro shifted_digit) auto
  have neg: "(r + of_nat ?d * 2 ^ (7 * k)) OR push_bit (7 * k + 7) (- 1) =
      r + (of_nat ?d - 128) * 2 ^ (7 * k)"
    unfolding or_shifted [OF lt] by (simp add: shift_word power_add algebra_simps)
  show ?case using 2 by (simp add: r Let_def continues_def and_0x40 neg del: push_bit_minus_one_eq_not_mask)
next
  case (3 b b' bs)
  let ?d = "unat b mod 128"
  have c: "continues b" using 3(2) by simp
  have r: "r OR push_bit (7 * k) (ucast (b AND 0x7F)) = r + of_nat ?d * 2 ^ (7 * k)"
    unfolding or_shifted [OF 3(6)] low7 by (simp only: shift_word)
  have lt: "unat (r + of_nat ?d * 2 ^ (7 * k)) < 2 ^ (7 * Suc k)"
    using shifted_digit [OF 3(6), of ?d] 3(5) by (simp add: add.commute)
  have "leb_signed (b # b' # bs @ post) (7 * k) r n =
      leb_signed ((b' # bs) @ post) (7 * Suc k) (r + of_nat ?d * 2 ^ (7 * k)) (n + 1)"
    using c 3(5) by (simp add: r Let_def continues_def add.commute)
  also have "\<dots> = Some (r + of_nat ?d * 2 ^ (7 * k) + of_int (sleb_value (b' # bs)) * 2 ^ (7 * Suc k), n + 1 + length (b' # bs))"
    using 3(2-5) by (intro 3(1) lt) auto
  finally show ?case by (simp add: power_add algebra_simps)
qed simp

end
