(* ===== verification/Ziqa_Wasm_Struct.thy ===== *)
theory Ziqa_Wasm_Struct
  imports Ziqa_Wasm_Props
begin

text \<open>
  Structured code without branches: its encoding, a reference semantics over the abstract syntax,
  and the interpreter against it.  Also the search for the end of a block on encoded code.
\<close>

section \<open>Abstract syntax and encoding\<close>

datatype basic =
    Nop | Drop | Add | Sub | Mul | Const bytes | LocalGet bytes | LocalSet bytes | Store bytes bytes

text \<open>\<open>Nest l t body\<close> is a loop or a block with block type \<open>t\<close>.\<close>

datatype winstr = Basic basic | Nest bool u8 "winstr list"

fun enc :: "basic \<Rightarrow> bytes" where
  "enc Nop = [0x01]"
| "enc Drop = [0x1A]"
| "enc Add = [0x6A]"
| "enc Sub = [0x6B]"
| "enc Mul = [0x6C]"
| "enc (Const n) = 0x41 # n"
| "enc (LocalGet n) = 0x20 # n"
| "enc (LocalSet n) = 0x21 # n"
| "enc (Store a n) = 0x36 # a @ n"

fun encs :: "winstr list \<Rightarrow> bytes" where
  "encs [] = []"
| "encs (Basic b # is) = enc b @ encs is"
| "encs (Nest l t body # is) = (if l then 0x03 else 0x02) # t # encs body @ 0x0B # encs is"

fun wf :: "basic \<Rightarrow> bool" where
  "wf (Const n) = number_bytes n"
| "wf (LocalGet n) = number_bytes n"
| "wf (LocalSet n) = number_bytes n"
| "wf (Store a n) = (number_bytes a \<and> number_bytes n)"
| "wf _ = True"

fun wfs :: "winstr list \<Rightarrow> bool" where
  "wfs [] = True"
| "wfs (Basic b # is) = (wf b \<and> wfs is)"
| "wfs (Nest l t body # is) = (wfs body \<and> wfs is)"

text \<open>The rounds of the instruction loop.\<close>

fun rounds :: "winstr list \<Rightarrow> nat" where
  "rounds [] = 0"
| "rounds (Basic b # is) = Suc (rounds is)"
| "rounds (Nest l t body # is) = Suc (rounds body + Suc (rounds is))"

section \<open>Reference semantics\<close>

type_synonym rstate = "u32 list \<times> u32 list \<times> bytes"

definition rpop :: "string \<Rightarrow> rstate \<Rightarrow> (u32 \<times> rstate) wasm_result" where
  "rpop e s = (case s of ([], _) \<Rightarrow> Fail e | (v # st, r) \<Rightarrow> Ret (v, st, r))"

text \<open>The address of a store is signed; where it is negative by at most four the bounds check
  wraps to a number below four and, with a memory of at least that size, the slice panics.\<close>

definition rstore :: "nat \<Rightarrow> rstate \<Rightarrow> rstate wasm_result" where
  "rstore off s =
     rbind (rpop ''Stack underflow on store val'' s) (\<lambda>(v, s).
     rbind (rpop ''Stack underflow on store addr'' s) (\<lambda>(addr, st, ls, m).
     let t = nat ((sint addr + int off) mod 2 ^ 64)
     in if t + 4 \<le> length m then Ret (st, ls, put_bytes m t (le_bytes 4 v))
        else if 2 ^ 64 \<le> t + 4 \<and> t + 4 - 2 ^ 64 \<le> length m then Panics
        else Fail ''Memory store out of bounds''))"

definition rarith :: "(u32 \<Rightarrow> u32 \<Rightarrow> u32) \<Rightarrow> string \<Rightarrow> rstate \<Rightarrow> rstate wasm_result" where
  "rarith f e s = rbind (rpop e s) (\<lambda>(b, s). rbind (rpop e s) (\<lambda>(a, st, r). Ret (f a b # st, r)))"

fun ref :: "basic \<Rightarrow> rstate \<Rightarrow> rstate wasm_result" where
  "ref Nop s = Ret s"
| "ref Drop s = rbind (rpop ''Stack underflow on drop'' s) (\<lambda>(_, s). Ret s)"
| "ref Add s = rarith (+) ''Stack underflow on add'' s"
| "ref Sub s = rarith (-) ''Stack underflow on sub'' s"
| "ref Mul s = rarith (*) ''Stack underflow on mul'' s"
| "ref (Const n) (st, r) = Ret (of_int (sleb_value n) # st, r)"
| "ref (LocalGet n) (st, ls, m) =
     (if leb_value n < length ls then Ret (ls ! leb_value n # st, ls, m) else Fail ''Local index out of bounds'')"
| "ref (LocalSet n) s =
     rbind (rpop ''Stack underflow on local.set'' s) (\<lambda>(v, st, ls, m).
     if leb_value n < length ls then Ret (st, ls[leb_value n := v], m) else Fail ''Local index out of bounds'')"
| "ref (Store a n) s = rstore (leb_value n) s"

fun refs :: "winstr list \<Rightarrow> rstate \<Rightarrow> rstate wasm_result" where
  "refs [] s = Ret s"
| "refs (Basic b # is) s = rbind (ref b s) (refs is)"
| "refs (Nest l t body # is) s = rbind (refs body s) (refs is)"

section \<open>Numbers inside code\<close>

definition at :: "nat \<Rightarrow> u64" where
  "at n = of_nat n"

lemma unat_at: "n < 2 ^ 64 \<Longrightarrow> unat (at n) = n"
  by (simp add: at_def unat_of_nat_small)

lemma at_add: "at m + of_nat n = at (m + n)" "at m + 1 = at (Suc m)"
  by (simp_all add: at_def)

lemma number_cont: "number_bytes bs \<Longrightarrow> takeWhile continues (bs @ post) = butlast bs"
proof -
  assume n: "number_bytes bs"
  have "takeWhile continues (butlast bs @ last bs # post) = butlast bs"
    using n by (simp add: number_bytes_def)
  moreover have "bs @ post = butlast bs @ last bs # post" using n by (simp add: number_bytes_def)
  ultimately show ?thesis by (simp only:)
qed

lemma leb_value_less: "leb_value bs < 128 ^ length bs"
proof (induction bs)
  case (Cons b bs)
  have "unat b mod 128 < 128" by simp
  with Cons.IH show ?case by (simp only: leb_value.simps length_Cons power_Suc)
qed simp

lemma read_number:
  assumes "number_bytes bs" "length (pre @ bs @ post) < 2 ^ 64"
  shows "read_leb128 (pre @ bs @ post) (at (length pre)) = Some (of_nat (leb_value bs), at (length pre + length bs))"
proof -
  have "length pre < 2 ^ 64" using assms(2) by simp
  then have d: "drop (unat (at (length pre))) (pre @ bs @ post) = bs @ post" by (simp add: unat_at)
  have l: "bs \<noteq> []" "length bs \<le> 9" using assms(1) by (auto simp: number_bytes_def)
  then obtain m where m: "length bs = Suc m" by (cases bs) auto
  then have "length (takeWhile continues (bs @ post)) = m" by (simp add: number_cont [OF assms(1)])
  then have "leb_unsigned (bs @ post) 0 0 0 = Some (of_nat (leb_value bs), length bs)"
    using leb_unsigned_eq [of 0 0 "bs @ post" 0] l m by (simp add: Let_def del: takeWhile_append)
  then show ?thesis unfolding read_leb128_def d by (simp add: at_def)
qed

lemma read_signed:
  assumes "number_bytes bs" "length (pre @ bs @ post) < 2 ^ 64"
  shows "read_leb128_signed (pre @ bs @ post) (at (length pre)) =
           Some (of_int (sleb_value bs), at (length pre + length bs))"
proof -
  have "length pre < 2 ^ 64" using assms(2) by simp
  then have d: "drop (unat (at (length pre))) (pre @ bs @ post) = bs @ post" by (simp add: unat_at)
  show ?thesis
    unfolding read_leb128_signed_def d
    using leb_signed_eq [of bs 0 0 post 0] assms(1) by (simp add: number_bytes_def at_def)
qed

lemma unat_number: "number_bytes bs \<Longrightarrow> unat (of_nat (leb_value bs) :: u64) = leb_value bs"
proof -
  assume "number_bytes bs"
  then have "length bs \<le> 9" by (simp add: number_bytes_def)
  then have "(128 :: nat) ^ length bs \<le> 128 ^ 9" by (intro power_increasing) auto
  with leb_value_less [of bs] have "leb_value bs < 2 ^ LENGTH(64)" by simp
  then show ?thesis by (rule unat_of_nat_small)
qed

text \<open>An operand after the opcode, and a second one after it.\<close>

lemma leb_operand:
  assumes "number_bytes n" "length (pre @ op # n @ post) < 2 ^ 64"
  shows "leb (pre @ op # n @ post) (at (Suc (length pre))) e = Ret (of_nat (leb_value n), at (Suc (length pre) + length n))"
  using read_number [of n "pre @ [op]" post] assms by (simp add: leb_def or_err_def)

lemma leb_operand2:
  assumes "number_bytes n" "length (pre @ op # a @ n @ post) < 2 ^ 64"
  shows "leb (pre @ op # a @ n @ post) (at (Suc (length pre) + length a)) e =
           Ret (of_nat (leb_value n), at (Suc (length pre) + length a + length n))"
  using read_number [of n "pre @ op # a" post] assms by (simp add: leb_def or_err_def)

lemma signed_operand:
  assumes "number_bytes n" "length (pre @ op # n @ post) < 2 ^ 64"
  shows "read_leb128_signed (pre @ op # n @ post) (at (Suc (length pre))) =
           Some (of_int (sleb_value n), at (Suc (length pre) + length n))"
  using read_signed [of n "pre @ [op]" post] assms by simp

lemma at_pre:
  assumes "length (pre @ op # rest) < 2 ^ 64"
  shows "unat (at (length pre)) = length pre" "(pre @ op # rest) ! length pre = op" "length pre < length (pre @ op # rest)"
  using assms by (simp_all add: unat_at)

lemma skip_basic:
  assumes "wf b" "length (pre @ enc b @ post) < 2 ^ 64"
  shows "skip_instruction_args (pre @ enc b @ post) (at (length pre)) = Ret (at (length pre + length (enc b)))"
proof -
  obtain op rest where op: "enc b = op # rest" by (cases b) auto
  note A = at_pre [of pre op "rest @ post"]
  show ?thesis
  proof (cases b)
    case (Const n)
    then show ?thesis using assms A op signed_operand [of n pre op post]
      by (simp add: skip_instruction_args_def at_add or_err_def Let_def)
  next
    case (LocalGet n)
    then show ?thesis using assms A op leb_operand [of n pre op post]
      by (simp add: skip_instruction_args_def at_add Let_def)
  next
    case (LocalSet n)
    then show ?thesis using assms A op leb_operand [of n pre op post]
      by (simp add: skip_instruction_args_def at_add Let_def)
  next
    case (Store a n)
    then show ?thesis
      using assms at_pre [of pre "0x36" "a @ n @ post"] leb_operand [of a pre "0x36" "n @ post"]
        leb_operand2 [of n pre "0x36" a post]
      by (simp add: skip_instruction_args_def at_add Let_def add.assoc)
  qed (use assms A op in \<open>simp_all add: skip_instruction_args_def at_add Let_def\<close>)
qed

declare find_end.simps [simp del]

lemma enc_op: "\<exists>op rest. enc b = op # rest \<and> op \<notin> {0x02, 0x03, 0x04, 0x0B, 0x05, 0x0C, 0x0D, 0x10}"
  by (cases b) auto

lemma find_end_encs:
  assumes "wfs is" "code = pre @ encs is @ post" "length code < 2 ^ 64" "0 < depth"
  shows "find_end (rounds is + fuel) code (at (length pre)) depth = find_end fuel code (at (length pre + length (encs is))) depth"
  using assms
proof (induction "is" arbitrary: pre post depth fuel rule: encs.induct)
  case (2 b "is")
  obtain op rest where op: "enc b = op # rest" "op \<notin> {0x02, 0x03, 0x04, 0x0B, 0x05, 0x0C, 0x0D, 0x10}" using enc_op by blast
  let ?post = "encs is @ post"
  have c: "code = pre @ enc b @ ?post" using 2(3) by simp
  have l: "length pre < 2 ^ 64" "length pre < length code" using 2(4) c op(1) by auto
  have nth: "code ! length pre = op" by (simp add: c op(1))
  have "find_end (rounds (Basic b # is) + fuel) code (at (length pre)) depth =
      find_end (rounds is + fuel) code (at (length (pre @ enc b))) depth"
    using op(2) l nth skip_basic [of b pre ?post] 2(2,4) by (simp add: find_end.simps(2) unat_at c [symmetric] Let_def)
  also have "\<dots> = find_end fuel code (at (length (pre @ enc b) + length (encs is))) depth"
    using 2(2-5) c by (intro 2(1)) auto
  finally show ?case by (simp add: add.assoc)
next
  case (3 l t body "is")
  let ?op = "if l then 0x03 else 0x02 :: u8"
  let ?post = "0x0B # encs is @ post"
  have c: "code = (pre @ [?op, t]) @ encs body @ ?post" using 3(4) by simp
  have len: "length pre < 2 ^ 64" "Suc (length pre) < 2 ^ 64" "length pre < length code" "Suc (length pre) < length code"
    using 3(5) c by auto
  have nth: "code ! length pre = ?op" by (simp add: c)
  have "find_end (rounds (Nest l t body # is) + fuel) code (at (length pre)) depth =
      find_end (rounds body + (Suc (rounds is) + fuel)) code (at (length (pre @ [?op, t]))) (depth + 1)"
    using len nth by (cases l) (simp_all add: find_end.simps(2) unat_at at_add Let_def add.assoc)
  also have "\<dots> = find_end (Suc (rounds is) + fuel) code (at (length (pre @ [?op, t]) + length (encs body))) (depth + 1)"
    using 3(3,5,6) c by (intro 3(1)) auto
  also have "\<dots> = find_end (rounds is + fuel) code (at (length ((pre @ [?op, t]) @ encs body @ [0x0B]))) depth"
  proof -
    let ?n = "length (pre @ [?op, t]) + length (encs body)"
    have "?n < length code" "code ! ?n = 0x0B" by (simp_all add: c nth_append)
    then show ?thesis using 3(5,6) by (simp add: find_end.simps(2) unat_at at_add Let_def)
  qed
  also have "\<dots> = find_end fuel code (at (length ((pre @ [?op, t]) @ encs body @ [0x0B]) + length (encs is))) depth"
    using 3(3,5,6) c by (intro 3(2)) auto
  finally show ?case by (simp add: add.assoc)
qed simp

lemma rounds_le: "rounds is \<le> length (encs is)"
proof (induction "is" rule: encs.induct)
  case (2 b "is")
  then show ?case using enc_op [of b] by auto
qed auto

lemma find_matching_end_encs:
  assumes "wfs is" "code = pre @ encs is @ 0x0B # post" "length code < 2 ^ 64"
  shows "find_matching_end code (at (length pre)) = Ret (at (length pre + length (encs is)))"
proof -
  let ?n = "length pre + length (encs is)"
  have "rounds is \<le> length code" using rounds_le [of "is"] assms(2) by simp
  then obtain f where f: "length code + 1 = rounds is + Suc f" by (metis add_Suc_right le_iff_add Suc_eq_plus1)
  have "find_matching_end code (at (length pre)) = find_end (Suc f) code (at ?n) 1"
    unfolding find_matching_end_def f using assms by (intro find_end_encs) auto
  moreover have "?n < length code" "code ! ?n = 0x0B" using assms(2) by (simp_all add: nth_append)
  ultimately show ?thesis using assms(3) by (simp add: find_end.simps(2) unat_at Let_def)
qed

section \<open>The interpreter on structured code\<close>

definition rst :: "'h wstate \<Rightarrow> rstate" where
  "rst s = (ws_stack s, ws_locals s, wi_memory (ws_inst s))"

fun put_r :: "rstate \<Rightarrow> 'h wstate \<Rightarrow> 'h wstate" where
  "put_r (st, ls, m) s = s\<lparr>ws_stack := st, ws_locals := ls, ws_inst := (ws_inst s)\<lparr>wi_memory := m\<rparr>\<rparr>"

lemma pop_rpop: "pop s e = rbind (rpop e (rst s)) (\<lambda>(v, r). Ret (v, put_r r s))"
  by (cases "ws_stack s") (simp_all add: pop_def rpop_def rst_def)

lemma rst_put [simp]: "rst (put_r r s) = r" "rst (s\<lparr>ws_pc := p\<rparr>) = rst s"
  by (cases r) (simp_all add: rst_def)

lemma put_rst [simp]: "put_r (rst s) s = s"
  by (simp add: rst_def)

lemma put_put [simp]: "put_r r (put_r r' s) = put_r r s" "put_r r (s\<lparr>ws_pc := p\<rparr>) = (put_r r s)\<lparr>ws_pc := p\<rparr>"
  by (cases r; cases r'; simp)+

lemma store_target: "unat (as_usize addr + of_nat off) = nat ((sint addr + int off) mod 2 ^ 64)"
proof -
  have "as_usize addr + of_nat off = (of_int (sint addr + int off) :: u64)"
    by (simp add: as_usize_def)
  then have "uint (as_usize addr + of_nat off) = (sint addr + int off) mod 2 ^ 64"
    by (simp only: uint_word_of_int_eq take_bit_eq_mod) simp
  then show ?thesis by (simp only: nat_uint_eq [symmetric])
qed

lemma store_bounds:
  fixes t :: u64
  assumes "length m < 2 ^ 64"
  shows "(if too_long m (t + 4) then Fail e else rbind (wasm_write m t (le_bytes 4 v)) (\<lambda>m. Ret (g m))) =
    (if unat t + 4 \<le> length m then Ret (g (put_bytes m (unat t) (le_bytes 4 v)))
     else if 2 ^ 64 \<le> unat t + 4 \<and> unat t + 4 - 2 ^ 64 \<le> length m then Panics else Fail e)"
proof (cases "unat t + 4 < 2 ^ 64")
  case True
  then have "unat (t + 4) = unat t + 4" by (simp add: unat_word_ariths)
  then show ?thesis using True by (simp add: too_long_def wasm_write_def word_le_nat_alt)
next
  case False
  have "unat t < 2 ^ 64" using unsigned_less [of t] by simp
  then have u: "unat (t + 4) = unat t + 4 - 2 ^ 64" using False by (simp add: unat_word_ariths mod_if)
  then have "\<not> t \<le> t + 4" using False \<open>unat t < 2 ^ 64\<close> by (simp add: word_le_nat_alt)
  then show ?thesis using u False assms by (auto simp: too_long_def wasm_write_def)
qed

lemma ucast_of_int: "ucast (of_int k :: u64) = (of_int k :: u32)"
  by transfer (simp add: min_def)

lemma store_ref:
  assumes "length (wi_memory (ws_inst s)) < 2 ^ 64"
  shows "store_i32 (of_nat off) s = rbind (rstore off (rst s)) (\<lambda>r. Ret (Next (put_r r s)))"
proof (cases "ws_stack s")
  case (Cons v st)
  show ?thesis
  proof (cases st)
    case (Cons addr st')
    let ?s = "s\<lparr>ws_stack := st'\<rparr>"
    have "store_i32 (of_nat off) s =
        (if too_long (wi_memory (ws_inst s)) (as_usize addr + of_nat off + 4) then Fail ''Memory store out of bounds''
         else rbind (wasm_write (wi_memory (ws_inst s)) (as_usize addr + of_nat off) (le_bytes 4 v))
           (\<lambda>m. Ret (Next (?s\<lparr>ws_inst := (ws_inst s)\<lparr>wi_memory := m\<rparr>\<rparr>))))"
      using \<open>ws_stack s = v # st\<close> Cons by (simp add: store_i32_def pop_def Let_def)
    then show ?thesis
      using \<open>ws_stack s = v # st\<close> Cons
      by (simp add: store_bounds [OF assms] store_target rstore_def rpop_def rst_def Let_def)
  qed (use Cons in \<open>simp add: store_i32_def rstore_def pop_def rpop_def rst_def\<close>)
qed (simp add: store_i32_def rstore_def pop_def rpop_def rst_def)

lemma arith_ref: "op_arith f e s = rbind (rarith f e (rst s)) (\<lambda>r. Ret (Next (put_r r s)))"
  by (cases "ws_stack s"; cases "tl (ws_stack s)")
    (simp_all add: op_arith_def rarith_def pop_def rpop_def rst_def push_def)

lemma drop_ref: "op_drop s = rbind (ref Drop (rst s)) (\<lambda>r. Ret (Next (put_r r s)))"
  by (cases "ws_stack s") (simp_all add: op_drop_def pop_def rpop_def rst_def)

lemma lift_rbind: "lift h (rbind r f) = rbind (lift h r) (\<lambda>x. lift h (f x))"
  by (cases r) simp_all

definition resume :: "'h wstate \<Rightarrow> rstate wasm_result \<Rightarrow> ('h wstate \<Rightarrow> ('a, 'h) hrun) \<Rightarrow> ('a, 'h) hrun" where
  "resume s r k = rbind (lift (ws_host s) r) (\<lambda>r. k (put_r r s))"

lemma plain_basic:
  assumes "wf b" "code = pre @ enc b @ post" "length code < 2 ^ 64" "ws_pc s = at (length pre)"
    "length (wi_memory (ws_inst s)) < 2 ^ 64"
  shows "exec_op call code (code ! length pre) (s\<lparr>ws_pc := ws_pc s + 1\<rparr>) =
           resume (s\<lparr>ws_pc := at (length pre + length (enc b))\<rparr>) (ref b (rst s)) (\<lambda>s. Ret (Next s))"
proof (cases b)
  case (Store a n)
  have c: "code = pre @ 0x36 # a @ n @ post" using assms(2) Store by simp
  have n: "number_bytes a" "number_bytes n" using assms(1) Store by simp_all
  note O = leb_operand [of a pre "0x36" "n @ post", folded c, OF n(1) assms(3)]
    leb_operand2 [of n pre "0x36" a post, folded c, OF n(2) assms(3)]
  have "op_store code (s\<lparr>ws_pc := ws_pc s + 1\<rparr>) =
      store_i32 (of_nat (leb_value n)) (s\<lparr>ws_pc := at (length pre + length (enc b))\<rparr>)"
    using O assms(4) Store by (simp add: op_store_def at_add add.assoc)
  moreover have "code ! length pre = 0x36" by (simp add: c)
  ultimately show ?thesis using Store assms(5) store_ref [of "s\<lparr>ws_pc := at (length pre + length (enc b))\<rparr>" "leb_value n"]
    by (simp add: exec_op_def plain_op_def resume_def lift_rbind)
next
  case (Const n)
  have c: "code = pre @ 0x41 # n @ post" using assms(2) Const by simp
  have n: "number_bytes n" using assms(1) Const by simp
  note O = signed_operand [of n pre "0x41" post, folded c, OF n assms(3)]
  have "code ! length pre = 0x41" by (simp add: c)
  then show ?thesis using Const O assms(4)
    by (simp add: exec_op_def plain_op_def op_const_def at_add or_err_def resume_def rst_def push_def ucast_of_int)
next
  case (LocalGet n)
  have c: "code = pre @ 0x20 # n @ post" using assms(2) LocalGet by simp
  have n: "number_bytes n" using assms(1) LocalGet by simp
  note O = leb_operand [of n pre "0x20" post, folded c, OF n assms(3)]
  have "code ! length pre = 0x20" by (simp add: c)
  then show ?thesis using LocalGet O assms(4) unat_number [OF n]
    by (simp add: exec_op_def plain_op_def op_local_get_def at_add resume_def rst_def push_def)
next
  case (LocalSet n)
  have c: "code = pre @ 0x21 # n @ post" using assms(2) LocalSet by simp
  have n: "number_bytes n" using assms(1) LocalSet by simp
  note O = leb_operand [of n pre "0x21" post, folded c, OF n assms(3)]
  have "code ! length pre = 0x21" by (simp add: c)
  then show ?thesis using LocalSet O assms(4) unat_number [OF n]
    by (cases "ws_stack s")
      (simp_all add: exec_op_def plain_op_def op_local_set_def at_add resume_def rst_def pop_def rpop_def not_less)
qed (use assms in \<open>simp_all add: exec_op_def plain_op_def arith_ref drop_ref at_add resume_def lift_rbind
      del: ref.simps(2) cong: if_cong\<close>)

declare wasm_loop.simps [simp del]

lemma ref_length: "ref b r = Ret r' \<Longrightarrow> length (snd (snd r')) = length (snd (snd r))"
  by (cases b; cases r)
    (auto simp: rpop_def rarith_def rstore_def Let_def split: list.splits if_splits prod.splits)

lemma refs_length: "refs is r = Ret r' \<Longrightarrow> length (snd (snd r')) = length (snd (snd r))"
  by (induction "is" r arbitrary: r' rule: refs.induct) (auto dest!: ref_length)

lemma resume_host [simp]: "ws_host (put_r r s) = ws_host s" "ws_ctrl (put_r r s) = ws_ctrl s" "ws_pc (put_r r s) = ws_pc s"
  by (cases r; simp)+

lemma resume_rbind: "resume s (rbind r f) k = resume s r (\<lambda>s'. resume s' (f (rst s')) k)"
  by (cases r) (simp_all add: resume_def)

lemma push_ctrl_simps [simp]: "rst (push_ctrl op a e s) = rst s" "ws_host (push_ctrl op a e s) = ws_host s"
  by (simp_all add: push_ctrl_def rst_def)

lemma exec_nest:
  assumes "wfs body" "code = (pre @ [if l then 0x03 else 0x02, t]) @ encs body @ 0x0B # post" "length code < 2 ^ 64"
    "ws_pc s = at (length pre)"
  shows "wasm_loop (Suc fuel) call code s =
     wasm_loop fuel call code (push_ctrl (if l then 0x03 else 0x02) (at (length pre + 2))
       (at (length pre + 2 + length (encs body))) (s\<lparr>ws_pc := at (length pre + 2)\<rparr>))"
proof -
  let ?op = "if l then 0x03 else 0x02 :: u8"
  have l: "unat (at (length pre)) = length pre" "unat (at (Suc (length pre))) = Suc (length pre)"
      "Suc (length pre) < length code" "code ! length pre = ?op"
    using assms(2,3) by (simp_all add: unat_at nth_append)
  have e: "find_matching_end code (at (length pre + 2)) = Ret (at (length pre + 2 + length (encs body)))"
    using find_matching_end_encs [OF assms(1-3)] by simp
  have "exec_op call code (code ! length pre) (s\<lparr>ws_pc := ws_pc s + 1\<rparr>) =
      lift (ws_host s) (op_block code ?op (s\<lparr>ws_pc := ws_pc s + 1\<rparr>))"
    unfolding l(4) by (simp add: exec_op_def plain_op_def)
  also have "op_block code ?op (s\<lparr>ws_pc := ws_pc s + 1\<rparr>) = Ret (Next (push_ctrl ?op (at (length pre + 2))
      (at (length pre + 2 + length (encs body))) (s\<lparr>ws_pc := at (length pre + 2)\<rparr>)))"
    using l(2,3) e assms(4) by (simp add: op_block_def byte_at_def at_add Let_def)
  finally show ?thesis using l assms(4) by (simp add: wasm_loop.simps(2))
qed

lemma exec_end:
  assumes "code = pre @ encs body @ 0x0B # post" "length code < 2 ^ 64" "ws_pc s = at (length pre + length (encs body))"
    "ws_ctrl s = fr # frs"
  shows "wasm_loop (Suc fuel) call code s =
     wasm_loop fuel call code (s\<lparr>ws_pc := at (Suc (length pre + length (encs body))), ws_ctrl := frs\<rparr>)"
proof -
  let ?n = "length pre + length (encs body)"
  have "?n < length code" "code ! ?n = 0x0B" "unat (at ?n) = ?n"
    using assms(1,2) by (simp_all add: nth_append unat_at)
  then show ?thesis
    using assms(3,4) by (simp add: wasm_loop.simps(2) exec_op_def plain_op_def op_end_def at_add)
qed

lemma exec_encs:
  assumes "wfs is" "code = pre @ encs is @ post" "length code < 2 ^ 64" "ws_pc s = at (length pre)"
    "length (wi_memory (ws_inst s)) < 2 ^ 64"
  shows "wasm_loop (rounds is + fuel) call code s =
           resume (s\<lparr>ws_pc := at (length pre + length (encs is))\<rparr>) (refs is (rst s)) (wasm_loop fuel call code)"
  using assms
proof (induction "is" arbitrary: pre post s fuel rule: encs.induct)
  case 1
  then show ?case by (cases s) (simp add: resume_def)
next
  case (2 b "is")
  let ?post = "encs is @ post"
  have c: "code = pre @ enc b @ ?post" using 2(3) by simp
  have l: "length pre < length code" using c enc_op [of b] by auto
  then have "unat (at (length pre)) = length pre" using 2(4) by (simp add: unat_at)
  then have "wasm_loop (rounds (Basic b # is) + fuel) call code s =
      rbind (exec_op call code (code ! length pre) (s\<lparr>ws_pc := ws_pc s + 1\<rparr>))
        (\<lambda>r. case r of Next s \<Rightarrow> wasm_loop (rounds is + fuel) call code s | Finish s \<Rightarrow> Ret s)"
    using l 2(5) by (simp add: wasm_loop.simps(2))
  also have "\<dots> = resume (s\<lparr>ws_pc := at (length pre + length (enc b))\<rparr>) (ref b (rst s)) (wasm_loop (rounds is + fuel) call code)"
    using plain_basic [of b code pre ?post s call] c 2(2,4-6) by (cases "ref b (rst s)") (simp_all add: resume_def)
  also have "\<dots> = resume (s\<lparr>ws_pc := at (length pre + length (encs (Basic b # is)))\<rparr>) (refs (Basic b # is) (rst s)) (wasm_loop fuel call code)"
  proof (cases "ref b (rst s)")
    case (Ret r)
    let ?s = "(put_r r s)\<lparr>ws_pc := at (length (pre @ enc b))\<rparr>"
    have "length (wi_memory (ws_inst ?s)) < 2 ^ 64" using ref_length [OF Ret] 2(6) by (cases r) (simp add: rst_def)
    then have "wasm_loop (rounds is + fuel) call code ?s =
        resume (?s\<lparr>ws_pc := at (length (pre @ enc b) + length (encs is))\<rparr>) (refs is (rst ?s)) (wasm_loop fuel call code)"
      using 2(2,4) c by (intro 2(1)) auto
    with Ret show ?thesis by (simp add: resume_def add.assoc)
  qed (simp_all add: resume_def)
  finally show ?case .
next
  case (3 l t body "is")
  let ?op = "if l then 0x03 else 0x02 :: u8" and ?n = "length (pre @ [if l then 0x03 else 0x02 :: u8, t])"
  let ?e = "?n + length (encs body)" and ?post = "encs is @ post"
  let ?s = "push_ctrl ?op (at ?n) (at ?e) (s\<lparr>ws_pc := at ?n\<rparr>)"
  have c: "code = (pre @ [?op, t]) @ encs body @ 0x0B # ?post" using 3(4) by simp
  have w: "wfs body" "wfs is" using 3(3) by simp_all
  have "wasm_loop (rounds (Nest l t body # is) + fuel) call code s =
      wasm_loop (rounds body + Suc (rounds is + fuel)) call code ?s"
    using exec_nest [OF w(1) c 3(5,6), of "rounds body + Suc (rounds is + fuel)" call] by (simp add: add.assoc)
  also have "\<dots> = resume (?s\<lparr>ws_pc := at ?e\<rparr>) (refs body (rst ?s)) (wasm_loop (Suc (rounds is + fuel)) call code)"
    using 3(5,7) c w by (intro 3(1)) (auto simp: push_ctrl_def)
  also have "\<dots> = resume (s\<lparr>ws_pc := at (length pre + length (encs (Nest l t body # is)))\<rparr>) (refs (Nest l t body # is) (rst s)) (wasm_loop fuel call code)"
  proof (cases "refs body (rst s)")
    case (Ret r)
    let ?t = "(put_r r s)\<lparr>ws_pc := at (length ((pre @ [?op, t]) @ encs body @ [0x0B]))\<rparr>"
    have "length (wi_memory (ws_inst ?t)) < 2 ^ 64" using refs_length [OF Ret] 3(7) by (cases r) (simp add: rst_def)
    then have "wasm_loop (rounds is + fuel) call code ?t =
        resume (?t\<lparr>ws_pc := at (length ((pre @ [?op, t]) @ encs body @ [0x0B]) + length (encs is))\<rparr>) (refs is (rst ?t)) (wasm_loop fuel call code)"
      using 3(5) c w by (intro 3(2)) auto
    moreover have "wasm_loop (Suc (rounds is + fuel)) call code (put_r r (?s\<lparr>ws_pc := at ?e\<rparr>)) = wasm_loop (rounds is + fuel) call code ?t"
      using exec_end [OF c 3(5), of "put_r r (?s\<lparr>ws_pc := at ?e\<rparr>)"] by (cases r) (simp add: push_ctrl_def)
    ultimately show ?thesis using Ret by (simp add: resume_def add.assoc split del: if_split)
  qed (simp_all add: resume_def)
  finally show ?case .
qed

text \<open>(C8) On a function whose body is well-formed structured code without branches (constants,
  arithmetic, locals, stores, and blocks and loops nested to any depth) the interpreter gives what
  the reference semantics over the abstract syntax gives, the errors and the panic included, and
  as many rounds of the loop as the code has instructions are enough.\<close>

theorem execute_structured:
  assumes "unat f < length (wi_functions inst)" "wi_functions inst ! unat f = Internal t decls (encs is @ [0x0B])"
    "wfs is" "length (encs is) + 1 < 2 ^ 64" "length (wi_memory inst) < 2 ^ 64" "rounds is < fuel"
  shows "execute_function (Suc depth) fuel ops inst f args h =
     (case refs is ([], args @ concat (map (\<lambda>d. replicate (unat (ld_count d)) 0) decls), wi_memory inst) of
        Ret (st, _, m) \<Rightarrow> Ret (if st = [] then None else Some (last st), inst\<lparr>wi_memory := m\<rparr>, h)
      | Fail e \<Rightarrow> Fail (e, h)
      | Panics \<Rightarrow> Panics
      | OutOfFuel \<Rightarrow> OutOfFuel)"
proof -
  let ?code = "encs is @ [0x0B]" and ?s = "enter inst decls args h"
  from assms(6) obtain k where k: "fuel = rounds is + Suc k" by (metis add_Suc_right less_iff_Suc_add)
  have len: "length ?code < 2 ^ 64" using assms(4) by simp
  have loop: "wasm_loop fuel (execute_function depth fuel ops) ?code ?s =
      resume (?s\<lparr>ws_pc := at (length (encs is))\<rparr>) (refs is (rst ?s)) (wasm_loop (Suc k) (execute_function depth fuel ops) ?code)"
    using exec_encs [OF assms(3), of ?code "[]" "[0x0B]" ?s "Suc k" "execute_function depth fuel ops"] len assms(5)
    by (simp add: k enter_def at_def)
  have fin: "wasm_loop (Suc k) call ?code s' = Ret (s'\<lparr>ws_pc := at (Suc (length (encs is)))\<rparr>)"
    if "ws_pc s' = at (length (encs is))" "ws_ctrl s' = []" for s' call
    using that assms(4) by (simp add: wasm_loop.simps(2) unat_at exec_op_def plain_op_def op_end_def at_add)
  have r: "rst ?s = ([], args @ concat (map (\<lambda>d. replicate (unat (ld_count d)) 0) decls), wi_memory inst)"
    by (simp add: rst_def enter_def)
  have "execute_function (Suc depth) fuel ops inst f args h =
      rbind (wasm_loop fuel (execute_function depth fuel ops) ?code ?s)
        (\<lambda>s. Ret (if ws_stack s = [] then None else Some (last (ws_stack s)), ws_inst s, ws_host s))"
    using assms(1,2) by simp
  then show ?thesis
    unfolding loop resume_def
    by (cases "refs is (rst ?s)") (auto simp: fin r [symmetric] enter_def)
qed

text \<open>A function that computes \<open>2 * 3\<close> inside a block and one that stores at address \<open>- 1\<close>.\<close>

definition demo_code :: "winstr list" where
  "demo_code = [Nest False 0x7F [Basic (Const [2]), Basic (Const [3]), Basic Mul]]"

definition bad_store :: "winstr list" where
  "bad_store = [Basic (Const [0x7F]), Basic (Const [0]), Basic (Store [2] [0])]"

definition demo_instance :: "winstr list \<Rightarrow> wasm_instance" where
  "demo_instance is = \<lparr>wi_memory = replicate 8 0, wi_functions = [Internal 0 [] (encs is @ [0x0B])],
                       wi_type_sigs = [], wi_start = Some 0\<rparr>"

definition wasm_demo_ops :: "bytes host_ops" where
  "wasm_demo_ops = \<lparr>h_print = (\<lambda>b out. out @ [b]), h_read_stdin = (\<lambda>n out. ([], out)), h_exit = (\<lambda>_ out. Some out)\<rparr>"

theorem execute_structured_witness:
  "execute_function 1 9 wasm_demo_ops (demo_instance demo_code) 0 [] [] = Ret (Some 6, demo_instance demo_code, []) \<and>
   execute_function 1 9 wasm_demo_ops (demo_instance bad_store) 0 [] [] = Panics"
proof
  have n: "number_bytes [x] \<longleftrightarrow> \<not> continues x" for x by (simp add: number_bytes_def)
  have c: "\<not> continues 2" "\<not> continues 3" "\<not> continues 0" "\<not> continues 0x7F" by (simp_all add: continues_def)
  have "refs demo_code ([], [], replicate 8 0) = Ret ([6], [], replicate 8 0)" by code_simp
  moreover have "wfs demo_code" using n c by (simp add: demo_code_def)
  moreover have "rounds demo_code < 9" "length (encs demo_code) + 1 < 2 ^ 64" by (simp_all add: demo_code_def)
  ultimately show "execute_function 1 9 wasm_demo_ops (demo_instance demo_code) 0 [] [] = Ret (Some 6, demo_instance demo_code, [])"
    using execute_structured [of 0 "demo_instance demo_code" 0 "[]" demo_code 9 0 wasm_demo_ops "[]" "[]"]
    by (simp add: demo_instance_def)
  have "refs bad_store ([], [], replicate 8 0) = Panics"
    by (simp add: bad_store_def rstore_def rpop_def Let_def)
  moreover have "wfs bad_store" using n c by (simp add: bad_store_def)
  moreover have "rounds bad_store < 9" "length (encs bad_store) + 1 < 2 ^ 64" by (simp_all add: bad_store_def)
  ultimately show "execute_function 1 9 wasm_demo_ops (demo_instance bad_store) 0 [] [] = Panics"
    using execute_structured [of 0 "demo_instance bad_store" 0 "[]" bad_store 9 0 wasm_demo_ops "[]" "[]"]
    by (simp add: demo_instance_def)
qed


end
