(* ===== verification/Ziqa_Wasm_Limits.thy ===== *)
theory Ziqa_Wasm_Limits
  imports Ziqa_Wasm_Struct
begin

text \<open>
  Two limits of the WebAssembly code: an \<open>if\<close> whose condition is zero and that has no \<open>else\<close> ends
  the whole function, and the section loop of the parser returns when no section length wraps and
  can run forever when one does.
\<close>

section \<open>An \<open>if\<close> that is not taken\<close>

declare scan_else.simps [simp del]

lemma scan_nest:
  assumes "pc < e" "pc + 1 < e" "byte_at code pc = Ret op" "op \<in> {0x02, 0x03}"
  shows "scan_else (Suc fuel) code e depth pc = scan_else fuel code e (depth + 1) (pc + 1 + 1)"
proof -
  have "\<not> e \<le> pc" using assms(1) by simp
  with assms(2-) show ?thesis by (elim insertE) (simp_all add: scan_else.simps(2) Let_def)
qed

lemma scan_end:
  assumes "pc < e" "byte_at code pc = Ret 0x0B"
  shows "scan_else (Suc fuel) code e (depth + 1) pc = scan_else fuel code e depth (pc + 1)"
proof -
  have "\<not> e \<le> pc" using assms(1) by simp
  with assms(2) show ?thesis by (simp add: scan_else.simps(2))
qed

lemma scan_else_encs:
  assumes "wfs is" "code = pre @ encs is @ post" "length code < 2 ^ 64" "length pre + length (encs is) \<le> e" "e \<le> length code"
  shows "scan_else (rounds is + fuel) code (at e) depth (at (length pre)) =
           scan_else fuel code (at e) depth (at (length pre + length (encs is)))"
  using assms
proof (induction "is" arbitrary: pre post depth fuel rule: encs.induct)
  case (2 b "is")
  obtain op rest where op: "enc b = op # rest" "op \<notin> {0x02, 0x03, 0x04, 0x0B, 0x05, 0x0C, 0x0D, 0x10}" using enc_op by blast
  let ?post = "encs is @ post"
  have c: "code = pre @ enc b @ ?post" using 2(3) by simp
  have l: "length pre < 2 ^ 64" "length pre < length code" using 2(4) c op(1) by auto
  have "length pre < e" using 2(5) op(1) by simp
  then have lt: "\<not> at e \<le> at (length pre)" using 2(4,6) l by (simp add: word_le_nat_alt unat_at)
  have nth: "byte_at code (at (length pre)) = Ret op" using l by (simp add: byte_at_def unat_at c op(1))
  have "scan_else (rounds (Basic b # is) + fuel) code (at e) depth (at (length pre)) =
      scan_else (rounds is + fuel) code (at e) depth (at (length (pre @ enc b)))"
    using op(2) lt nth skip_basic [of b pre ?post] 2(2,4) by (simp add: scan_else.simps(2) c [symmetric] Let_def)
  also have "\<dots> = scan_else fuel code (at e) depth (at (length (pre @ enc b) + length (encs is)))"
    using 2(2-6) c by (intro 2(1)) auto
  finally show ?case by (simp add: add.assoc)
next
  case (3 l t body "is")
  let ?op = "if l then 0x03 else 0x02 :: u8"
  let ?pre = "pre @ [?op, t]" and ?post = "0x0B # encs is @ post"
  let ?n = "length ?pre + length (encs body)"
  have c: "code = ?pre @ encs body @ ?post" using 3(4) by simp
  have le: "length pre < e" "Suc (length pre) < e" "?n < e" using 3(6) by auto
  have lt: "at i < at e" if "i < e" for i
    using that 3(5,7) by (simp add: word_less_nat_alt unat_at)
  have nth: "byte_at code (at (length pre)) = Ret ?op" using 3(5) by (simp add: byte_at_def unat_at c)
  have nth2: "byte_at code (at ?n) = Ret 0x0B" using 3(5) by (simp add: byte_at_def unat_at c nth_append)
  have "scan_else (rounds (Nest l t body # is) + fuel) code (at e) depth (at (length pre)) =
      scan_else (rounds body + (Suc (rounds is) + fuel)) code (at e) (depth + 1) (at (length ?pre))"
    using scan_nest [OF lt [OF le(1)] _ nth, of "rounds body + (Suc (rounds is) + fuel)" depth] lt [OF le(2)]
    by (simp add: at_add add.assoc)
  also have "\<dots> = scan_else (Suc (rounds is) + fuel) code (at e) (depth + 1) (at ?n)"
    using 3(3,5,6,7) c by (intro 3(1)) auto
  also have "\<dots> = scan_else (rounds is + fuel) code (at e) depth (at (length (?pre @ encs body @ [0x0B])))"
    using scan_end [OF lt [OF le(3)] nth2, of "rounds is + fuel" depth] by (simp add: at_add)
  also have "\<dots> = scan_else fuel code (at e) depth (at (length (?pre @ encs body @ [0x0B]) + length (encs is)))"
    using 3(3,5,6,7) c by (intro 3(2)) auto
  finally show ?case by (simp add: add.assoc)
qed simp

lemma no_else:
  assumes "wfs body" "code = pre @ encs body @ 0x0B # post" "length code < 2 ^ 64"
  shows "scan_else (length code + 1) code (at (length pre + length (encs body))) 1 (at (length pre)) = Ret None"
proof -
  have "rounds body \<le> length code" using rounds_le [of body] assms(2) by simp
  then obtain k where k: "length code + 1 = rounds body + Suc k" by (metis add_Suc_right le_iff_add Suc_eq_plus1)
  show ?thesis unfolding k using assms
    by (subst scan_else_encs [OF assms]) (auto simp: scan_else.simps(2))
qed

lemma exec_if_skip:
  assumes "wfs body" "code = pre @ 0x04 # bt # encs body @ 0x0B # rest" "length code < 2 ^ 64"
    "ws_pc s = at (length pre)" "ws_stack s = 0 # st"
  shows "wasm_loop (Suc fuel) call code s =
           wasm_loop fuel call code (s\<lparr>ws_pc := at (length pre + 2 + length (encs body)), ws_stack := st\<rparr>)"
proof -
  let ?n = "length pre" and ?e = "length pre + 2 + length (encs body)"
  have c: "code = (pre @ [0x04, bt]) @ encs body @ 0x0B # rest" using assms(2) by simp
  have u: "unat (at ?n) = ?n" "unat (at (Suc ?n)) = Suc ?n" "Suc ?n < length code" "code ! ?n = 0x04"
    using assms(2,3) by (simp_all add: unat_at)
  have e: "find_matching_end code (at (?n + 2)) = Ret (at ?e)"
    using find_matching_end_encs [OF assms(1) c assms(3)] by simp
  have n: "scan_else (length code + 1) code (at ?e) 1 (at (?n + 2)) = Ret None"
    using no_else [OF assms(1) c assms(3)] by simp
  have p: "ws_pc s + 1 = at (Suc ?n)" "at (Suc ?n) + 1 = at (?n + 2)" using assms(4) by (simp_all add: at_add)
  have "op_if code (s\<lparr>ws_pc := at (Suc ?n)\<rparr>) = Ret (Next (s\<lparr>ws_pc := at ?e, ws_stack := st\<rparr>))"
    unfolding op_if_def pop_def byte_at_def using assms(5) u(2,3) p(2) e n by (simp add: Let_def)
  then show ?thesis using u assms(4)
    by (simp only: wasm_loop.simps(2) exec_op_def plain_op_def p) (simp add: at_add)
qed

lemma exec_function_end:
  assumes "n < length code" "code ! n = 0x0B" "length code < 2 ^ 64" "ws_pc s = at n" "ws_ctrl s = []"
  shows "wasm_loop (Suc fuel) call code s = Ret (s\<lparr>ws_pc := at (Suc n)\<rparr>)"
  using assms by (simp add: wasm_loop.simps(2) unat_at exec_op_def plain_op_def op_end_def at_add)

text \<open>(C20) A function whose body is structured code that leaves zero on top of the stack, an \<open>if\<close>
  without \<open>else\<close>, and any further code: the interpreter returns at the end of the \<open>if\<close> and never
  runs the code after it, since the \<open>end\<close> of an \<open>if\<close> that was not taken is taken for the end of the
  function.\<close>

theorem if_not_taken_ends_function:
  assumes "unat f < length (wi_functions inst)"
    "wi_functions inst ! unat f = Internal t decls (encs is @ 0x04 # bt # encs body @ 0x0B # rest)"
    "wfs is" "wfs body" "length (encs is @ 0x04 # bt # encs body @ 0x0B # rest) < 2 ^ 64" "length (wi_memory inst) < 2 ^ 64"
    "refs is ([], args @ concat (map (\<lambda>d. replicate (unat (ld_count d)) 0) decls), wi_memory inst) = Ret (0 # st, ls, m)"
  shows "execute_function (Suc depth) (rounds is + 2 + k) ops inst f args h =
           Ret (if st = [] then None else Some (last st), inst\<lparr>wi_memory := m\<rparr>, h)"
proof -
  let ?code = "encs is @ 0x04 # bt # encs body @ 0x0B # rest" and ?s = "enter inst decls args h"
  let ?e = "length (encs is) + 2 + length (encs body)"
  let ?call = "execute_function depth (rounds is + 2 + k) ops"
  define s1 where "s1 = (put_r (0 # st, ls, m) ?s)\<lparr>ws_pc := at (length (encs is))\<rparr>"
  have s1: "ws_pc s1 = at (length (encs is))" "ws_stack s1 = 0 # st" "ws_ctrl s1 = []" "ws_host s1 = h"
    "ws_inst s1 = inst\<lparr>wi_memory := m\<rparr>"
    by (simp_all add: s1_def enter_def)
  have "wasm_loop (rounds is + (2 + k)) ?call ?code ?s =
      resume (?s\<lparr>ws_pc := at (length (encs is))\<rparr>) (refs is (rst ?s)) (wasm_loop (2 + k) ?call ?code)"
    using exec_encs [OF assms(3), of ?code "[]" "0x04 # bt # encs body @ 0x0B # rest" ?s "2 + k" ?call] assms(5,6)
    by (simp add: enter_def at_def del: add_2_eq_Suc)
  also have "\<dots> = wasm_loop (2 + k) ?call ?code s1"
    using assms(7) by (simp add: resume_def rst_def enter_def s1_def del: add_2_eq_Suc)
  also have "\<dots> = wasm_loop (Suc k) ?call ?code (s1\<lparr>ws_pc := at ?e, ws_stack := st\<rparr>)"
    using exec_if_skip [OF assms(4) refl assms(5) s1(1,2)] by simp
  also have "\<dots> = Ret (s1\<lparr>ws_stack := st, ws_pc := at (Suc ?e)\<rparr>)"
    using exec_function_end [of ?e ?code "s1\<lparr>ws_pc := at ?e, ws_stack := st\<rparr>" k ?call] assms(5) s1(3)
    by (simp add: nth_append)
  finally have "wasm_loop (rounds is + 2 + k) ?call ?code ?s = Ret (s1\<lparr>ws_stack := st, ws_pc := at (Suc ?e)\<rparr>)"
    by (simp only: add.assoc)
  then show ?thesis using assms(1,2) s1 by simp
qed

text \<open>A function that pushes 0, has an empty \<open>if\<close>, then pushes 7 and ends: it returns nothing.\<close>

definition if_instance :: wasm_instance where
  "if_instance = \<lparr>wi_memory = [], wi_functions = [Internal 0 [] [0x41, 0, 0x04, 0x40, 0x0B, 0x41, 7, 0x0B]],
                  wi_type_sigs = [], wi_start = Some 0\<rparr>"

theorem if_not_taken_ends_function_witness:
  "execute_function 1 9 wasm_demo_ops if_instance 0 [] [] = Ret (None, if_instance, [])"
proof -
  have "wfs [Basic (Const [0])]" by (simp add: number_bytes_def continues_def)
  then show ?thesis
    using if_not_taken_ends_function [of 0 if_instance 0 "[]" "[Basic (Const [0])]" "0x40" "[]" "[0x41, 7, 0x0B]" "[]" "[]" "[]" "[]" 0 6 wasm_demo_ops "[]"]
    by (simp add: if_instance_def)
qed

section \<open>The section loop of the parser\<close>

lemma times_fuel: "(\<And>s. f s \<noteq> OutOfFuel) \<Longrightarrow> times n f s \<noteq> OutOfFuel"
  by (induction n arbitrary: s) (auto simp: rbind_Fuel)

lemma leaf_fuel [simp]:
  "or_err x e \<noteq> OutOfFuel" "leb data off e \<noteq> OutOfFuel" "byte_at data i \<noteq> OutOfFuel" "range_of data a b \<noteq> OutOfFuel"
  by (auto simp: or_err_def leb_def byte_at_def range_of_def split: option.splits)

lemma read_name_fuel [simp]: "read_name data off e e' \<noteq> OutOfFuel"
  by (auto simp: read_name_def rbind_Fuel split: prod.splits)

lemma entry_fuel [simp]:
  "type_entry data s \<noteq> OutOfFuel" "import_entry data s \<noteq> OutOfFuel" "function_entry data s \<noteq> OutOfFuel"
  "memory_entry data s \<noteq> OutOfFuel" "export_entry data s \<noteq> OutOfFuel" "local_entry data d \<noteq> OutOfFuel"
  "data_entry data s \<noteq> OutOfFuel"
  by (auto simp: type_entry_def import_entry_def function_entry_def memory_entry_def export_entry_def
      local_entry_def data_entry_def rbind_Fuel Let_def split: prod.splits if_splits)

lemma code_entry_fuel [simp]: "code_entry data s \<noteq> OutOfFuel"
  using times_fuel [of "local_entry data"] by (auto simp: code_entry_def rbind_Fuel Let_def split: prod.splits)

lemma counted_fuel: "(\<And>s. entry data s \<noteq> OutOfFuel) \<Longrightarrow> counted data e entry s \<noteq> OutOfFuel"
  using times_fuel [of "entry data"] by (auto simp: counted_def rbind_Fuel Let_def split: prod.splits)

lemma section_fuel: "parse_section data i s \<noteq> OutOfFuel"
  unfolding parse_section_def using counted_fuel [of _ data] by (auto simp: rbind_Fuel split: prod.splits)

lemma load_segments_fuel: "load_segments segs m \<noteq> OutOfFuel"
  by (induction segs m rule: load_segments.induct) (auto simp: Let_def rbind_Fuel wasm_write_def)

lemma leb_unsigned_bytes: "leb_unsigned bs s r n = Some (v, n') \<Longrightarrow> n < n' \<and> n' \<le> n + length bs"
  by (induction bs s r n rule: leb_unsigned.induct) (fastforce simp: Let_def split: if_splits)+

lemma read_leb128_bytes:
  assumes "read_leb128 data off = Some (v, off')" "length data < 2 ^ 64"
  shows "unat off < unat off'" "unat off' \<le> length data"
proof -
  from assms(1) obtain n where n: "leb_unsigned (drop (unat off) data) 0 0 0 = Some (v, n)" "off' = off + of_nat n"
    by (auto simp: read_leb128_def)
  from leb_unsigned_bytes [OF n(1)] have b: "0 < n" "n \<le> length data - unat off" by auto
  then have "unat (of_nat n :: u64) = n" "unat off + n < 2 ^ LENGTH(64)" using assms(2) by (auto simp: unat_of_nat_small)
  then have "unat off' = unat off + n" unfolding n(2) by (subst unat_add_nowrap) auto
  then show "unat off < unat off'" "unat off' \<le> length data" using b by auto
qed

text \<open>No number in the module is so large that added to the position after it it wraps.\<close>

definition no_wrap :: "bytes \<Rightarrow> bool" where
  "no_wrap data \<longleftrightarrow> list_all (\<lambda>i. case read_leb128 data (of_nat i) of
       None \<Rightarrow> True | Some (v, off) \<Rightarrow> off \<le> off + v) [0..<length data]"

lemma no_wrapD:
  assumes "no_wrap data" "read_leb128 data off = Some (v, off')" shows "off' \<le> off' + v"
proof (cases "unat off < length data")
  case True
  then show ?thesis using assms by (auto simp: no_wrap_def list_all_iff dest: bspec [of _ _ "unat off"])
next
  case False
  then show ?thesis using assms(2) by (simp add: read_leb128_def)
qed

lemma sections_fuel:
  assumes "no_wrap data" "length data < 2 ^ 64"
  shows "length data - unat off < fuel \<Longrightarrow> parse_sections fuel data off p \<noteq> OutOfFuel"
proof (induction fuel arbitrary: off p)
  case (Suc fuel)
  show ?case
  proof (cases "unat off \<ge> length data")
    case False
    have step: "parse_sections fuel data (o' + v) p' \<noteq> OutOfFuel" if r: "read_leb128 data (off + 1) = Some (v, o')" for v o' p'
    proof -
      have "unat (off + 1) = unat off + 1" using False assms(2) by (subst unat_add_nowrap) auto
      then have "unat off < unat o'" using read_leb128_bytes [OF r assms(2)] by simp
      also have "\<dots> \<le> unat (o' + v)" using no_wrapD [OF assms(1) r] by (simp add: word_le_nat_alt)
      finally have "length data - unat (o' + v) < fuel" using Suc.prems False by simp
      then show ?thesis by (rule Suc.IH)
    qed
    then show ?thesis using False section_fuel
      by (auto simp: Let_def rbind_Fuel leb_def or_err_def split: option.splits if_splits)
  qed simp
qed simp

text \<open>A section of kind 0 whose length is \<open>2 ^ 64 - 11\<close>: it ends where it began.\<close>

definition loop_module :: bytes where
  "loop_module = [0x00, 0x61, 0x73, 0x6D, 1, 0, 0, 0,
                  0x00, 0xF5, 0xFF, 0xFF, 0xFF, 0xFF, 0xFF, 0xFF, 0xFF, 0xFF, 0x01]"

lemma loop_section: "parse_sections fuel loop_module 8 p = OutOfFuel"
proof (induction fuel)
  case (Suc fuel)
  have "read_leb128 loop_module 9 = Some (0xFFFFFFFFFFFFFFF5, 19)" by code_simp
  moreover have w: "(18446744073709551624 :: u64) = 8" by code_simp
  ultimately show ?case using Suc
    by (simp add: leb_def or_err_def) (simp add: loop_module_def parse_section_def w)
qed simp

text \<open>(C17) The parser: on a module in which no length wraps around, as many rounds of the section loop
  as the module has bytes are enough and \<open>parse_wasm\<close> returns an instance or an error or panics; but
  there is a module of 19 bytes, one section with a length near \<open>2 ^ 64\<close>, on which the loop never
  ends, since \<open>sec_end\<close> wraps around to the beginning of the section.\<close>

theorem parse_wasm_termination:
  assumes "length data < 2 ^ 64"
  shows "(no_wrap data \<longrightarrow> parse_wasm (length data) heap_ok data \<noteq> OutOfFuel) \<and>
         parse_wasm fuel heap_ok loop_module = OutOfFuel"
proof
  have "parse_wasm (length data) heap_ok data \<noteq> OutOfFuel" if "no_wrap data"
  proof (cases "length data < 8")
    case False
    then have "parse_sections (length data) data 8 wp_init \<noteq> OutOfFuel"
      using sections_fuel [OF that assms, of 8 "length data"] by simp
    then show ?thesis
      using load_segments_fuel by (auto simp: parse_wasm_def rbind_Fuel Let_def)
  qed (simp add: parse_wasm_def)
  then show "no_wrap data \<longrightarrow> parse_wasm (length data) heap_ok data \<noteq> OutOfFuel" ..
  have "take 4 loop_module = [0x00, 0x61, 0x73, 0x6D]" "slice loop_module 4 4 = [1, 0, 0, 0]" "\<not> length loop_module < 8"
    by (simp_all add: loop_module_def slice_def)
  then show "parse_wasm fuel heap_ok loop_module = OutOfFuel"
    by (simp add: parse_wasm_def loop_section)
qed

theorem parse_wasm_termination_witness:
  "no_wrap [0x00, 0x61, 0x73, 0x6D, 1, 0, 0, 0, 5, 3, 1, 0, 0] \<and>
   parse_wasm 13 (\<lambda>_. True) [0x00, 0x61, 0x73, 0x6D, 1, 0, 0, 0, 5, 3, 1, 0, 0] \<noteq> OutOfFuel"
proof
  show n: "no_wrap [0x00, 0x61, 0x73, 0x6D, 1, 0, 0, 0, 5, 3, 1, 0, 0]" by code_simp
  have l: "length [0x00 :: u8, 0x61, 0x73, 0x6D, 1, 0, 0, 0, 5, 3, 1, 0, 0] = 13" by simp
  show "parse_wasm 13 (\<lambda>_. True) [0x00, 0x61, 0x73, 0x6D, 1, 0, 0, 0, 5, 3, 1, 0, 0] \<noteq> OutOfFuel"
    using parse_wasm_termination [of "[0x00, 0x61, 0x73, 0x6D, 1, 0, 0, 0, 5, 3, 1, 0, 0]" "\<lambda>_. True" 0,
        unfolded l, THEN conjunct1, THEN mp, OF _ n] by simp
qed

end
