(* ===== verification/Ziqa_Kernel_Ops.thy ===== *)
theory Ziqa_Kernel_Ops
  imports Ziqa_Prelude
begin

text \<open>
  The buffer operations written in Zig (\<open>src/src/zig/kernel_ops.zig\<close>) and their Rust wrappers
  (\<open>src/src/zig_kernel_ops.rs\<close>): bitmap search, CRC-32, the search for a free inode slot, the count
  of leaked bits, the Internet checksum and the copies.  A pointer is the buffer it points to; an
  access beyond the buffer, which the Zig code does not check, is \<open>None\<close>.
\<close>

lemma unat_Suc_below:
  fixes i j :: "'a::len word"
  assumes "i < j"
  shows "unat (i + 1) = Suc (unat i)"
proof (rule unat_Suc_nowrap)
  have "unat i < unat j" using assms by (simp add: word_less_nat_alt)
  moreover have "unat j < 2 ^ LENGTH('a)" by (rule unsigned_less)
  ultimately show "unat i + 1 < 2 ^ LENGTH('a)" by linarith
qed

lemma unat_u32: "unat (w :: u32) < 4294967296"
proof -
  have "unat w < 2 ^ LENGTH(32)" by (rule unsigned_less)
  then show ?thesis by simp
qed

lemma unat_u8: "unat (w :: u8) < 256"
proof -
  have "unat w < 2 ^ LENGTH(8)" by (rule unsigned_less)
  then show ?thesis by simp
qed

lemma bit_ucast_u8: "bit (ucast (b :: u8) :: u32) n \<longleftrightarrow> n < 8 \<and> bit b n"
  by (auto simp: bit_ucast_iff dest: bit_imp_le_length)

lemma xor_cancel: "a XOR c = b XOR c \<longleftrightarrow> a = (b :: 'a::len word)"
proof
  assume "a XOR c = b XOR c"
  then have "(a XOR c) XOR c = (b XOR c) XOR c" by simp
  then show "a = b" by (simp add: xor.assoc)
qed simp

lemma xor_eq_0: "a XOR b = 0 \<longleftrightarrow> a = (b :: 'a::len word)"
  using xor_cancel [of a b b] by simp

lemma loop_measure: "i < j \<Longrightarrow> unat j - unat (i + 1) < unat j - unat (i :: 'a::len word)"
  using unat_Suc_below [of i j] by (simp add: word_less_nat_alt diff_less_mono2)

section \<open>Definitions\<close>

definition bit_mask :: "u32 \<Rightarrow> u8" where
  "bit_mask i = push_bit (unat (i mod 8)) 1"

function find_clear_from :: "bytes \<Rightarrow> u32 \<Rightarrow> u32 \<Rightarrow> u32 option" where
  "find_clear_from bitmap i end =
     (if i < end then
        if unat (i div 8) \<ge> length bitmap then None
        else if bitmap ! unat (i div 8) AND bit_mask i = 0 then Some i
        else find_clear_from bitmap (i + 1) end
      else Some 0xFFFFFFFF)"
  by pat_completeness auto
termination by (relation "measure (\<lambda>(_, i, end). unat end - unat i)") (simp_all add: loop_measure)

definition zig_bitmap_find_clear :: "bytes \<Rightarrow> u32 \<Rightarrow> u32 \<Rightarrow> u32 option" where
  "zig_bitmap_find_clear bitmap len_bytes start_bit = find_clear_from bitmap start_bit (len_bytes * 8)"

definition zig_block_copy :: "bytes \<Rightarrow> bytes \<Rightarrow> nat \<Rightarrow> bytes option" where
  "zig_block_copy dst src len =
     (if len \<le> length dst \<and> len \<le> length src then Some (put_bytes dst 0 (take len src)) else None)"

definition zig_block_zero :: "bytes \<Rightarrow> nat \<Rightarrow> bytes option" where
  "zig_block_zero dst len = (if len \<le> length dst then Some (put_bytes dst 0 (replicate len 0)) else None)"

text \<open>One round of the loop of \<open>crc32_byte\<close>, and the loop.\<close>

definition crc32_round :: "u32 \<Rightarrow> u32" where
  "crc32_round c = (if c AND 1 \<noteq> 0 then drop_bit 1 c XOR 0xEDB88320 else drop_bit 1 c)"

fun crc32_rounds :: "nat \<Rightarrow> u32 \<Rightarrow> u32" where
  "crc32_rounds 0 c = c"
| "crc32_rounds (Suc j) c = crc32_rounds j (crc32_round c)"

definition crc32_byte :: "u32 \<Rightarrow> u32" where
  "crc32_byte crc = crc32_rounds 8 crc"

definition crc32_table :: "u32 list" where
  "crc32_table = map (\<lambda>i. crc32_byte (of_nat i)) [0..<256]"

definition crc32_update :: "u32 \<Rightarrow> u8 \<Rightarrow> u32" where
  "crc32_update crc b = drop_bit 8 crc XOR crc32_table ! unat (ucast (crc AND 0xFF) XOR b)"

definition zig_crc32 :: "bytes \<Rightarrow> nat \<Rightarrow> u32 \<Rightarrow> u32 option" where
  "zig_crc32 data len init_crc =
     (if len \<le> length data then Some (NOT (foldl crc32_update (NOT init_crc) (take len data))) else None)"

function inode_free_from :: "bytes \<Rightarrow> u32 \<Rightarrow> u32 \<Rightarrow> u32 \<Rightarrow> u32 option" where
  "inode_free_from buf count stride i =
     (if i < count then
        if unat (i * stride) \<ge> length buf then None
        else if buf ! unat (i * stride) = 0 then Some i
        else inode_free_from buf count stride (i + 1)
      else Some 0xFFFFFFFF)"
  by pat_completeness auto
termination by (relation "measure (\<lambda>(_, count, _, i). unat count - unat i)") (simp_all add: loop_measure)

definition zig_inode_find_free :: "bytes \<Rightarrow> u32 \<Rightarrow> u32 \<Rightarrow> u32 \<Rightarrow> u32 option" where
  "zig_inode_find_free buf count stride start_id = inode_free_from buf count stride start_id"

function leaked_from :: "bytes \<Rightarrow> bytes \<Rightarrow> u32 \<Rightarrow> u32 \<Rightarrow> u32 \<Rightarrow> u32 option" where
  "leaked_from bitmap reachable i end count =
     (if i < end then
        if unat (i div 8) \<ge> length bitmap \<or> unat (i div 8) \<ge> length reachable then None
        else if bitmap ! unat (i div 8) AND bit_mask i \<noteq> 0 \<and> reachable ! unat (i div 8) AND bit_mask i = 0
             then leaked_from bitmap reachable (i + 1) end (count + 1)
             else leaked_from bitmap reachable (i + 1) end count
      else Some count)"
  by pat_completeness auto
termination by (relation "measure (\<lambda>(_, _, i, end, _). unat end - unat i)") (simp_all add: loop_measure)

definition zig_bitmap_count_leaked :: "bytes \<Rightarrow> bytes \<Rightarrow> u32 \<Rightarrow> u32 \<Rightarrow> u32 option" where
  "zig_bitmap_count_leaked bitmap reachable start_bit end_bit = leaked_from bitmap reachable start_bit end_bit 0"

text \<open>The sum of big-endian pairs, a last odd byte padded with zero, and the folding of carries.\<close>

fun inet_sum :: "u32 \<Rightarrow> bytes \<Rightarrow> u32" where
  "inet_sum acc (a # b # bs) = inet_sum (acc + (push_bit 8 (ucast a) OR ucast b)) bs"
| "inet_sum acc [a] = acc + push_bit 8 (ucast a)"
| "inet_sum acc [] = acc"

lemma inet_fold_less:
  fixes s :: u32
  assumes "drop_bit 16 s \<noteq> 0"
  shows "unat ((s AND 0xFFFF) + drop_bit 16 s) < unat s"
proof -
  define h where "h = drop_bit 16 s"
  have h: "unat h = unat s div 65536" unfolding h_def unat_drop_bit_eq by (simp add: drop_bit_eq_div)
  have "s AND 0xFFFF = take_bit 16 s" by (simp add: take_bit_eq_mask mask_eq_exp_minus_1)
  then have l: "unat (s AND 0xFFFF) = unat s mod 65536" by (simp only: unsigned_take_bit_eq) (simp add: take_bit_eq_mod)
  have "h \<noteq> 0" using assms by (simp add: h_def)
  then have "0 < unat h" by (simp add: unat_gt_0)
  moreover have "unat s = unat s div 65536 * 65536 + unat s mod 65536" by simp
  ultimately have "unat (s AND 0xFFFF) + unat h < unat s" unfolding l h by linarith
  moreover from this have "unat ((s AND 0xFFFF) + h) = unat (s AND 0xFFFF) + unat h"
    using unat_u32 [of s] by (intro unat_add_nowrap) simp
  ultimately show ?thesis by (simp add: h_def)
qed

function inet_fold :: "u32 \<Rightarrow> u32" where
  "inet_fold s = (if drop_bit 16 s \<noteq> 0 then inet_fold ((s AND 0xFFFF) + drop_bit 16 s) else s)"
  by pat_completeness auto
termination by (relation "measure unat") (auto simp: inet_fold_less)

definition zig_inet_checksum :: "bytes \<Rightarrow> nat \<Rightarrow> u16 option" where
  "zig_inet_checksum data len =
     (if len \<le> length data then Some (ucast (NOT (inet_fold (inet_sum 0 (take len data))) AND 0xFFFF)) else None)"

definition zig_packet_copy :: "bytes \<Rightarrow> bytes \<Rightarrow> nat \<Rightarrow> nat \<Rightarrow> (nat \<times> bytes) option" where
  "zig_packet_copy dst src src_len max_len =
     (let copy_len = min src_len max_len
      in if copy_len \<le> length dst \<and> copy_len \<le> length src
         then Some (copy_len, put_bytes dst 0 (take copy_len src)) else None)"

text \<open>The Rust wrappers.\<close>

definition none_if_max :: "u32 \<Rightarrow> u32 option" where
  "none_if_max r = (if r = 0xFFFFFFFF then None else Some r)"

definition bitmap_find_clear :: "bytes \<Rightarrow> u32 \<Rightarrow> u32 option option" where
  "bitmap_find_clear bitmap start_bit =
     map_option none_if_max (zig_bitmap_find_clear bitmap (of_nat (length bitmap)) start_bit)"

definition block_copy :: "bytes \<Rightarrow> bytes \<Rightarrow> bytes option" where
  "block_copy dst src = zig_block_copy dst src (min (length dst) (length src))"

definition block_zero :: "bytes \<Rightarrow> bytes option" where
  "block_zero dst = zig_block_zero dst (length dst)"

definition crc32 :: "bytes \<Rightarrow> u32" where
  "crc32 data = the (zig_crc32 data (length data) 0)"

definition inode_find_free :: "bytes \<Rightarrow> u32 \<Rightarrow> u32 \<Rightarrow> u32 \<Rightarrow> u32 option option" where
  "inode_find_free buf count stride start_id = map_option none_if_max (zig_inode_find_free buf count stride start_id)"

definition bitmap_count_leaked :: "bytes \<Rightarrow> bytes \<Rightarrow> u32 \<Rightarrow> u32 \<Rightarrow> u32 option" where
  "bitmap_count_leaked bitmap reachable start_bit end_bit = zig_bitmap_count_leaked bitmap reachable start_bit end_bit"

definition inet_checksum :: "bytes \<Rightarrow> u16" where
  "inet_checksum data = the (zig_inet_checksum data (length data))"

definition packet_copy :: "bytes \<Rightarrow> bytes \<Rightarrow> (nat \<times> bytes) option" where
  "packet_copy dst src = zig_packet_copy dst src (length src) (length dst)"

section \<open>CRC-32\<close>

lemma crc32_total: "crc32 data = NOT (foldl crc32_update (NOT 0) data)"
  by (simp add: crc32_def zig_crc32_def)

lemma round_bit: "crc32_round c = drop_bit 1 c XOR (if bit c 0 then 0xEDB88320 else 0)"
  by (auto simp: crc32_round_def bit_iff_and_drop_bit_eq_1 and_one_eq odd_iff_mod_2_eq_one)

lemma round_xor: "crc32_round (a XOR b) = crc32_round a XOR crc32_round b"
  by (rule bit_word_eqI) (auto simp: round_bit bit_xor_iff bit_drop_bit_eq)

lemma round_0 [simp]: "crc32_round c = 0 \<longleftrightarrow> c = 0"
proof
  assume r: "crc32_round c = 0"
  have p: "bit (0xEDB88320 :: u32) 31" by (simp add: bit_iff_odd)
  have "bit (crc32_round c) 31 = bit c 0"
    using p by (auto simp: round_bit bit_xor_iff bit_drop_bit_eq dest: bit_imp_le_length)
  with r have "\<not> bit c 0" by simp
  moreover from this r have "drop_bit 1 c = 0" by (simp add: round_bit)
  then have "\<not> bit (drop_bit 1 c) n" for n by simp
  then have "\<not> bit c (Suc n)" for n by (simp add: bit_drop_bit_eq)
  ultimately have "\<not> bit c n" for n by (cases n) auto
  then show "c = 0" by (intro bit_word_eqI) simp
qed (simp add: crc32_round_def)

lemma rounds_xor: "crc32_rounds n (a XOR b) = crc32_rounds n a XOR crc32_rounds n b"
  by (induction n arbitrary: a b) (simp_all add: round_xor)

lemma rounds_0 [simp]: "crc32_rounds n c = 0 \<longleftrightarrow> c = 0"
  by (induction n arbitrary: c) simp_all

lemma rounds_inj: "crc32_rounds n a = crc32_rounds n b \<longleftrightarrow> a = b"
proof -
  have "crc32_rounds n a = crc32_rounds n b \<longleftrightarrow> crc32_rounds n (a XOR b) = 0"
    by (simp only: rounds_xor xor_eq_0)
  also have "\<dots> \<longleftrightarrow> a = b" by (simp add: xor_eq_0)
  finally show ?thesis .
qed

lemma rounds_add: "crc32_rounds (m + n) c = crc32_rounds n (crc32_rounds m c)"
  by (induction m arbitrary: c) simp_all

lemma rounds_high: "take_bit n c = 0 \<Longrightarrow> crc32_rounds n c = drop_bit n c"
proof (induction n arbitrary: c)
  case (Suc n)
  have low: "\<not> bit c k" if "k < Suc n" for k using Suc.prems that by (metis bit_0_eq bit_take_bit_iff bot_apply bot_bool_def)
  have r: "crc32_round c = drop_bit 1 c" using low [of 0] by (simp add: round_bit)
  have "take_bit n (drop_bit 1 c) = 0"
    using low by (intro bit_word_eqI) (auto simp: bit_take_bit_iff bit_drop_bit_eq)
  from Suc.IH [OF this] show ?case by (simp add: r)
qed simp

lemma rounds_8: "crc32_rounds 8 c = drop_bit 8 c XOR crc32_rounds 8 (take_bit 8 c)"
proof -
  have c: "c = (c AND NOT (mask 8)) XOR take_bit 8 c"
    by (rule bit_word_eqI) (auto simp: bit_xor_iff bit_and_iff bit_not_iff bit_mask_iff bit_take_bit_iff)
  have "take_bit 8 (c AND NOT (mask 8)) = 0"
    by (rule bit_word_eqI) (auto simp: bit_and_iff bit_not_iff bit_mask_iff bit_take_bit_iff)
  then have "crc32_rounds 8 (c AND NOT (mask 8)) = drop_bit 8 (c AND NOT (mask 8))" by (rule rounds_high)
  also have "\<dots> = drop_bit 8 c"
    by (rule bit_word_eqI) (auto simp: bit_and_iff bit_not_iff bit_mask_iff bit_drop_bit_eq dest: bit_imp_le_length)
  finally show ?thesis using rounds_xor [of 8 "c AND NOT (mask 8)" "take_bit 8 c"] c by simp
qed

lemma update_rounds: "crc32_update c b = crc32_rounds 8 (c XOR ucast b)"
proof -
  have t: "crc32_table ! unat (w :: u8) = crc32_rounds 8 (ucast w)" for w
    using unat_u8 [of w] by (simp add: crc32_table_def crc32_byte_def)
  have u: "ucast (ucast (c AND 0xFF) XOR b) = take_bit 8 (c XOR ucast b)"
  proof (rule bit_word_eqI)
    have m: "(0xFF :: u32) = mask 8" by (simp add: mask_eq_exp_minus_1)
    fix n assume "n < LENGTH(32)"
    then show "bit (ucast (ucast (c AND 0xFF) XOR b) :: u32) n = bit (take_bit 8 (c XOR ucast b)) n"
      unfolding m by (auto simp: bit_ucast_u8 bit_ucast_iff [of "c AND _"] bit_xor_iff bit_and_iff bit_mask_iff bit_take_bit_iff)
  qed
  have d: "drop_bit 8 (c XOR ucast b) = drop_bit 8 c"
    by (rule bit_word_eqI) (auto simp: bit_drop_bit_eq bit_xor_iff bit_ucast_u8)
  show ?thesis by (simp only: crc32_update_def t u rounds_8 [of "c XOR ucast b"] d)
qed

text \<open>The bit-serial definition: one feedback step for every bit, the lowest bit of a byte first.\<close>

definition serial_step :: "u32 \<Rightarrow> bool \<Rightarrow> u32" where
  "serial_step c x = (if bit c 0 \<noteq> x then drop_bit 1 c XOR 0xEDB88320 else drop_bit 1 c)"

definition bits_of_byte :: "u8 \<Rightarrow> bool list" where
  "bits_of_byte b = map (bit b) [0..<8]"

definition crc32_serial :: "bytes \<Rightarrow> u32" where
  "crc32_serial data = NOT (foldl serial_step (NOT 0) (concat (map bits_of_byte data)))"

lemma serial_round: "crc32_round (c XOR v) = serial_step c (bit v 0) XOR drop_bit 1 v"
  by (auto simp: round_bit serial_step_def bit_xor_iff drop_bit_xor xor.assoc xor.commute xor.left_commute)

lemma serial_rounds:
  "drop_bit n v = 0 \<Longrightarrow> crc32_rounds n (c XOR v) = foldl serial_step c (map (bit v) [0..<n])"
proof (induction n arbitrary: c v)
  case (Suc n)
  have "drop_bit n (drop_bit 1 v) = 0" using Suc.prems by simp
  from Suc.IH [OF this, of "serial_step c (bit v 0)"] show ?case
    by (simp add: serial_round upt_conv_Cons map_Suc_upt [symmetric] comp_def bit_drop_bit_eq del: upt_Suc)
qed simp

lemma update_serial: "crc32_update c b = foldl serial_step c (bits_of_byte b)"
proof -
  have "drop_bit 8 (ucast b :: u32) = 0" by (rule bit_word_eqI) (simp add: bit_drop_bit_eq bit_ucast_u8)
  moreover have "map (bit (ucast b :: u32)) [0..<8] = bits_of_byte b" by (simp add: bits_of_byte_def bit_ucast_u8)
  ultimately show ?thesis using serial_rounds [of 8 "ucast b" c] by (simp add: update_rounds)
qed

text \<open>(C15) \<open>crc32\<close> with its table of 256 words is the bit-serial CRC-32: the shift register with the
  polynomial 0xEDB88320, fed with every bit of the data, the lowest bit of a byte first, from all ones
  and complemented at the end.\<close>

theorem crc32_is_serial: "crc32 data = crc32_serial data"
proof -
  have "foldl crc32_update c data = foldl serial_step c (concat (map bits_of_byte data))" for c
    by (induction data arbitrary: c) (simp_all add: update_serial)
  then show ?thesis by (simp add: crc32_total crc32_serial_def)
qed

section \<open>What CRC-32 detects\<close>

lemma update_inj: "crc32_update a b = crc32_update a' b \<longleftrightarrow> a = a'"
  by (simp add: update_rounds rounds_inj xor_cancel)

lemma updates_inj: "foldl crc32_update a bs = foldl crc32_update a' bs \<longleftrightarrow> a = a'"
  by (induction bs arbitrary: a a') (simp_all add: update_inj)

lemma bit_le_word_small: "length bs \<le> 3 \<Longrightarrow> bit (le_word bs :: u32) k \<Longrightarrow> k < 24"
  by (auto simp: bit_le_word)

lemma updates_rounds:
  "length bs \<le> 4 \<Longrightarrow> foldl crc32_update c bs = crc32_rounds (8 * length bs) (c XOR le_word bs)"
proof (induction bs arbitrary: c)
  case (Cons b bs)
  let ?w = "le_word bs :: u32"
  have d: "drop_bit 8 (push_bit 8 ?w) = ?w"
    using bit_le_word_small [of bs] Cons.prems
    by (intro bit_word_eqI) (auto simp: bit_drop_bit_eq bit_push_bit_iff)
  have "take_bit 8 (push_bit 8 ?w) = 0" by (rule bit_word_eqI) (simp add: bit_take_bit_iff bit_push_bit_iff)
  then have p: "crc32_rounds 8 (push_bit 8 ?w) = ?w" using rounds_high [of 8 "push_bit 8 ?w"] d by simp
  have o: "le_word (b # bs) = push_bit 8 ?w XOR ucast b"
    by (rule bit_word_eqI) (auto simp: bit_or_iff bit_xor_iff bit_push_bit_iff bit_ucast_u8)
  have "foldl crc32_update c (b # bs) = crc32_rounds (8 * length bs) (crc32_rounds 8 (c XOR ucast b) XOR ?w)"
    using Cons.IH [of "crc32_update c b"] Cons.prems by (simp add: update_rounds [of c b])
  also have "crc32_rounds 8 (c XOR ucast b) XOR ?w = crc32_rounds 8 (c XOR le_word (b # bs))"
    unfolding o by (simp only: rounds_xor p xor.assoc xor.commute xor.left_commute)
  finally show ?case by (simp add: rounds_add [symmetric] add.commute)
qed simp

lemma le_word_inj4:
  assumes "length xs = length ys" "length xs \<le> 4" "(le_word xs :: u32) = le_word ys"
  shows "xs = ys"
proof (rule nth_equalityI)
  fix i assume i: "i < length xs"
  show "xs ! i = ys ! i"
  proof (rule bit_word_eqI)
    fix n assume n: "n < LENGTH(8)"
    have "bit (le_word xs :: u32) (8 * i + n) = bit (le_word ys :: u32) (8 * i + n)" using assms(3) by simp
    then show "bit (xs ! i) n = bit (ys ! i) n" using i n assms(1,2) by (simp add: bit_le_word)
  qed
qed (rule assms(1))

lemma crc32_detects_burst:
  assumes "length x = length y" "length x \<le> 4" "x \<noteq> y"
  shows "crc32 (p @ x @ q) \<noteq> crc32 (p @ y @ q)"
proof
  assume "crc32 (p @ x @ q) = crc32 (p @ y @ q)"
  then have "foldl crc32_update (foldl crc32_update (NOT 0) p) x = foldl crc32_update (foldl crc32_update (NOT 0) p) y"
    by (simp add: crc32_total updates_inj)
  then have "foldl crc32_update (NOT 0) p XOR le_word x = foldl crc32_update (NOT 0) p XOR le_word y"
    using assms(1,2) by (simp add: updates_rounds rounds_inj)
  then have "(le_word x :: u32) = le_word y" by (simp add: xor.commute [of "foldl _ _ _"] xor_cancel)
  then show False using le_word_inj4 [OF assms(1,2)] assms(3) by simp
qed

section \<open>The bitmap search\<close>

declare find_clear_from.simps [simp del] inode_free_from.simps [simp del] leaked_from.simps [simp del]

definition bit_set :: "bytes \<Rightarrow> nat \<Rightarrow> bool" where
  "bit_set bm k \<longleftrightarrow> bit (bm ! (k div 8)) (k mod 8)"

lemma bit_mask_test: "w AND bit_mask i = 0 \<longleftrightarrow> \<not> bit w (unat i mod 8)"
proof -
  have "unat (i mod 8) = unat i mod 8" by (simp add: unat_mod)
  then have m: "bit (bit_mask i) n \<longleftrightarrow> n = unat i mod 8" for n
    by (simp add: bit_mask_def bit_exp_iff) auto
  show ?thesis
  proof
    assume "w AND bit_mask i = 0"
    then have "\<not> bit (w AND bit_mask i) (unat i mod 8)" by simp
    then show "\<not> bit w (unat i mod 8)" by (simp add: bit_and_iff m)
  next
    assume "\<not> bit w (unat i mod 8)"
    then show "w AND bit_mask i = 0" by (intro bit_word_eqI) (auto simp: bit_and_iff m)
  qed
qed

text \<open>What the search answers for the bits from \<open>lo\<close> up to \<open>hi\<close>.\<close>

definition clear_result :: "bytes \<Rightarrow> nat \<Rightarrow> u32 \<Rightarrow> u32 \<Rightarrow> bool" where
  "clear_result bm lo hi r \<longleftrightarrow>
     (lo \<le> unat r \<and> r < hi \<and> \<not> bit_set bm (unat r) \<and> (\<forall>k. lo \<le> k \<and> k < unat r \<longrightarrow> bit_set bm k)) \<or>
     (r = 0xFFFFFFFF \<and> (\<forall>k. lo \<le> k \<and> k < unat hi \<longrightarrow> bit_set bm k))"

lemma clear_result_step: "bit_set bm lo \<Longrightarrow> clear_result bm (Suc lo) hi r \<Longrightarrow> clear_result bm lo hi r"
proof -
  assume b: "bit_set bm lo" and r: "clear_result bm (Suc lo) hi r"
  have "(\<forall>k. Suc lo \<le> k \<and> k < m \<longrightarrow> bit_set bm k) \<Longrightarrow> (\<forall>k. lo \<le> k \<and> k < m \<longrightarrow> bit_set bm k)" for m
    using b le_eq_less_or_eq Suc_le_eq by auto
  with r show ?thesis unfolding clear_result_def by (meson Suc_leD)
qed

lemma find_clear_from_result:
  "unat end \<le> 8 * length bm \<Longrightarrow> \<exists>r. find_clear_from bm i end = Some r \<and> clear_result bm (unat i) end r"
proof (induction bm i "end" rule: find_clear_from.induct)
  case (1 bm i e)
  show ?case
  proof (cases "i < e")
    case False
    then have "find_clear_from bm i e = Some 0xFFFFFFFF" by (subst find_clear_from.simps) simp
    moreover have "clear_result bm (unat i) e 0xFFFFFFFF"
      unfolding clear_result_def using False by (intro disjI2) (auto simp: word_less_nat_alt)
    ultimately show ?thesis by blast
  next
    case True
    have d: "unat (i div 8) = unat i div 8" by (simp add: unat_div)
    have "unat i < 8 * length bm" using True 1(2) by (simp add: word_less_nat_alt)
    then have ok: "\<not> unat (i div 8) \<ge> length bm" unfolding d by (simp add: less_mult_imp_div_less mult.commute)
    have test: "bm ! unat (i div 8) AND bit_mask i = 0 \<longleftrightarrow> \<not> bit_set bm (unat i)"
      by (simp add: bit_mask_test bit_set_def d)
    show ?thesis
    proof (cases "bit_set bm (unat i)")
      case False
      then have "find_clear_from bm i e = Some i" using True ok test by (subst find_clear_from.simps) simp
      moreover have "clear_result bm (unat i) e i"
        unfolding clear_result_def using True False by (intro disjI1) auto
      ultimately show ?thesis by blast
    next
      case b: True
      then obtain r where r: "find_clear_from bm (i + 1) e = Some r" "clear_result bm (Suc (unat i)) e r"
        using 1(1) [OF True ok] 1(2) test unat_Suc_below [OF True] by auto
      have "find_clear_from bm i e = Some r" using True ok test b r(1) by (subst find_clear_from.simps) simp
      with clear_result_step [OF b r(2)] show ?thesis by blast
    qed
  qed
qed

text \<open>In a bitmap of a block: the lowest clear bit from \<open>start\<close> on, if there is one.\<close>

lemma bitmap_find_clear_block:
  assumes "length bm = 4096"
  obtains "bitmap_find_clear bm start = Some None" "\<forall>k. unat start \<le> k \<and> k < 32768 \<longrightarrow> bit_set bm k"
  | b where "bitmap_find_clear bm start = Some (Some b)" "start \<le> b" "unat b < 32768" "\<not> bit_set bm (unat b)"
      "\<forall>k. unat start \<le> k \<and> k < unat b \<longrightarrow> bit_set bm k"
proof -
  have e: "(of_nat (length bm) :: u32) * 8 = 0x8000" using assms by simp
  have u: "unat (0x8000 :: u32) = 32768" by simp
  obtain r where r: "find_clear_from bm start 0x8000 = Some r" "clear_result bm (unat start) 0x8000 r"
    using find_clear_from_result [of "0x8000" bm start] assms by auto
  then have f: "bitmap_find_clear bm start = Some (none_if_max r)"
    unfolding bitmap_find_clear_def zig_bitmap_find_clear_def e by simp
  from r(2) [unfolded clear_result_def] show thesis
  proof (elim disjE conjE)
    assume 1: "unat start \<le> unat r" "r < 0x8000" "\<not> bit_set bm (unat r)"
      "\<forall>k. unat start \<le> k \<and> k < unat r \<longrightarrow> bit_set bm k"
    have "unat r < 32768" using 1(2) by (simp add: word_less_nat_alt)
    moreover have "start \<le> r" using 1(1) by (simp add: word_le_nat_alt)
    moreover have "r \<noteq> 0xFFFFFFFF" using 1(2) by auto
    then have "bitmap_find_clear bm start = Some (Some r)" using f by (simp add: none_if_max_def)
    ultimately show thesis using that(2) 1(3,4) by blast
  next
    assume 2: "r = 0xFFFFFFFF" "\<forall>k. unat start \<le> k \<and> k < unat (0x8000 :: u32) \<longrightarrow> bit_set bm k"
    have "bitmap_find_clear bm start = Some None" using f 2(1) by (simp add: none_if_max_def)
    then show thesis using that(1) 2(2) unfolding u by blast
  qed
qed

end
