(* ===== verification/Ziqa_Zfs.thy ===== *)
theory Ziqa_Zfs
  imports Ziqa_Kernel_Ops
begin

text \<open>
  The on-disk file system, lower layers: the types of \<open>src/src/fs/ziqafs/types.rs\<close> with their layout
  in bytes, block access and the block bitmap (\<open>block.rs\<close>) and the inode table with the block map of
  an inode (\<open>inode.rs\<close>).  The block device is a type parameter with a record of operations, the
  methods of the trait in \<open>src/src/drivers/block.rs\<close>; the clock is read from the same parameter.
  An operation is a function on the state of a mounted file system, the device and the superblock.
  \<open>None\<close> is a panic or an access outside a buffer, a sum is a \<open>Result\<close>; what an operation has written
  before it fails stays written.
\<close>

section \<open>Operations that can fail\<close>

type_synonym ('s, 'a) fsm = "'s \<Rightarrow> ((abi_error + 'a) \<times> 's) option"

definition fret :: "'a \<Rightarrow> ('s, 'a) fsm" where
  "fret x s = Some (Inr x, s)"

definition ffail :: "abi_error \<Rightarrow> ('s, 'a) fsm" where
  "ffail e s = Some (Inl e, s)"

definition fpanic :: "('s, 'a) fsm" where
  "fpanic s = None"

definition fbind :: "('s, 'a) fsm \<Rightarrow> ('a \<Rightarrow> ('s, 'b) fsm) \<Rightarrow> ('s, 'b) fsm" where
  "fbind m f s =
     (case m s of
        None \<Rightarrow> None
      | Some (Inl e, s') \<Rightarrow> Some (Inl e, s')
      | Some (Inr x, s') \<Rightarrow> f x s')"

definition fget :: "('s \<Rightarrow> 'a) \<Rightarrow> ('s, 'a) fsm" where
  "fget f s = Some (Inr (f s), s)"

definition fmod :: "('s \<Rightarrow> 's) \<Rightarrow> ('s, unit) fsm" where
  "fmod f s = Some (Inr (), f s)"

definition fopt :: "'a option \<Rightarrow> ('s, 'a) fsm" where
  "fopt x = (case x of None \<Rightarrow> fpanic | Some y \<Rightarrow> fret y)"

text \<open>A result that the code looks at instead of passing an error on.\<close>

definition fcatch :: "('s, 'a) fsm \<Rightarrow> ('s, abi_error + 'a) fsm" where
  "fcatch m s = (case m s of None \<Rightarrow> None | Some (r, s') \<Rightarrow> Some (Inr r, s'))"

fun ffor :: "('x \<Rightarrow> 'a \<Rightarrow> ('s, 'a) fsm) \<Rightarrow> 'x list \<Rightarrow> 'a \<Rightarrow> ('s, 'a) fsm" where
  "ffor body [] acc = fret acc"
| "ffor body (x # xs) acc = fbind (body x acc) (ffor body xs)"

section \<open>Types\<close>

definition BLOCK_SIZE :: nat where "BLOCK_SIZE = 4096"
definition SECTOR_SIZE :: nat where "SECTOR_SIZE = 512"
definition SECTORS_PER_BLOCK :: nat where "SECTORS_PER_BLOCK = BLOCK_SIZE div SECTOR_SIZE"
definition FS_MAGIC :: u32 where "FS_MAGIC = 0x21514146"
definition SUPERBLOCK_BLOCK :: u32 where "SUPERBLOCK_BLOCK = 1"
definition BITMAP_BLOCK :: u32 where "BITMAP_BLOCK = 2"
definition INODE_TABLE_BLOCK :: u32 where "INODE_TABLE_BLOCK = 3"
definition JOURNAL_BLOCK :: u32 where "JOURNAL_BLOCK = 4"
definition FIRST_DATA_BLOCK :: u32 where "FIRST_DATA_BLOCK = 5"
definition INODE_COUNT :: u32 where "INODE_COUNT = 32"
definition INODE_SIZE :: nat where "INODE_SIZE = 136"
definition ROOT_INODE :: u32 where "ROOT_INODE = 1"
definition INODE_MODE_FILE :: u16 where "INODE_MODE_FILE = 0x8000"
definition INODE_MODE_DIR :: u16 where "INODE_MODE_DIR = 0x4000"
definition BMAP_CLEAN :: u32 where "BMAP_CLEAN = 0"
definition BMAP_DIRTY :: u32 where "BMAP_DIRTY = 1"
definition JOURNAL_ENTRIES :: nat where "JOURNAL_ENTRIES = 63"
definition JOURNAL_ENTRY_SIZE :: nat where "JOURNAL_ENTRY_SIZE = 64"
definition JOURNAL_MAGIC :: u32 where "JOURNAL_MAGIC = 0x4A524E4C"

lemmas zfs_consts = BLOCK_SIZE_def SECTOR_SIZE_def SECTORS_PER_BLOCK_def SUPERBLOCK_BLOCK_def BITMAP_BLOCK_def
  INODE_TABLE_BLOCK_def JOURNAL_BLOCK_def FIRST_DATA_BLOCK_def INODE_COUNT_def INODE_SIZE_def ROOT_INODE_def
  INODE_MODE_FILE_def INODE_MODE_DIR_def JOURNAL_ENTRIES_def JOURNAL_ENTRY_SIZE_def

record superblock =
  sb_magic :: u32
  total_blocks :: u32
  inode_count :: u32
  first_data_block :: u32
  block_size :: u32
  sb_flags :: u32
  free_blocks :: u32
  free_inodes :: u32
  sb_reserved :: bytes

record inode =
  i_checksum :: u32
  i_mode :: u16
  i_nlink :: u16
  i_uid :: u16
  i_gid :: u16
  i_size :: u32
  i_mtime :: u32
  i_ctime :: u32
  i_atime :: u32
  i_blocks :: "u32 list"
  i_block_checksums :: "u32 list"
  i_indirect :: u32
  i_double_indirect :: u32
  i_indirect_checksum :: u32
  i_double_indirect_checksum :: u32
  i_reserved :: bytes

text \<open>The bytes of the structures in memory, little-endian, without padding.\<close>

definition superblock_bytes :: "superblock \<Rightarrow> bytes" where
  "superblock_bytes b = le_bytes 4 (sb_magic b) @ le_bytes 4 (total_blocks b) @ le_bytes 4 (inode_count b) @
     le_bytes 4 (first_data_block b) @ le_bytes 4 (block_size b) @ le_bytes 4 (sb_flags b) @
     le_bytes 4 (free_blocks b) @ le_bytes 4 (free_inodes b) @ sb_reserved b"

definition le_at :: "bytes \<Rightarrow> nat \<Rightarrow> nat \<Rightarrow> 'a::len word" where
  "le_at bs off n = le_word (slice bs off n)"

definition superblock_of :: "bytes \<Rightarrow> superblock" where
  "superblock_of bs = \<lparr>sb_magic = le_at bs 0 4, total_blocks = le_at bs 4 4, inode_count = le_at bs 8 4,
     first_data_block = le_at bs 12 4, block_size = le_at bs 16 4, sb_flags = le_at bs 20 4,
     free_blocks = le_at bs 24 4, free_inodes = le_at bs 28 4, sb_reserved = slice bs 32 20\<rparr>"

definition words_at :: "bytes \<Rightarrow> nat \<Rightarrow> nat \<Rightarrow> u32 list" where
  "words_at bs off n = map (\<lambda>k. le_at bs (off + 4 * k) 4) [0..<n]"

definition inode_bytes :: "inode \<Rightarrow> bytes" where
  "inode_bytes i = le_bytes 4 (i_checksum i) @ le_bytes 2 (i_mode i) @ le_bytes 2 (i_nlink i) @ le_bytes 2 (i_uid i) @
     le_bytes 2 (i_gid i) @ le_bytes 4 (i_size i) @ le_bytes 4 (i_mtime i) @ le_bytes 4 (i_ctime i) @
     le_bytes 4 (i_atime i) @ concat (map (le_bytes 4) (i_blocks i)) @ concat (map (le_bytes 4) (i_block_checksums i)) @
     le_bytes 4 (i_indirect i) @ le_bytes 4 (i_double_indirect i) @ le_bytes 4 (i_indirect_checksum i) @
     le_bytes 4 (i_double_indirect_checksum i) @ i_reserved i"

definition inode_of :: "bytes \<Rightarrow> inode" where
  "inode_of bs = \<lparr>i_checksum = le_at bs 0 4, i_mode = le_at bs 4 2, i_nlink = le_at bs 6 2, i_uid = le_at bs 8 2,
     i_gid = le_at bs 10 2, i_size = le_at bs 12 4, i_mtime = le_at bs 16 4, i_ctime = le_at bs 20 4,
     i_atime = le_at bs 24 4, i_blocks = words_at bs 28 10, i_block_checksums = words_at bs 68 10,
     i_indirect = le_at bs 108 4, i_double_indirect = le_at bs 112 4, i_indirect_checksum = le_at bs 116 4,
     i_double_indirect_checksum = le_at bs 120 4, i_reserved = slice bs 124 12\<rparr>"

record statfs =
  st_total_blocks :: u32
  st_free_blocks :: u32
  st_total_inodes :: u32
  st_free_inodes :: u32
  st_block_size :: u32

record fsck_result =
  fr_ok :: bool
  fr_errors :: u32
  fr_leaked_blocks :: u32
  fr_leaked_inodes :: u32

datatype journal_op = JFree | JAllocBlock | JFreeBlock | JWriteInode | JWriteBitmap

fun journal_op_code :: "journal_op \<Rightarrow> u8" where
  "journal_op_code JFree = 0"
| "journal_op_code JAllocBlock = 1"
| "journal_op_code JFreeBlock = 2"
| "journal_op_code JWriteInode = 3"
| "journal_op_code JWriteBitmap = 4"

record journal_header =
  jh_magic :: u32
  jh_head :: u32
  jh_committed :: u32
  jh_pad :: bytes

record journal_entry =
  je_op :: u8
  je_pad :: bytes
  je_block :: u32
  je_data :: bytes

definition header_of :: "bytes \<Rightarrow> journal_header" where
  "header_of bs = \<lparr>jh_magic = le_at bs 0 4, jh_head = le_at bs 4 4, jh_committed = le_at bs 8 4, jh_pad = slice bs 12 52\<rparr>"

definition header_bytes :: "journal_header \<Rightarrow> bytes" where
  "header_bytes h = le_bytes 4 (jh_magic h) @ le_bytes 4 (jh_head h) @ le_bytes 4 (jh_committed h) @ jh_pad h"

definition journal_entry_of :: "bytes \<Rightarrow> journal_entry" where
  "journal_entry_of bs = \<lparr>je_op = le_at bs 0 1, je_pad = slice bs 1 3, je_block = le_at bs 4 4, je_data = slice bs 8 56\<rparr>"

definition entry_bytes :: "journal_entry \<Rightarrow> bytes" where
  "entry_bytes e = [je_op e] @ je_pad e @ le_bytes 4 (je_block e) @ je_data e"

text \<open>The block device: reading fills the buffer, writing changes the device.\<close>

record 'd block_device =
  read_sectors :: "'d \<Rightarrow> u64 \<Rightarrow> u32 \<Rightarrow> bytes \<Rightarrow> abi_error + bytes"
  write_sectors :: "'d \<Rightarrow> u64 \<Rightarrow> u32 \<Rightarrow> bytes \<Rightarrow> (abi_error + unit) \<times> 'd"
  total_sectors :: "'d \<Rightarrow> u64"
  uptime_secs :: "'d \<Rightarrow> u64"

record 'd ziqafs =
  device :: 'd
  sb :: superblock

section \<open>Blocks and the bitmap\<close>

definition zero_block :: bytes where
  "zero_block = replicate BLOCK_SIZE 0"

definition read_blocks :: "'d block_device \<Rightarrow> u32 \<Rightarrow> u32 \<Rightarrow> bytes \<Rightarrow> ('d ziqafs, bytes) fsm" where
  "read_blocks ops block count buf s =
     (let sector = ucast block * of_nat SECTORS_PER_BLOCK; n = (ucast count :: u64) * of_nat SECTORS_PER_BLOCK
      in if length buf < unat n * SECTOR_SIZE then Some (Inl OutOfBounds, s)
         else Some (read_sectors ops (device s) sector (ucast n) buf, s))"

definition write_blocks :: "'d block_device \<Rightarrow> u32 \<Rightarrow> u32 \<Rightarrow> bytes \<Rightarrow> ('d ziqafs, unit) fsm" where
  "write_blocks ops block count buf s =
     (let sector = ucast block * of_nat SECTORS_PER_BLOCK; n = (ucast count :: u64) * of_nat SECTORS_PER_BLOCK
      in if length buf < unat n * SECTOR_SIZE then Some (Inl OutOfBounds, s)
         else let (r, d) = write_sectors ops (device s) sector (ucast n) buf in Some (r, s\<lparr>device := d\<rparr>))"

definition read_block :: "'d block_device \<Rightarrow> u32 \<Rightarrow> ('d ziqafs, bytes) fsm" where
  "read_block ops block = read_blocks ops block 1 zero_block"

definition write_block :: "'d block_device \<Rightarrow> u32 \<Rightarrow> bytes \<Rightarrow> ('d ziqafs, unit) fsm" where
  "write_block ops block buf = write_blocks ops block 1 buf"

definition set_bitmap_bit :: "bytes \<Rightarrow> nat \<Rightarrow> bytes option" where
  "set_bitmap_bit buf block =
     (if block div 8 < length buf
      then Some (buf[block div 8 := buf ! (block div 8) OR push_bit (block mod 8) 1]) else None)"

definition clear_bitmap_bit :: "bytes \<Rightarrow> nat \<Rightarrow> bytes option" where
  "clear_bitmap_bit buf block =
     (if block div 8 < length buf
      then Some (buf[block div 8 := buf ! (block div 8) AND NOT (push_bit (block mod 8) 1)]) else None)"

definition test_bitmap_bit :: "bytes \<Rightarrow> nat \<Rightarrow> bool option" where
  "test_bitmap_bit buf block =
     (if block div 8 < length buf then Some (drop_bit (block mod 8) (buf ! (block div 8)) AND 1 \<noteq> 0) else None)"

definition alloc_data_block :: "'d block_device \<Rightarrow> ('d ziqafs, u32) fsm" where
  "alloc_data_block ops =
     fbind (read_block ops BITMAP_BLOCK) (\<lambda>bitmap.
     fbind (fget sb) (\<lambda>sb0.
     fbind (fopt (bitmap_find_clear bitmap (first_data_block sb0))) (\<lambda>found.
     case found of
       Some b \<Rightarrow>
         if b < total_blocks sb0 then
           fbind (fopt (set_bitmap_bit bitmap (unat b))) (\<lambda>bitmap.
           fbind (write_block ops BITMAP_BLOCK bitmap) (\<lambda>_.
           fbind (write_block ops b zero_block) (\<lambda>_.
           fbind (fmod (\<lambda>s. s\<lparr>sb := (sb s)\<lparr>free_blocks := saturating_sub (free_blocks (sb s)) 1\<rparr>\<rparr>)) (\<lambda>_.
           fret b))))
         else ffail (Other ''No free blocks'')
     | None \<Rightarrow> ffail (Other ''No free blocks''))))"

definition free_data_block :: "'d block_device \<Rightarrow> u32 \<Rightarrow> ('d ziqafs, unit) fsm" where
  "free_data_block ops block =
     fbind (fget sb) (\<lambda>sb0.
     if block < first_data_block sb0 \<or> block \<ge> total_blocks sb0 then ffail OutOfBounds
     else
       fbind (read_block ops BITMAP_BLOCK) (\<lambda>bitmap.
       fbind (fopt (clear_bitmap_bit bitmap (unat block))) (\<lambda>bitmap.
       fbind (write_block ops BITMAP_BLOCK bitmap) (\<lambda>_.
       fmod (\<lambda>s. s\<lparr>sb := (sb s)\<lparr>free_blocks := saturating_add (free_blocks (sb s)) 1\<rparr>\<rparr>)))))"

definition patch_bitmap_byte :: "'d block_device \<Rightarrow> nat \<Rightarrow> u8 \<Rightarrow> ('d ziqafs, unit) fsm" where
  "patch_bitmap_byte ops offset v =
     fbind (read_block ops BITMAP_BLOCK) (\<lambda>bitmap.
     if offset < BLOCK_SIZE then write_block ops BITMAP_BLOCK (bitmap[offset := v]) else fpanic)"

section \<open>Inodes\<close>

definition calculate_inode_checksum :: "inode \<Rightarrow> u32" where
  "calculate_inode_checksum i = crc32 (inode_bytes (i\<lparr>i_checksum := 0\<rparr>))"

text \<open>Inode 30 is read and written past the end of the block buffer, and the slice for inode 31 starts
  beyond it.\<close>

definition read_inode :: "'d block_device \<Rightarrow> u32 \<Rightarrow> ('d ziqafs, inode) fsm" where
  "read_inode ops inode_id =
     (if inode_id \<ge> INODE_COUNT then ffail OutOfBounds
      else fbind (read_block ops INODE_TABLE_BLOCK) (\<lambda>buf.
        let offset = unat inode_id * INODE_SIZE
        in if offset + INODE_SIZE > BLOCK_SIZE then fpanic
           else let i = inode_of (slice buf offset INODE_SIZE)
                in if i_checksum i \<noteq> calculate_inode_checksum i then ffail (Other ''Inode checksum mismatch'')
                   else fret i))"

definition patch_inode_raw :: "'d block_device \<Rightarrow> u32 \<Rightarrow> nat \<Rightarrow> bytes \<Rightarrow> ('d ziqafs, unit) fsm" where
  "patch_inode_raw ops inode_id offset data =
     fbind (read_block ops INODE_TABLE_BLOCK) (\<lambda>buf.
       let p = unat inode_id * INODE_SIZE + offset
       in if p + length data > BLOCK_SIZE then fpanic
          else write_block ops INODE_TABLE_BLOCK (put_bytes buf p data))"

definition write_inode :: "'d block_device \<Rightarrow> u32 \<Rightarrow> inode \<Rightarrow> ('d ziqafs, unit) fsm" where
  "write_inode ops inode_id i =
     (if inode_id \<ge> INODE_COUNT then ffail OutOfBounds
      else fbind (read_block ops INODE_TABLE_BLOCK) (\<lambda>buf.
        let offset = unat inode_id * INODE_SIZE; i = i\<lparr>i_checksum := calculate_inode_checksum i\<rparr>
        in if offset + INODE_SIZE > BLOCK_SIZE then fpanic
           else write_block ops INODE_TABLE_BLOCK (put_bytes buf offset (inode_bytes i))))"

definition new_inode :: "u16 \<Rightarrow> u32 \<Rightarrow> inode" where
  "new_inode mode now =
     (let i = \<lparr>i_checksum = 0, i_mode = mode, i_nlink = 1, i_uid = 0, i_gid = 0, i_size = 0, i_mtime = now,
          i_ctime = now, i_atime = now, i_blocks = replicate 10 0, i_block_checksums = replicate 10 0,
          i_indirect = 0, i_double_indirect = 0, i_indirect_checksum = 0, i_double_indirect_checksum = 0,
          i_reserved = replicate 12 0\<rparr>
      in i\<lparr>i_checksum := calculate_inode_checksum i\<rparr>)"

definition now_secs :: "'d block_device \<Rightarrow> ('d ziqafs, u32) fsm" where
  "now_secs ops = fget (\<lambda>s. ucast (uptime_secs ops (device s)))"

definition alloc_inode :: "'d block_device \<Rightarrow> u16 \<Rightarrow> ('d ziqafs, u32) fsm" where
  "alloc_inode ops mode =
     fbind (read_block ops INODE_TABLE_BLOCK) (\<lambda>buf.
     fbind (fopt (inode_find_free buf INODE_COUNT (of_nat INODE_SIZE) 1)) (\<lambda>found.
     case found of
       None \<Rightarrow> ffail (Other ''No free inodes'')
     | Some i \<Rightarrow>
         let offset = unat i * INODE_SIZE
         in fbind (now_secs ops) (\<lambda>now.
            if offset + INODE_SIZE > BLOCK_SIZE then fpanic
            else fbind (write_block ops INODE_TABLE_BLOCK (put_bytes buf offset (inode_bytes (new_inode mode now)))) (\<lambda>_.
                 fbind (fmod (\<lambda>s. s\<lparr>sb := (sb s)\<lparr>free_inodes := saturating_sub (free_inodes (sb s)) 1\<rparr>\<rparr>)) (\<lambda>_.
                 fret i)))))"

definition free_inode :: "'d block_device \<Rightarrow> u32 \<Rightarrow> ('d ziqafs, unit) fsm" where
  "free_inode ops inode_id =
     (if inode_id \<ge> INODE_COUNT then ffail OutOfBounds
      else fbind (read_block ops INODE_TABLE_BLOCK) (\<lambda>buf.
        let offset = unat inode_id * INODE_SIZE
        in if offset + INODE_SIZE > BLOCK_SIZE then fpanic
           else fbind (write_block ops INODE_TABLE_BLOCK (put_bytes buf offset (replicate INODE_SIZE 0))) (\<lambda>_.
                fmod (\<lambda>s. s\<lparr>sb := (sb s)\<lparr>free_inodes := saturating_add (free_inodes (sb s)) 1\<rparr>\<rparr>))))"

text \<open>A pointer block as 512 pairs of block number and checksum, and as 1024 block numbers.\<close>

definition pair_at :: "bytes \<Rightarrow> nat \<Rightarrow> u32 \<times> u32" where
  "pair_at buf k = (le_at buf (8 * k) 4, le_at buf (8 * k + 4) 4)"

definition set_pair :: "bytes \<Rightarrow> nat \<Rightarrow> u32 \<times> u32 \<Rightarrow> bytes" where
  "set_pair buf k p = put_bytes buf (8 * k) (le_bytes 4 (fst p) @ le_bytes 4 (snd p))"

definition ptr_at :: "bytes \<Rightarrow> nat \<Rightarrow> u32" where
  "ptr_at buf k = le_at buf (4 * k) 4"

definition set_ptr :: "bytes \<Rightarrow> nat \<Rightarrow> u32 \<Rightarrow> bytes" where
  "set_ptr buf k p = put_bytes buf (4 * k) (le_bytes 4 p)"

definition PAIRS :: nat where "PAIRS = BLOCK_SIZE div 8"
definition PTRS :: nat where "PTRS = BLOCK_SIZE div 4"

definition inode_get_block :: "'d block_device \<Rightarrow> inode \<Rightarrow> u32 \<Rightarrow> ('d ziqafs, u32 \<times> u32) fsm" where
  "inode_get_block ops i logical =
     (if logical < 10 then fret (i_blocks i ! unat logical, i_block_checksums i ! unat logical)
      else let idx = unat (logical - 10)
      in if idx < PAIRS then
           if i_indirect i = 0 then fret (0, 0)
           else fbind (read_block ops (i_indirect i)) (\<lambda>buf.
             if i_indirect_checksum i \<noteq> 0 \<and> crc32 buf \<noteq> i_indirect_checksum i
             then ffail (Other ''Indirect block checksum mismatch'')
             else fret (pair_at buf idx))
         else let idx2 = idx - PAIRS
         in if idx2 < PAIRS * PAIRS then
              if i_double_indirect i = 0 then fret (0, 0)
              else fbind (read_block ops (i_double_indirect i)) (\<lambda>buf.
                if i_double_indirect_checksum i \<noteq> 0 \<and> crc32 buf \<noteq> i_double_indirect_checksum i
                then ffail (Other ''Double indirect block checksum mismatch'')
                else let (l1_phys, l1_checksum) = pair_at buf (idx2 div PAIRS)
                in if l1_phys = 0 then fret (0, 0)
                   else fbind (read_block ops l1_phys) (\<lambda>buf2.
                     if l1_checksum \<noteq> 0 \<and> crc32 buf2 \<noteq> l1_checksum
                     then ffail (Other ''L2 pointer block checksum mismatch'')
                     else fret (pair_at buf2 (idx2 mod PAIRS))))
            else ffail (Other ''File too large''))"

text \<open>The first allocation of a pointer block, then the slot of the pointer block: both allocate only
  where the number is zero.\<close>

definition alloc_if_zero :: "'d block_device \<Rightarrow> u32 \<Rightarrow> ('d ziqafs, u32) fsm" where
  "alloc_if_zero ops b = (if b = 0 then alloc_data_block ops else fret b)"

definition alloc_slot :: "'d block_device \<Rightarrow> u32 \<Rightarrow> nat \<Rightarrow> ('d ziqafs, u32) fsm" where
  "alloc_slot ops ptr_block k =
     fbind (read_block ops ptr_block) (\<lambda>buf.
     if ptr_at buf k = 0 then
       fbind (alloc_data_block ops) (\<lambda>b.
       fbind (write_block ops ptr_block (set_ptr buf k b)) (\<lambda>_.
       fret b))
     else fret (ptr_at buf k))"

definition inode_alloc_block :: "'d block_device \<Rightarrow> inode \<Rightarrow> u32 \<Rightarrow> ('d ziqafs, u32 \<times> inode) fsm" where
  "inode_alloc_block ops i logical =
     (if logical < 10 then
        fbind (alloc_if_zero ops (i_blocks i ! unat logical)) (\<lambda>b.
        fret (b, i\<lparr>i_blocks := (i_blocks i)[unat logical := b]\<rparr>))
      else let idx = unat (logical - 10)
      in if idx < PTRS then
           fbind (alloc_if_zero ops (i_indirect i)) (\<lambda>ind.
           fbind (alloc_slot ops ind idx) (\<lambda>b.
           fret (b, i\<lparr>i_indirect := ind\<rparr>)))
         else let idx2 = idx - PTRS
         in if idx2 < PTRS * PTRS then
              fbind (alloc_if_zero ops (i_double_indirect i)) (\<lambda>dbl.
              fbind (alloc_slot ops dbl (idx2 div PTRS)) (\<lambda>l1_phys.
              fbind (alloc_slot ops l1_phys (idx2 mod PTRS)) (\<lambda>b.
              fret (b, i\<lparr>i_double_indirect := dbl\<rparr>))))
            else ffail (Other ''File too large''))"

definition inode_set_block :: "'d block_device \<Rightarrow> inode \<Rightarrow> u32 \<Rightarrow> u32 \<Rightarrow> u32 \<Rightarrow> ('d ziqafs, inode) fsm" where
  "inode_set_block ops i logical new_phys new_checksum =
     (if logical < 10 then
        fret (i\<lparr>i_blocks := (i_blocks i)[unat logical := new_phys],
               i_block_checksums := (i_block_checksums i)[unat logical := new_checksum]\<rparr>)
      else let idx = unat (logical - 10)
      in if idx < PAIRS then
           fbind (alloc_if_zero ops (i_indirect i)) (\<lambda>ind.
           fbind (read_block ops ind) (\<lambda>buf.
           let buf = set_pair buf idx (new_phys, new_checksum)
           in fbind (write_block ops ind buf) (\<lambda>_.
              fret (i\<lparr>i_indirect := ind, i_indirect_checksum := crc32 buf\<rparr>))))
         else let idx2 = idx - PAIRS
         in if idx2 < PAIRS * PAIRS then
              fbind (alloc_if_zero ops (i_double_indirect i)) (\<lambda>dbl.
              fbind (read_block ops dbl) (\<lambda>buf.
              fbind (alloc_if_zero ops (fst (pair_at buf (idx2 div PAIRS)))) (\<lambda>l1_phys.
              fbind (read_block ops l1_phys) (\<lambda>buf2.
              let buf2 = set_pair buf2 (idx2 mod PAIRS) (new_phys, new_checksum);
                  buf = set_pair buf (idx2 div PAIRS) (l1_phys, crc32 buf2)
              in fbind (write_block ops l1_phys buf2) (\<lambda>_.
                 fbind (write_block ops dbl buf) (\<lambda>_.
                 fret (i\<lparr>i_double_indirect := dbl, i_double_indirect_checksum := crc32 buf\<rparr>)))))))
            else ffail (Other ''File too large''))"

definition free_nonzero :: "'d block_device \<Rightarrow> u32 list \<Rightarrow> ('d ziqafs, unit) fsm" where
  "free_nonzero ops ps = ffor (\<lambda>p _. if p \<noteq> 0 then free_data_block ops p else fret ()) ps ()"

definition ptrs_of :: "bytes \<Rightarrow> u32 list" where
  "ptrs_of buf = map (ptr_at buf) [0..<PTRS]"

definition free_inode_blocks :: "'d block_device \<Rightarrow> inode \<Rightarrow> ('d ziqafs, unit) fsm" where
  "free_inode_blocks ops i =
     fbind (free_nonzero ops (take 10 (i_blocks i))) (\<lambda>_.
     fbind (if i_indirect i \<noteq> 0 then
              fbind (read_block ops (i_indirect i)) (\<lambda>buf.
              fbind (free_nonzero ops (ptrs_of buf)) (\<lambda>_.
              free_data_block ops (i_indirect i)))
            else fret ()) (\<lambda>_.
     if i_double_indirect i \<noteq> 0 then
       fbind (read_block ops (i_double_indirect i)) (\<lambda>buf.
       fbind (ffor (\<lambda>l1p _. if l1p \<noteq> 0 then
                fbind (read_block ops l1p) (\<lambda>buf2.
                fbind (free_nonzero ops (ptrs_of buf2)) (\<lambda>_.
                free_data_block ops l1p)) else fret ()) (ptrs_of buf) ()) (\<lambda>_.
       free_data_block ops (i_double_indirect i)))
     else fret ()))"

end
