(* ===== verification/Ziqa_Zfs_File.thy ===== *)
theory Ziqa_Zfs_File
  imports Ziqa_Zfs Ziqa_Vfs
begin

text \<open>
  The on-disk file system, upper layers: directory blocks (\<open>src/src/fs/ziqafs/dir.rs\<close>), files
  (\<open>file.rs\<close>), the journal (\<open>journal.rs\<close>), the consistency check (\<open>fsck.rs\<close>), mounting and
  formatting (\<open>mod.rs\<close>) and the adapter to the virtual file system (\<open>vfs.rs\<close>).  Recursion over
  directories takes the depth as fuel; a directory cycle, which the code follows until the kernel
  stack is used up, is \<open>None\<close> as a panic is.
\<close>

section \<open>Directory blocks\<close>

definition str_bytes :: "string \<Rightarrow> bytes" where
  "str_bytes s = map of_char s"

function dirents :: "bytes \<Rightarrow> nat \<Rightarrow> nat \<Rightarrow> (u32 \<times> string) list" where
  "dirents buf lim off =
     (if off + 8 \<le> lim then
        let ino = le_at buf off 4;
            name_len = unat (le_at buf (off + 4) 2 :: u16);
            entry_size = unat (le_at buf (off + 6) 2 :: u16)
        in if entry_size < 8 \<or> entry_size > 260 \<or> off + entry_size > BLOCK_SIZE then []
           else (if ino \<noteq> 0 \<and> name_len > 0 \<and> name_len \<le> 252 \<and> off + 8 + name_len \<le> BLOCK_SIZE
                 then (case from_utf8 (slice buf (off + 8) name_len) of Some name \<Rightarrow> [(ino, name)] | None \<Rightarrow> [])
                 else []) @ dirents buf lim (off + entry_size)
      else [])"
  by pat_completeness auto
termination by (relation "measure (\<lambda>(_, lim, off). lim - off)") auto

declare dirents.simps [simp del]

definition dirent_foreach :: "bytes \<Rightarrow> u32 \<Rightarrow> (u32 \<times> string) list" where
  "dirent_foreach buf sz = dirents buf (min (unat sz) BLOCK_SIZE) 0"

definition find_entry :: "bytes \<Rightarrow> u32 \<Rightarrow> string \<Rightarrow> u32 option" where
  "find_entry buf sz name = foldl (\<lambda>r (ino, n). if n = name then Some ino else r) None (dirent_foreach buf sz)"

definition entry_size_of :: "nat \<Rightarrow> nat" where
  "entry_size_of name_len = (8 + name_len + 3) div 4 * 4"

function entry_slot :: "bytes \<Rightarrow> nat \<Rightarrow> nat \<Rightarrow> nat option" where
  "entry_slot buf entry_size off =
     (if off + entry_size > BLOCK_SIZE then None
      else if (le_at buf off 4 :: u32) = 0 then Some off
      else let es = unat (le_at buf (off + 6) 2 :: u16)
           in if es < 8 then Some off else entry_slot buf entry_size (off + es))"
  by pat_completeness auto
termination by (relation "measure (\<lambda>(_, _, off). Suc BLOCK_SIZE - off)") auto

declare entry_slot.simps [simp del]

definition write_entry_raw :: "bytes \<Rightarrow> u32 \<Rightarrow> string \<Rightarrow> abi_error + bytes" where
  "write_entry_raw buf target_inode name =
     (let name_bytes = str_bytes name; name_len = length name_bytes
      in if name_len > 252 then Inl (Other ''Name too long'')
         else let entry_size = entry_size_of name_len
         in case entry_slot buf entry_size 0 of
              None \<Rightarrow> Inl (Other ''Directory block full'')
            | Some off \<Rightarrow> Inr (put_bytes buf off (le_bytes 4 target_inode @ le_bytes 2 (of_nat name_len :: u16) @
                              le_bytes 2 (of_nat entry_size :: u16) @ name_bytes)))"

function remove_entry_from :: "bytes \<Rightarrow> nat \<Rightarrow> u32 \<Rightarrow> nat \<Rightarrow> bool \<times> bytes" where
  "remove_entry_from buf lim target_inode off =
     (if off + 8 \<le> lim then
        let ino = le_at buf off 4; entry_size = unat (le_at buf (off + 6) 2 :: u16)
        in if entry_size < 8 \<or> off + entry_size > BLOCK_SIZE then (False, buf)
           else if ino = target_inode then (True, put_bytes buf off (replicate 4 0))
           else remove_entry_from buf lim target_inode (off + entry_size)
      else (False, buf))"
  by pat_completeness auto
termination by (relation "measure (\<lambda>(_, lim, _, off). lim - off)") auto

declare remove_entry_from.simps [simp del]

definition remove_entry_raw :: "bytes \<Rightarrow> u32 \<Rightarrow> u32 \<Rightarrow> bool \<times> bytes" where
  "remove_entry_raw buf sz target_inode = remove_entry_from buf (min (unat sz) BLOCK_SIZE) target_inode 0"

text \<open>The logical blocks of a file of a size.\<close>

definition block_total :: "u32 \<Rightarrow> nat" where
  "block_total sz = (unat sz + BLOCK_SIZE - 1) div BLOCK_SIZE"

definition logicals :: "nat \<Rightarrow> u32 list" where
  "logicals n = map of_nat [0..<n]"

fun lookup_blocks :: "'d block_device \<Rightarrow> inode \<Rightarrow> string \<Rightarrow> u32 list \<Rightarrow> ('d ziqafs, u32 option) fsm" where
  "lookup_blocks ops dir name [] = fret None"
| "lookup_blocks ops dir name (logical # ls) =
     fbind (inode_get_block ops dir logical) (\<lambda>(phys, _).
     if phys = 0 then lookup_blocks ops dir name ls
     else fbind (read_block ops phys) (\<lambda>buf.
       case find_entry buf (of_nat BLOCK_SIZE) name of
         Some ino \<Rightarrow> fret (Some ino)
       | None \<Rightarrow> lookup_blocks ops dir name ls))"

definition lookup_in_dir :: "'d block_device \<Rightarrow> inode \<Rightarrow> string \<Rightarrow> ('d ziqafs, u32 option) fsm" where
  "lookup_in_dir ops dir name = lookup_blocks ops dir name (logicals (block_total (i_size dir)))"

fun add_to_blocks :: "'d block_device \<Rightarrow> inode \<Rightarrow> u32 \<Rightarrow> string \<Rightarrow> u32 list \<Rightarrow> ('d ziqafs, bool) fsm" where
  "add_to_blocks ops dir new_id name [] = fret False"
| "add_to_blocks ops dir new_id name (logical # ls) =
     fbind (inode_get_block ops dir logical) (\<lambda>(phys, _).
     if phys = 0 then add_to_blocks ops dir new_id name ls
     else fbind (read_block ops phys) (\<lambda>buf.
       case write_entry_raw buf new_id name of
         Inr buf \<Rightarrow> fbind (write_block ops phys buf) (\<lambda>_. fret True)
       | Inl _ \<Rightarrow> add_to_blocks ops dir new_id name ls))"

definition fres :: "abi_error + 'a \<Rightarrow> ('s, 'a) fsm" where
  "fres r s = Some (r, s)"

definition dir_add_entry :: "'d block_device \<Rightarrow> u32 \<Rightarrow> u32 \<Rightarrow> string \<Rightarrow> ('d ziqafs, unit) fsm" where
  "dir_add_entry ops parent_inode new_id name =
     fbind (read_inode ops parent_inode) (\<lambda>parent.
     let total_dir_blocks = block_total (i_size parent)
     in fbind (add_to_blocks ops parent new_id name (logicals total_dir_blocks)) (\<lambda>done.
        if done then fret ()
        else let new_logical = of_nat total_dir_blocks
        in fbind (inode_alloc_block ops parent new_logical) (\<lambda>(new_phys, parent).
           fbind (write_inode ops parent_inode (parent\<lparr>i_size := (new_logical + 1) * of_nat BLOCK_SIZE\<rparr>)) (\<lambda>_.
           fbind (fres (write_entry_raw zero_block new_id name)) (\<lambda>buf.
           write_block ops new_phys buf)))))"

definition entry_or_same :: "bytes \<Rightarrow> u32 \<Rightarrow> string \<Rightarrow> bytes" where
  "entry_or_same buf ino name = (case write_entry_raw buf ino name of Inr b \<Rightarrow> b | Inl _ \<Rightarrow> buf)"

definition init_dir_block :: "'d block_device \<Rightarrow> u32 \<Rightarrow> u32 \<Rightarrow> ('d ziqafs, u32) fsm" where
  "init_dir_block ops new_id parent_inode_id =
     fbind (alloc_data_block ops) (\<lambda>new_data.
     fbind (read_inode ops new_id) (\<lambda>i.
     fbind (now_secs ops) (\<lambda>now.
     fbind (write_inode ops new_id (i\<lparr>i_blocks := (i_blocks i)[0 := new_data], i_size := of_nat BLOCK_SIZE,
              i_mtime := now, i_ctime := now, i_atime := now\<rparr>)) (\<lambda>_.
     fbind (write_block ops new_data
              (entry_or_same (entry_or_same zero_block new_id ''.'') parent_inode_id ''..'')) (\<lambda>_.
     fret new_data)))))"

section \<open>Files\<close>

definition flush_superblock :: "'d block_device \<Rightarrow> ('d ziqafs, unit) fsm" where
  "flush_superblock ops =
     fbind (fget sb) (\<lambda>b. write_blocks ops SUPERBLOCK_BLOCK 1 (put_bytes zero_block 0 (superblock_bytes b)))"

definition chunk_of :: "u64 \<Rightarrow> nat \<Rightarrow> nat \<Rightarrow> nat" where
  "chunk_of offset len done = min (BLOCK_SIZE - unat (offset + of_nat done) mod BLOCK_SIZE) (len - done)"

definition logical_of :: "u64 \<Rightarrow> nat \<Rightarrow> u32" where
  "logical_of offset done = ucast (offset + of_nat done) div of_nat BLOCK_SIZE"

lemma chunk_of_pos: "done < len \<Longrightarrow> 0 < chunk_of offset len done"
proof -
  assume "done < len"
  moreover have "unat (offset + of_nat done) mod BLOCK_SIZE < BLOCK_SIZE"
    by (rule mod_less_divisor) (simp add: BLOCK_SIZE_def)
  ultimately show ?thesis unfolding chunk_of_def by linarith
qed

function read_loop :: "'d block_device \<Rightarrow> inode \<Rightarrow> u64 \<Rightarrow> nat \<Rightarrow> nat \<Rightarrow> bytes \<Rightarrow> ('d ziqafs, nat \<times> bytes) fsm" where
  "read_loop ops i offset to_read done buf =
     (if done < to_read then
        let block_off = unat (offset + of_nat done) mod BLOCK_SIZE; chunk = chunk_of offset to_read done
        in fbind (inode_get_block ops i (logical_of offset done)) (\<lambda>(phys, _).
           if phys = 0 then fret (done, buf)
           else fbind (read_block ops phys) (\<lambda>block_buf.
             read_loop ops i offset to_read (done + chunk) (put_bytes buf done (slice block_buf block_off chunk))))
      else fret (done, buf))"
  by pat_completeness auto
termination
proof (relation "measure (\<lambda>(_, _, _, to_read, done, _). to_read - done)")
  fix ops :: "'d block_device" and i :: inode and offset :: u64 and to_read "done" block_off chunk :: nat
    and buf block_buf :: bytes
  assume "done < to_read" "chunk = chunk_of offset to_read done"
  then show "((ops, i, offset, to_read, done + chunk, put_bytes buf done (slice block_buf block_off chunk)),
      ops, i, offset, to_read, done, buf) \<in> measure (\<lambda>(_, _, _, to_read, done, _). to_read - done)"
    using chunk_of_pos [of "done" to_read offset] by simp
qed simp

declare read_loop.simps [simp del]

definition read_file :: "'d block_device \<Rightarrow> u32 \<Rightarrow> u64 \<Rightarrow> bytes \<Rightarrow> ('d ziqafs, nat \<times> bytes) fsm" where
  "read_file ops inode_id offset buf =
     fbind (read_inode ops inode_id) (\<lambda>i.
     if offset \<ge> ucast (i_size i) then fret (0, buf)
     else read_loop ops i offset (min (unat (i_size i) - unat offset) (length buf)) 0 buf)"

text \<open>One block of \<open>write_file\<close>: copy on write to a fresh block, which replaces the old one.\<close>

definition write_chunk :: "'d block_device \<Rightarrow> u64 \<Rightarrow> bytes \<Rightarrow> inode \<Rightarrow> nat \<Rightarrow> ('d ziqafs, inode) fsm" where
  "write_chunk ops offset buf i done =
     (let logical = logical_of offset done; block_off = unat (offset + of_nat done) mod BLOCK_SIZE;
          chunk = chunk_of offset (length buf) done
      in fbind (inode_get_block ops i logical) (\<lambda>(old_phys, _).
         fbind (if old_phys \<noteq> 0 \<and> (block_off > 0 \<or> done + BLOCK_SIZE > length buf) then read_block ops old_phys
                else fret zero_block) (\<lambda>block_buf.
         fbind (alloc_data_block ops) (\<lambda>new_phys.
         fbind (write_block ops new_phys (put_bytes block_buf block_off (slice buf done chunk))) (\<lambda>_.
         fbind (inode_set_block ops i logical new_phys 0) (\<lambda>i.
         fbind (if old_phys \<noteq> 0 \<and> old_phys \<noteq> new_phys then free_data_block ops old_phys else fret ()) (\<lambda>_.
         fret i)))))))"

function write_loop :: "'d block_device \<Rightarrow> u64 \<Rightarrow> bytes \<Rightarrow> inode \<Rightarrow> nat \<Rightarrow> ('d ziqafs, inode) fsm" where
  "write_loop ops offset buf i done =
     (if done < length buf then
        fbind (write_chunk ops offset buf i done) (\<lambda>i.
        write_loop ops offset buf i (done + chunk_of offset (length buf) done))
      else fret i)"
  by pat_completeness auto
termination
  by (relation "measure (\<lambda>(_, _, buf, _, done). length buf - done)") (auto simp: chunk_of_pos diff_less_mono2)

declare write_loop.simps [simp del]

definition write_file :: "'d block_device \<Rightarrow> u32 \<Rightarrow> u64 \<Rightarrow> bytes \<Rightarrow> ('d ziqafs, nat) fsm" where
  "write_file ops inode_id offset buf =
     fbind (read_inode ops inode_id) (\<lambda>i.
     if i_mode i = INODE_MODE_DIR then ffail (Other ''Cannot write to directory'')
     else fbind (write_loop ops offset buf i 0) (\<lambda>i.
       let new_size = max (offset + of_nat (length buf)) (ucast (i_size i))
       in fbind (now_secs ops) (\<lambda>now.
          fbind (write_inode ops inode_id (i\<lparr>i_size := ucast new_size, i_mtime := now\<rparr>)) (\<lambda>_.
          fbind (flush_superblock ops) (\<lambda>_.
          fret (length buf))))))"

text \<open>The loop of \<open>truncate\<close> over the blocks beyond the new size.\<close>

definition truncate_block :: "'d block_device \<Rightarrow> inode \<Rightarrow> u32 \<Rightarrow> ('d ziqafs, unit) fsm" where
  "truncate_block ops i logical =
     fbind (inode_get_block ops i logical) (\<lambda>(phys, _).
     if phys \<noteq> 0 then
       fbind (read_block ops phys) (\<lambda>block_buf.
       if logical < 10 then write_block ops phys block_buf
       else let idx = unat (logical - 10)
            in if idx < PTRS \<and> i_indirect i \<noteq> 0 then
                 fbind (read_block ops (i_indirect i)) (\<lambda>buf.
                 write_block ops (i_indirect i) (set_ptr buf idx 0))
               else fret ())
     else fret ())"

definition zfs_truncate :: "'d block_device \<Rightarrow> u32 \<Rightarrow> u64 \<Rightarrow> ('d ziqafs, unit) fsm" where
  "zfs_truncate ops inode_id new_size =
     fbind (read_inode ops inode_id) (\<lambda>i.
     if i_mode i = INODE_MODE_DIR then ffail (Other ''Cannot truncate directory'')
     else
       let old_blocks = of_nat (block_total (i_size i)) :: u32;
           new_blocks = ucast ((new_size + of_nat BLOCK_SIZE - 1) div of_nat BLOCK_SIZE) :: u32
       in fbind (ffor (\<lambda>logical _. truncate_block ops i logical) (map of_nat [unat new_blocks..<unat old_blocks]) ()) (\<lambda>_.
          fbind (if new_size > 0 \<and> new_size mod of_nat BLOCK_SIZE \<noteq> 0 then
                   fbind (inode_get_block ops i (ucast (new_size - 1) div of_nat BLOCK_SIZE)) (\<lambda>(phys, _).
                   if phys \<noteq> 0 then
                     fbind (read_block ops phys) (\<lambda>block_buf.
                     let tail_start = unat new_size mod BLOCK_SIZE
                     in write_block ops phys (put_bytes block_buf tail_start (replicate (BLOCK_SIZE - tail_start) 0)))
                   else fret ())
                 else fret ()) (\<lambda>_.
          fbind (now_secs ops) (\<lambda>now.
          fbind (write_inode ops inode_id (i\<lparr>i_size := ucast new_size, i_mtime := now\<rparr>)) (\<lambda>_.
          flush_superblock ops)))))"

definition create_file :: "'d block_device \<Rightarrow> u32 \<Rightarrow> string \<Rightarrow> ('d ziqafs, u32) fsm" where
  "create_file ops parent_inode name =
     (if name = [] \<or> length name > 252 then ffail (Other ''Invalid name'')
      else fbind (read_inode ops parent_inode) (\<lambda>parent.
        if i_mode parent \<noteq> INODE_MODE_DIR then ffail (Other ''Not a directory'')
        else fbind (lookup_in_dir ops parent name) (\<lambda>found.
          if found \<noteq> None then ffail (Other ''File exists'')
          else fbind (alloc_inode ops INODE_MODE_FILE) (\<lambda>new_id.
               fbind (dir_add_entry ops parent_inode new_id name) (\<lambda>_.
               fbind (flush_superblock ops) (\<lambda>_.
               fret new_id))))))"

definition create_dir :: "'d block_device \<Rightarrow> u32 \<Rightarrow> string \<Rightarrow> ('d ziqafs, u32) fsm" where
  "create_dir ops parent_inode name =
     (if name = [] \<or> length name > 252 then ffail (Other ''Invalid name'')
      else fbind (read_inode ops parent_inode) (\<lambda>parent.
        if i_mode parent \<noteq> INODE_MODE_DIR then ffail (Other ''Not a directory'')
        else fbind (lookup_in_dir ops parent name) (\<lambda>found.
          if found \<noteq> None then ffail (Other ''File exists'')
          else fbind (alloc_inode ops INODE_MODE_DIR) (\<lambda>new_id.
               fbind (init_dir_block ops new_id parent_inode) (\<lambda>_.
               fbind (dir_add_entry ops parent_inode new_id name) (\<lambda>_.
               fbind (flush_superblock ops) (\<lambda>_.
               fret new_id)))))))"

text \<open>The search of \<open>unlink\<close>: the target found last with its block, and the block read last.\<close>

record unlink_scan =
  us_target :: "u32 option"
  us_found :: u32
  us_last :: u32
  us_buf :: bytes

definition unlink_step :: "'d block_device \<Rightarrow> inode \<Rightarrow> string \<Rightarrow> u32 \<Rightarrow> unlink_scan \<Rightarrow> ('d ziqafs, unlink_scan) fsm" where
  "unlink_step ops parent name logical u =
     fbind (inode_get_block ops parent logical) (\<lambda>(phys, _).
     if phys = 0 then fret u
     else fbind (if phys \<noteq> us_last u then fbind (read_block ops phys) (\<lambda>b. fret (u\<lparr>us_buf := b, us_last := phys\<rparr>))
                 else fret u) (\<lambda>u.
       case find_entry (us_buf u) (of_nat BLOCK_SIZE) name of
         Some ino \<Rightarrow> fret (u\<lparr>us_target := Some ino, us_found := phys\<rparr>)
       | None \<Rightarrow> fret u))"

definition unlink :: "'d block_device \<Rightarrow> u32 \<Rightarrow> string \<Rightarrow> ('d ziqafs, unit) fsm" where
  "unlink ops parent_inode name =
     fbind (read_inode ops parent_inode) (\<lambda>parent.
     fbind (ffor (unlink_step ops parent name) (logicals (block_total (i_size parent)))
              \<lparr>us_target = None, us_found = 0, us_last = 0, us_buf = zero_block\<rparr>) (\<lambda>u.
     case us_target u of
       None \<Rightarrow> ffail (Other ''File not found'')
     | Some target_id \<Rightarrow>
         fbind (read_inode ops target_id) (\<lambda>target.
         fbind (now_secs ops) (\<lambda>now.
         let target = target\<lparr>i_nlink := saturating_sub (i_nlink target) 1, i_ctime := now\<rparr>
         in fbind (if us_found u \<noteq> us_last u then read_block ops (us_found u) else fret (us_buf u)) (\<lambda>buf.
            fbind (write_block ops (us_found u) (snd (remove_entry_raw buf (of_nat BLOCK_SIZE) target_id))) (\<lambda>_.
            fbind (if i_nlink target = 0 then
                     fbind (free_inode_blocks ops target) (\<lambda>_. free_inode ops target_id)
                   else write_inode ops target_id target) (\<lambda>_.
            flush_superblock ops)))))))"

fun remove_from_blocks :: "'d block_device \<Rightarrow> inode \<Rightarrow> u32 \<Rightarrow> u32 list \<Rightarrow> ('d ziqafs, unit) fsm" where
  "remove_from_blocks ops dir target_id [] = fret ()"
| "remove_from_blocks ops dir target_id (logical # ls) =
     fbind (inode_get_block ops dir logical) (\<lambda>(phys, _).
     if phys = 0 then remove_from_blocks ops dir target_id ls
     else fbind (read_block ops phys) (\<lambda>buf.
       let (removed, buf) = remove_entry_raw buf (of_nat BLOCK_SIZE) target_id
       in if removed then write_block ops phys buf else remove_from_blocks ops dir target_id ls))"

definition zfs_rename :: "'d block_device \<Rightarrow> u32 \<Rightarrow> string \<Rightarrow> u32 \<Rightarrow> string \<Rightarrow> ('d ziqafs, unit) fsm" where
  "zfs_rename ops src_parent name dst_parent new_name =
     (if new_name = [] \<or> length new_name > 252 then ffail (Other ''Invalid name'')
      else fbind (read_inode ops src_parent) (\<lambda>src.
           fbind (lookup_in_dir ops src name) (\<lambda>found.
           case found of
             None \<Rightarrow> ffail (Other ''File not found'')
           | Some target_id \<Rightarrow>
               fbind (remove_from_blocks ops src target_id (logicals (block_total (i_size src)))) (\<lambda>_.
               dir_add_entry ops dst_parent target_id new_name))))"

definition journal_read :: "'d block_device \<Rightarrow> ('d ziqafs, bytes \<times> journal_header) fsm" where
  "journal_read ops = fbind (read_block ops JOURNAL_BLOCK) (\<lambda>buf. fret (buf, header_of buf))"

definition journal_commit :: "'d block_device \<Rightarrow> journal_op \<Rightarrow> u32 \<Rightarrow> bytes \<Rightarrow> ('d ziqafs, unit) fsm" where
  "journal_commit ops opn blk data =
     fbind (journal_read ops) (\<lambda>(buf, hdr).
     if jh_magic hdr \<noteq> JOURNAL_MAGIC then fret ()
     else
       let slot = unat (jh_head hdr) mod JOURNAL_ENTRIES;
           entry_off = 64 + slot * JOURNAL_ENTRY_SIZE;
           d = put_bytes (replicate 56 0) 0 (take 56 data);
           d = put_bytes d 52 (le_bytes 4 (crc32 (take 52 d)));
           entry = \<lparr>je_op = journal_op_code opn, je_pad = replicate 3 0, je_block = blk, je_data = d\<rparr>;
           hdr = hdr\<lparr>jh_head := (jh_head hdr + 1) mod of_nat JOURNAL_ENTRIES, jh_committed := jh_committed hdr + 1\<rparr>
       in write_block ops JOURNAL_BLOCK (put_bytes (put_bytes buf entry_off (entry_bytes entry)) 0 (header_bytes hdr)))"

definition zfs_link :: "'d block_device \<Rightarrow> u32 \<Rightarrow> u32 \<Rightarrow> string \<Rightarrow> ('d ziqafs, unit) fsm" where
  "zfs_link ops src_inode_id dst_parent name =
     (if name = [] \<or> length name > 252 then ffail (Other ''Invalid name'')
      else fbind (read_inode ops src_inode_id) (\<lambda>i.
        if i_mode i = INODE_MODE_DIR then ffail (Other ''Cannot hard-link a directory'')
        else fbind (read_inode ops dst_parent) (\<lambda>dst.
             fbind (lookup_in_dir ops dst name) (\<lambda>found.
             if found \<noteq> None then ffail (Other ''File exists'')
             else fbind (now_secs ops) (\<lambda>now.
               let i = i\<lparr>i_nlink := i_nlink i + 1, i_ctime := now\<rparr>
               in fbind (fcatch (journal_commit ops JWriteInode src_inode_id (take 56 (inode_bytes i)))) (\<lambda>_.
                  fbind (write_inode ops src_inode_id i) (\<lambda>_.
                  dir_add_entry ops dst_parent src_inode_id name)))))))"

definition read_dir :: "'d block_device \<Rightarrow> u32 \<Rightarrow> ('d ziqafs, (string \<times> u32) list) fsm" where
  "read_dir ops inode_id =
     fbind (read_inode ops inode_id) (\<lambda>i.
     if i_mode i \<noteq> INODE_MODE_DIR then ffail (Other ''Not a directory'')
     else ffor (\<lambda>logical entries.
         fbind (inode_get_block ops i logical) (\<lambda>(phys, _).
         if phys = 0 then fret entries
         else fbind (read_block ops phys) (\<lambda>buf.
           fret (entries @ map (\<lambda>(eid, ename). (ename, eid))
             (filter (\<lambda>(_, ename). ename \<noteq> ''.'' \<and> ename \<noteq> ''..'') (dirent_foreach buf (of_nat BLOCK_SIZE)))))))
       (logicals (block_total (i_size i))) [])"

definition root_lookup :: "'d block_device \<Rightarrow> string \<Rightarrow> ('d ziqafs, u32) fsm" where
  "root_lookup ops path =
     (let name = trim_end (trim_start path)
      in if name = [] then ffail (Other ''Empty path'')
         else ffor (\<lambda>part current.
             fbind (read_inode ops current) (\<lambda>i.
             if i_mode i \<noteq> INODE_MODE_DIR then ffail (Other ''Not a directory'')
             else fbind (lookup_in_dir ops i part) (\<lambda>found.
               case found of None \<Rightarrow> ffail (Other ''File not found'') | Some ino \<Rightarrow> fret ino)))
           (split_slash name) ROOT_INODE)"

definition copy_file :: "'d block_device \<Rightarrow> u32 \<Rightarrow> u32 \<Rightarrow> string \<Rightarrow> ('d ziqafs, u32) fsm" where
  "copy_file ops src_inode_id dst_parent name =
     fbind (read_inode ops src_inode_id) (\<lambda>src.
     if i_mode src = INODE_MODE_DIR then ffail (Other ''Cannot copy directory'')
     else fbind (create_file ops dst_parent name) (\<lambda>new_id.
       let sz = unat (i_size src); total_logical = block_total (i_size src)
       in fbind (ffor (\<lambda>logical _.
            fbind (inode_get_block ops src logical) (\<lambda>(src_phys, _).
            if src_phys = 0 then fret ()
            else fbind (read_block ops src_phys) (\<lambda>block_buf.
              let write_len = (if unat logical = total_logical - 1 \<and> sz mod BLOCK_SIZE \<noteq> 0 then sz mod BLOCK_SIZE
                               else BLOCK_SIZE)
              in fbind (write_file ops new_id (ucast logical * of_nat BLOCK_SIZE) (take write_len block_buf)) (\<lambda>_.
                 fret ()))))
          (logicals total_logical) ()) (\<lambda>_.
          fret new_id)))"

fun du :: "nat \<Rightarrow> 'd block_device \<Rightarrow> u32 \<Rightarrow> ('d ziqafs, u32) fsm" where
  "du 0 ops inode_id = fpanic"
| "du (Suc depth) ops inode_id =
     fbind (fcatch (read_inode ops inode_id)) (\<lambda>r.
     case r of
       Inl _ \<Rightarrow> fret 0
     | Inr i \<Rightarrow>
         let own = of_nat (block_total (i_size i))
         in if i_mode i \<noteq> INODE_MODE_DIR then fret own
            else fbind (fcatch (read_dir ops inode_id)) (\<lambda>r.
              let children = (case r of Inl _ \<Rightarrow> [] | Inr c \<Rightarrow> c)
              in fbind (ffor (\<lambda>(_, cid) total. fbind (du depth ops cid) (\<lambda>n. fret (total + n))) children 0) (\<lambda>total.
                 fret (own + total))))"

section \<open>Journal replay\<close>

definition replay_entry :: "'d block_device \<Rightarrow> bytes \<Rightarrow> nat \<Rightarrow> u32 \<Rightarrow> ('d ziqafs, u32) fsm" where
  "replay_entry ops buf k replayed =
     (let entry = journal_entry_of (slice buf (64 + k * JOURNAL_ENTRY_SIZE) JOURNAL_ENTRY_SIZE);
          count = (\<lambda>r. fret (case r of Inl _ \<Rightarrow> replayed | Inr () \<Rightarrow> replayed + 1))
      in if le_word (slice (je_data entry) 52 4) \<noteq> crc32 (take 52 (je_data entry)) then fret replayed
         else if je_op entry = journal_op_code JWriteInode then
           if je_block entry < INODE_COUNT
           then fbind (fcatch (patch_inode_raw ops (je_block entry) 0 (je_data entry))) count
           else fret replayed
         else if je_op entry = journal_op_code JWriteBitmap then
           fbind (fcatch (patch_bitmap_byte ops (unat (je_block entry)) (je_data entry ! 0))) count
         else fret replayed)"

definition journal_replay :: "'d block_device \<Rightarrow> ('d ziqafs, u32) fsm" where
  "journal_replay ops =
     fbind (fcatch (journal_read ops)) (\<lambda>r.
     case r of
       Inl _ \<Rightarrow> fret 0
     | Inr (buf, hdr) \<Rightarrow>
         if jh_magic hdr \<noteq> JOURNAL_MAGIC \<or> jh_committed hdr = 0 then fret 0
         else ffor (replay_entry ops buf) [0..<JOURNAL_ENTRIES] 0)"

section \<open>Consistency check\<close>

definition mark :: "bytes \<Rightarrow> u32 \<Rightarrow> ('s, bytes) fsm" where
  "mark reachable b = fopt (set_bitmap_bit reachable (unat b))"

definition mark_nonzero :: "bytes \<Rightarrow> u32 \<Rightarrow> ('s, bytes) fsm" where
  "mark_nonzero reachable b = (if b \<noteq> 0 then mark reachable b else fret reachable)"

definition fsck_block :: "'d block_device \<Rightarrow> inode \<Rightarrow> u32 \<Rightarrow> bytes \<Rightarrow> ('d ziqafs, bytes) fsm" where
  "fsck_block ops i logical reachable =
     fbind (fcatch (inode_get_block ops i logical)) (\<lambda>r.
     case r of Inl _ \<Rightarrow> fret reachable | Inr (phys, _) \<Rightarrow> mark_nonzero reachable phys)"

definition fsck_inode :: "'d block_device \<Rightarrow> u32 \<Rightarrow> u32 \<times> bytes \<Rightarrow> ('d ziqafs, u32 \<times> bytes) fsm" where
  "fsck_inode ops inode_id st =
     fbind (fcatch (read_inode ops inode_id)) (\<lambda>r.
     case r of
       Inl _ \<Rightarrow> fret st
     | Inr i \<Rightarrow>
         if i_mode i = 0 then fret st
         else fbind (ffor (fsck_block ops i) (logicals (block_total (i_size i))) (snd st)) (\<lambda>reachable.
              fbind (mark_nonzero reachable (i_indirect i)) (\<lambda>reachable.
              fbind (mark_nonzero reachable (i_double_indirect i)) (\<lambda>reachable.
              fret (fst st + 1, reachable)))))"

definition fsck :: "'d block_device \<Rightarrow> ('d ziqafs, fsck_result) fsm" where
  "fsck ops =
     fbind (fget sb) (\<lambda>b.
     let bad = \<lparr>fr_ok = False, fr_errors = 1, fr_leaked_blocks = 0, fr_leaked_inodes = 0\<rparr>
     in if sb_magic b \<noteq> FS_MAGIC then fret bad
        else fbind (fcatch (read_block ops BITMAP_BLOCK)) (\<lambda>r.
          case r of
            Inl _ \<Rightarrow> fret bad
          | Inr bitmap \<Rightarrow>
              fbind (ffor (\<lambda>b r. mark r b) (logicals (unat (first_data_block b))) zero_block) (\<lambda>reachable.
              fbind (ffor (fsck_inode ops) (map of_nat [1..<unat INODE_COUNT]) (0, reachable)) (\<lambda>(live_inodes, reachable).
              fbind (fopt (bitmap_count_leaked bitmap reachable (first_data_block b) (total_blocks b))) (\<lambda>leaked_blocks.
              let expected_free = INODE_COUNT - 1 - live_inodes;
                  diff = free_inodes b \<noteq> expected_free;
                  errors = leaked_blocks + (if diff then 1 else 0)
              in fret \<lparr>fr_ok = (errors = 0), fr_errors = errors, fr_leaked_blocks = leaked_blocks,
                       fr_leaked_inodes = (if diff then of_int \<bar>sint (free_inodes b - expected_free)\<bar> else 0)\<rparr>)))))"

section \<open>Mounting and formatting\<close>

text \<open>Reading the superblock does not look at the one in the state.\<close>

definition zfs_mount :: "'d block_device \<Rightarrow> 'd \<Rightarrow> (abi_error + 'd ziqafs) option" where
  "zfs_mount ops d =
     (case read_blocks ops SUPERBLOCK_BLOCK 1 zero_block \<lparr>device = d, sb = superblock_of zero_block\<rparr> of
        None \<Rightarrow> None
      | Some (Inl e, _) \<Rightarrow> Some (Inl e)
      | Some (Inr sb_buf, _) \<Rightarrow>
          let b = superblock_of sb_buf
          in if sb_magic b \<noteq> FS_MAGIC then Some (Inl (Other ''Not a ZiqaFS filesystem''))
             else if block_size b \<noteq> of_nat BLOCK_SIZE then Some (Inl (Other ''Block size mismatch''))
             else Some (Inr \<lparr>device = d, sb = b\<rparr>))"

definition create_root_dir :: "'d block_device \<Rightarrow> ('d ziqafs, unit) fsm" where
  "create_root_dir ops =
     fbind (alloc_inode ops INODE_MODE_DIR) (\<lambda>root_id.
     fbind (alloc_data_block ops) (\<lambda>root_block.
     fbind (read_inode ops root_id) (\<lambda>i.
     fbind (write_inode ops root_id (i\<lparr>i_blocks := (i_blocks i)[0 := root_block], i_size := of_nat BLOCK_SIZE\<rparr>)) (\<lambda>_.
     write_block ops root_block (entry_or_same zero_block root_id ''.'')))))"

definition format_sb :: "u32 \<Rightarrow> superblock" where
  "format_sb n =
     \<lparr>sb_magic = FS_MAGIC, total_blocks = n, inode_count = INODE_COUNT, first_data_block = FIRST_DATA_BLOCK,
      block_size = of_nat BLOCK_SIZE, sb_flags = BMAP_DIRTY, free_blocks = saturating_sub n FIRST_DATA_BLOCK,
      free_inodes = INODE_COUNT - 1, sb_reserved = replicate 20 0\<rparr>"

definition format_fs :: "'d block_device \<Rightarrow> ('d ziqafs, unit) fsm" where
  "format_fs ops =
     fbind (flush_superblock ops) (\<lambda>_.
     fbind (ffor (\<lambda>i bm. fopt (set_bitmap_bit bm i)) [0..<unat FIRST_DATA_BLOCK] zero_block) (\<lambda>bitmap.
     fbind (write_blocks ops BITMAP_BLOCK 1 bitmap) (\<lambda>_.
     fbind (write_blocks ops JOURNAL_BLOCK 1 (put_bytes zero_block 0
              (header_bytes \<lparr>jh_magic = JOURNAL_MAGIC, jh_head = 0, jh_committed = 0, jh_pad = replicate 52 0\<rparr>))) (\<lambda>_.
     fbind (write_blocks ops INODE_TABLE_BLOCK 1 zero_block) (\<lambda>_.
     fbind (create_root_dir ops) (\<lambda>_.
     fbind (fmod (\<lambda>s. s\<lparr>sb := (sb s)\<lparr>sb_flags := BMAP_CLEAN\<rparr>\<rparr>)) (\<lambda>_.
     flush_superblock ops)))))))"

definition zfs_format :: "'d block_device \<Rightarrow> 'd \<Rightarrow> ((abi_error + unit) \<times> 'd ziqafs) option" where
  "zfs_format ops d =
     (let n = ucast (total_sectors ops d * of_nat SECTOR_SIZE div of_nat BLOCK_SIZE) :: u32
      in format_fs ops \<lparr>device = d, sb = format_sb n\<rparr>)"

definition zfs_stat :: "'d block_device \<Rightarrow> u32 \<Rightarrow> ('d ziqafs, u16 \<times> u32) fsm" where
  "zfs_stat ops inode_id = fbind (read_inode ops inode_id) (\<lambda>i. fret (i_mode i, i_size i))"

definition zfs_statfs :: "'d ziqafs \<Rightarrow> statfs" where
  "zfs_statfs s = \<lparr>st_total_blocks = total_blocks (sb s), st_free_blocks = free_blocks (sb s),
     st_total_inodes = inode_count (sb s), st_free_inodes = free_inodes (sb s), st_block_size = block_size (sb s)\<rparr>"

section \<open>The adapter to the virtual file system\<close>

text \<open>The file system itself is shared and stays an argument.\<close>

record ziqafs_file =
  zf_inode_id :: u32
  zf_inode :: inode

definition zf_read :: "'d block_device \<Rightarrow> ziqafs_file \<Rightarrow> bytes \<Rightarrow> u64 \<Rightarrow> ('d ziqafs, nat \<times> bytes) fsm" where
  "zf_read ops f buf offset = read_file ops (zf_inode_id f) offset buf"

definition zf_write :: "'d block_device \<Rightarrow> ziqafs_file \<Rightarrow> bytes \<Rightarrow> u64 \<Rightarrow> ('d ziqafs, nat \<times> ziqafs_file) fsm" where
  "zf_write ops f buf offset =
     fbind (write_file ops (zf_inode_id f) offset buf) (\<lambda>n.
     fbind (fcatch (read_inode ops (zf_inode_id f))) (\<lambda>r.
     fret (n, case r of Inl _ \<Rightarrow> f | Inr i \<Rightarrow> f\<lparr>zf_inode := i\<rparr>)))"

definition zf_type :: "ziqafs_file \<Rightarrow> file_type" where
  "zf_type f = (if i_mode (zf_inode f) = INODE_MODE_DIR then DirectoryType else Regular)"

definition zf_size :: "'d block_device \<Rightarrow> ziqafs_file \<Rightarrow> ('d ziqafs, nat) fsm" where
  "zf_size ops f =
     fbind (fcatch (read_inode ops (zf_inode_id f))) (\<lambda>r.
     fret (case r of Inl _ \<Rightarrow> unat (i_size (zf_inode f)) | Inr i \<Rightarrow> unat (i_size i)))"

fun enumerate_dir ::
  "nat \<Rightarrow> 'd block_device \<Rightarrow> u32 \<Rightarrow> string \<Rightarrow> (string \<times> u32 \<times> u16) list \<Rightarrow> ('d ziqafs, (string \<times> u32 \<times> u16) list) fsm" where
  "enumerate_dir 0 ops inode_id prefix es = fpanic"
| "enumerate_dir (Suc depth) ops inode_id prefix es =
     fbind (fcatch (read_dir ops inode_id)) (\<lambda>r.
     ffor (\<lambda>(name, child_id) es.
         let path = (if prefix = [] \<or> prefix = ''/'' then CHR ''/'' # name else prefix @ CHR ''/'' # name)
         in fbind (fcatch (read_inode ops child_id)) (\<lambda>r.
            let mode = (case r of Inl _ \<Rightarrow> 0 | Inr i \<Rightarrow> i_mode i); es = es @ [(path, child_id, mode)]
            in if mode = INODE_MODE_DIR then enumerate_dir depth ops child_id path es else fret es))
       (case r of Inl _ \<Rightarrow> [] | Inr c \<Rightarrow> c) es)"

text \<open>\<open>mk\<close> makes the file object of the virtual file system from a file.\<close>

definition mount_file :: "'d block_device \<Rightarrow> (ziqafs_file \<Rightarrow> 'f) \<Rightarrow> string \<Rightarrow> u32 \<Rightarrow> 'f vfs \<Rightarrow> ('d ziqafs, bool \<times> 'f vfs) fsm" where
  "mount_file ops mk path inode_id v =
     fbind (fcatch (read_inode ops inode_id)) (\<lambda>r.
     case r of
       Inl _ \<Rightarrow> fret (False, v)
     | Inr i \<Rightarrow> let (f, v) = new_file v (mk \<lparr>zf_inode_id = inode_id, zf_inode = i\<rparr>) in fret (True, mount v path f))"

definition mount_into_vfs :: "nat \<Rightarrow> 'd block_device \<Rightarrow> (ziqafs_file \<Rightarrow> 'f) \<Rightarrow> 'f vfs \<Rightarrow> ('d ziqafs, 'f vfs) fsm" where
  "mount_into_vfs depth ops mk v =
     fbind (enumerate_dir depth ops ROOT_INODE [] []) (\<lambda>es.
     fbind (ffor (\<lambda>(path, inode_id, _) v. fbind (mount_file ops mk path inode_id v) (\<lambda>(_, v). fret v)) es v) (\<lambda>v.
     fbind (mount_file ops mk ''/disk'' ROOT_INODE v) (\<lambda>(mounted, v).
     if mounted then fopt (mkdir v ''/disk'') else fret v)))"

end
