(* ===== verification/Ziqa_Zfs_Disk.thy ===== *)
theory Ziqa_Zfs_Disk
  imports Ziqa_Zfs
begin

text \<open>
  What the lower layers of the on-disk file system do on a device that keeps what is written to it:
  blocks, the bitmap as a set of blocks, allocation and release of blocks, and the inode table as an
  array of inodes whose checksums detect damage.
\<close>

section \<open>Running operations\<close>

lemma fbind_Inr [simp]: "m s = Some (Inr x, s') \<Longrightarrow> fbind m f s = f x s'"
  by (simp add: fbind_def)

lemma fbind_Inl [simp]: "m s = Some (Inl e, s') \<Longrightarrow> fbind m f s = Some (Inl e, s')"
  by (simp add: fbind_def)

lemma fbind_None [simp]: "m s = None \<Longrightarrow> fbind m f s = None"
  by (simp add: fbind_def)

lemma fsm_simps [simp]:
  "fret x s = Some (Inr x, s)" "ffail e s = Some (Inl e, s)" "fpanic s = None" "fget g s = Some (Inr (g s), s)"
  "fmod h s = Some (Inr (), h s)" "fopt (Some x) = fret x" "fopt None = fpanic"
  by (simp_all add: fret_def ffail_def fpanic_def fget_def fmod_def fopt_def)

section \<open>A device that stores sectors\<close>

definition sector_store :: "'d block_device \<Rightarrow> ('d \<Rightarrow> nat \<Rightarrow> bytes) \<Rightarrow> nat \<Rightarrow> bool" where
  "sector_store ops sec n \<longleftrightarrow>
     (\<forall>d k. length (sec d k) = 512) \<and>
     (\<forall>d p c buf. unat p + unat c \<le> n \<and> 512 * unat c \<le> length buf \<longrightarrow>
        read_sectors ops d p c buf =
          Inr (concat (map (sec d) [unat p..<unat p + unat c]) @ drop (512 * unat c) buf)) \<and>
     (\<forall>d p c buf. unat p + unat c \<le> n \<and> 512 * unat c \<le> length buf \<longrightarrow>
        (\<exists>d'. write_sectors ops d p c buf = (Inr (), d') \<and>
           (\<forall>k. sec d' k = (if unat p \<le> k \<and> k < unat p + unat c then slice buf (512 * (k - unat p)) 512
                             else sec d k))))"

definition blk :: "('d \<Rightarrow> nat \<Rightarrow> bytes) \<Rightarrow> 'd \<Rightarrow> nat \<Rightarrow> bytes" where
  "blk sec d b = concat (map (sec d) [8 * b..<8 * b + 8])"

lemma length_blk [simp]:
  assumes "sector_store ops sec n"
  shows "length (blk sec d b) = 4096"
proof -
  have l: "length (sec d k) = 512" for k using assms by (simp add: sector_store_def)
  have "length (concat (map (sec d) [i..<i + m])) = 512 * m" for i m
    by (induction m) (simp_all add: l)
  then show ?thesis by (simp add: blk_def)
qed

lemma length_zero_block [simp]: "length zero_block = 4096"
  by (simp add: zero_block_def BLOCK_SIZE_def)

lemma unat_ucast_u64: "unat (ucast (b :: u32) :: u64) = unat b"
proof -
  have "unat (ucast b :: u64) = take_bit 64 (unat b)" by (simp add: unsigned_ucast_eq)
  also have "\<dots> = unat b" using unat_u32 [of b] by (intro take_bit_nat_eq_self) simp
  finally show ?thesis .
qed

lemma sector_arith: "unat ((ucast (b :: u32) :: u64) * 8) = 8 * unat b"
  using unat_u32 [of b] by (subst unat_mult_nowrap) (simp_all add: unat_ucast_u64)

lemma sector_read:
  "sector_store ops sec n \<Longrightarrow> unat p + unat c \<le> n \<Longrightarrow> 512 * unat c \<le> length buf \<Longrightarrow>
   read_sectors ops d p c buf = Inr (concat (map (sec d) [unat p..<unat p + unat c]) @ drop (512 * unat c) buf)"
  unfolding sector_store_def by blast

lemma sector_write:
  "sector_store ops sec n \<Longrightarrow> unat p + unat c \<le> n \<Longrightarrow> 512 * unat c \<le> length buf \<Longrightarrow>
   \<exists>d'. write_sectors ops d p c buf = (Inr (), d') \<and>
     (\<forall>k. sec d' k = (if unat p \<le> k \<and> k < unat p + unat c then slice buf (512 * (k - unat p)) 512 else sec d k))"
  unfolding sector_store_def by blast

lemma read_block_run:
  assumes dev: "sector_store ops sec n" and b: "8 * unat b + 8 \<le> n"
  shows "read_block ops b s = Some (Inr (blk sec (device s) (unat b)), s)"
proof -
  have "read_sectors ops (device s) (ucast b * 8) 8 zero_block = Inr (blk sec (device s) (unat b))"
    using sector_read [OF dev, of "ucast b * 8" 8 zero_block "device s"] b by (simp add: sector_arith blk_def)
  then show ?thesis by (simp add: read_block_def read_blocks_def zfs_consts)
qed

lemma concat_slices:
  "length buf = 512 * m \<Longrightarrow> concat (map (\<lambda>k. slice buf (512 * (k - i)) 512) [i..<i + m]) = buf"
proof (induction m arbitrary: buf)
  case (Suc m)
  have take: "length (take (512 * m) buf) = 512 * m" using Suc.prems by simp
  have "map (\<lambda>k. slice buf (512 * (k - i)) 512) [i..<i + m] = map (\<lambda>k. slice (take (512 * m) buf) (512 * (k - i)) 512) [i..<i + m]"
    by (rule map_cong) (auto simp: slice_def drop_take min_def)
  then have "concat (map (\<lambda>k. slice buf (512 * (k - i)) 512) [i..<i + m]) = take (512 * m) buf"
    using Suc.IH [OF take] by (simp only:)
  then show ?case using Suc.prems by (simp add: slice_def)
qed simp

lemma write_block_run:
  assumes dev: "sector_store ops sec n" and b: "8 * unat b + 8 \<le> n" and buf: "length buf = 4096"
  obtains d' where "write_block ops b buf s = Some (Inr (), s\<lparr>device := d'\<rparr>)"
    "blk sec d' = (blk sec (device s))(unat b := buf)"
proof -
  obtain d' where w: "write_sectors ops (device s) (ucast b * 8) 8 buf = (Inr (), d')"
    and sec: "\<And>k. sec d' k = (if 8 * unat b \<le> k \<and> k < 8 * unat b + 8 then slice buf (512 * (k - 8 * unat b)) 512
                             else sec (device s) k)"
    using sector_write [OF dev, of "ucast b * 8" 8 buf "device s"] b buf by (auto simp: sector_arith)
  have "write_block ops b buf s = Some (Inr (), s\<lparr>device := d'\<rparr>)"
    using w buf by (simp add: write_block_def write_blocks_def zfs_consts)
  moreover have "blk sec d' = (blk sec (device s))(unat b := buf)"
  proof
    fix k
    show "blk sec d' k = ((blk sec (device s))(unat b := buf)) k"
    proof (cases "k = unat b")
      case True
      have "map (sec d') [8 * k..<8 * k + 8] = map (\<lambda>j. slice buf (512 * (j - 8 * k)) 512) [8 * k..<8 * k + 8]"
        using True by (intro map_cong) (auto simp: sec)
      moreover have "length buf = 512 * 8" using buf by simp
      ultimately have "blk sec d' k = buf" unfolding blk_def using concat_slices [of buf 8 "8 * k"] by (simp only:)
      then show ?thesis using True by simp
    next
      case False
      then have "map (sec d') [8 * k..<8 * k + 8] = map (sec (device s)) [8 * k..<8 * k + 8]"
        by (intro map_cong) (auto simp: sec)
      then have "blk sec d' k = blk sec (device s) k" unfolding blk_def by (simp only:)
      then show ?thesis using False by simp
    qed
  qed
  ultimately show thesis by (rule that)
qed

section \<open>The bitmap\<close>

lemma bit_set_update:
  assumes "length bm = 4096" "k < 32768" "j < 32768"
  shows "bit_set (bm[k div 8 := w]) j = (if j div 8 = k div 8 then bit w (j mod 8) else bit_set bm j)"
  using assms by (auto simp: bit_set_def nth_list_update less_mult_imp_div_less)

lemma mod_8_eq: "j div 8 = k div 8 \<Longrightarrow> j mod 8 = k mod 8 \<longleftrightarrow> j = (k :: nat)"
  by (metis mult_div_mod_eq)

lemma set_bitmap_bit_run:
  assumes "length bm = 4096" "k < 32768"
  obtains bm' where "set_bitmap_bit bm k = Some bm'" "length bm' = 4096"
    "\<And>j. j < 32768 \<Longrightarrow> bit_set bm' j \<longleftrightarrow> j = k \<or> bit_set bm j"
proof
  let ?bm = "bm[k div 8 := bm ! (k div 8) OR push_bit (k mod 8) 1]"
  show "set_bitmap_bit bm k = Some ?bm" using assms by (simp add: set_bitmap_bit_def less_mult_imp_div_less)
  show "length ?bm = 4096" using assms by simp
  fix j :: nat assume "j < 32768"
  then show "bit_set ?bm j \<longleftrightarrow> j = k \<or> bit_set bm j"
    using assms mod_8_eq [of j k]
    by (subst bit_set_update) (auto simp: bit_or_iff bit_exp_iff bit_set_def)
qed

lemma clear_bitmap_bit_run:
  assumes "length bm = 4096" "k < 32768"
  obtains bm' where "clear_bitmap_bit bm k = Some bm'" "length bm' = 4096"
    "\<And>j. j < 32768 \<Longrightarrow> bit_set bm' j \<longleftrightarrow> j \<noteq> k \<and> bit_set bm j"
proof
  let ?bm = "bm[k div 8 := bm ! (k div 8) AND NOT (push_bit (k mod 8) 1)]"
  show "clear_bitmap_bit bm k = Some ?bm" using assms by (simp add: clear_bitmap_bit_def less_mult_imp_div_less)
  show "length ?bm = 4096" using assms by simp
  fix j :: nat assume "j < 32768"
  then show "bit_set ?bm j \<longleftrightarrow> j \<noteq> k \<and> bit_set bm j"
    using assms mod_8_eq [of j k]
    by (subst bit_set_update) (auto simp: bit_and_iff bit_not_iff bit_exp_iff bit_set_def)
qed

text \<open>The blocks the allocator hands out: from the first data block up to the end of the disk, as far
  as the bitmap of one block reaches.\<close>

definition data_block :: "superblock \<Rightarrow> nat \<Rightarrow> bool" where
  "data_block b k \<longleftrightarrow> unat (first_data_block b) \<le> k \<and> k < unat (total_blocks b) \<and> k < 32768"

definition disk_ok :: "nat \<Rightarrow> superblock \<Rightarrow> bool" where
  "disk_ok n b \<longleftrightarrow> first_data_block b = FIRST_DATA_BLOCK \<and> 5 \<le> unat (total_blocks b) \<and> 8 * unat (total_blocks b) \<le> n \<and>
     length (sb_reserved b) = 20"

definition same_disk :: "superblock \<Rightarrow> superblock \<Rightarrow> bool" where
  "same_disk b b' \<longleftrightarrow> first_data_block b' = first_data_block b \<and> total_blocks b' = total_blocks b \<and>
     sb_reserved b' = sb_reserved b"

lemma same_disk_simps [simp]:
  "same_disk b b" "same_disk b (b\<lparr>free_blocks := x\<rparr>)" "same_disk b (b\<lparr>free_inodes := y\<rparr>)"
  by (simp_all add: same_disk_def)

lemma same_disk_trans: "same_disk a b \<Longrightarrow> same_disk b c \<Longrightarrow> same_disk a c"
  by (simp add: same_disk_def)

lemma same_disk_keeps: "same_disk b b' \<Longrightarrow> disk_ok n b' = disk_ok n b \<and> data_block b' = data_block b"
  by (auto simp: same_disk_def disk_ok_def data_block_def fun_eq_iff)

lemma disk_ok_block: "disk_ok n b \<Longrightarrow> k < unat (total_blocks b) \<or> k < 5 \<Longrightarrow> 8 * k + 8 \<le> n"
  by (auto simp: disk_ok_def)

lemma data_block_ge: "disk_ok n b \<Longrightarrow> data_block b k \<Longrightarrow> 5 \<le> k"
  by (simp add: disk_ok_def data_block_def FIRST_DATA_BLOCK_def)

lemma alloc_data_block_run:
  assumes dev: "sector_store ops sec n" and ok: "disk_ok n (sb s)"
  defines "bm \<equiv> blk sec (device s) 2"
  obtains (full) "alloc_data_block ops s = Some (Inl (Other ''No free blocks''), s)"
      "\<forall>k. data_block (sb s) k \<longrightarrow> bit_set bm k"
  | (found) b s' bm' where "alloc_data_block ops s = Some (Inr b, s')" "data_block (sb s) (unat b)"
      "\<not> bit_set bm (unat b)" "same_disk (sb s) (sb s')"
      "blk sec (device s') = (blk sec (device s))(2 := bm', unat b := zero_block)"
      "\<forall>k < 32768. bit_set bm' k \<longleftrightarrow> k = unat b \<or> bit_set bm k"
proof -
  have r2: "read_block ops BITMAP_BLOCK s = Some (Inr bm, s)"
    using read_block_run [OF dev, of 2 s] ok by (simp add: bm_def zfs_consts disk_ok_def)
  have l: "length bm = 4096" unfolding bm_def by (rule length_blk [OF dev])
  show thesis
  proof (rule bitmap_find_clear_block [OF l, of "first_data_block (sb s)"])
    assume f: "bitmap_find_clear bm (first_data_block (sb s)) = Some None"
      and a: "\<forall>k. unat (first_data_block (sb s)) \<le> k \<and> k < 32768 \<longrightarrow> bit_set bm k"
    have "alloc_data_block ops s = Some (Inl (Other ''No free blocks''), s)"
      by (simp add: alloc_data_block_def r2 f)
    moreover have "\<forall>k. data_block (sb s) k \<longrightarrow> bit_set bm k" using a by (simp add: data_block_def)
    ultimately show thesis by (rule full)
  next
    fix b
    assume f: "bitmap_find_clear bm (first_data_block (sb s)) = Some (Some b)" "first_data_block (sb s) \<le> b"
      "unat b < 32768" "\<not> bit_set bm (unat b)" "\<forall>k. unat (first_data_block (sb s)) \<le> k \<and> k < unat b \<longrightarrow> bit_set bm k"
    show thesis
    proof (cases "b < total_blocks (sb s)")
      case False
      have "alloc_data_block ops s = Some (Inl (Other ''No free blocks''), s)"
        using False by (simp add: alloc_data_block_def r2 f(1))
      moreover have "\<forall>k. data_block (sb s) k \<longrightarrow> bit_set bm k"
        using f(5) False by (auto simp: data_block_def word_less_nat_alt)
      ultimately show thesis by (rule full)
    next
      case True
      have d: "data_block (sb s) (unat b)"
        using f True by (simp add: data_block_def word_less_nat_alt word_le_nat_alt)
      obtain bm' where bm': "set_bitmap_bit bm (unat b) = Some bm'" "length bm' = 4096"
        "\<And>j. j < 32768 \<Longrightarrow> bit_set bm' j \<longleftrightarrow> j = unat b \<or> bit_set bm j"
        using set_bitmap_bit_run [OF l f(3)] by blast
      have n2: "8 * unat (2 :: u32) + 8 \<le> n" and nb: "8 * unat b + 8 \<le> n"
        using ok d by (simp_all add: disk_ok_def data_block_def)
      obtain d1 where w1: "write_block ops 2 bm' s = Some (Inr (), s\<lparr>device := d1\<rparr>)"
        "blk sec d1 = (blk sec (device s))(2 := bm')"
        using write_block_run [OF dev n2 bm'(2), of s] by auto
      obtain d2 where w2: "write_block ops b zero_block (s\<lparr>device := d1\<rparr>) = Some (Inr (), s\<lparr>device := d2\<rparr>)"
        "blk sec d2 = (blk sec d1)(unat b := zero_block)"
        using write_block_run [OF dev nb length_zero_block, of "s\<lparr>device := d1\<rparr>"] by auto
      let ?s = "s\<lparr>device := d2, sb := (sb s)\<lparr>free_blocks := saturating_sub (free_blocks (sb s)) 1\<rparr>\<rparr>"
      have "alloc_data_block ops s = Some (Inr b, ?s)"
        using True r2 f(1) bm'(1) w1(1) w2(1) by (simp add: alloc_data_block_def BITMAP_BLOCK_def)
      then show thesis using d f(4) bm'(3) w1(2) w2(2) by (intro found [of b ?s bm']) simp_all
    qed
  qed
qed

lemma free_data_block_run:
  assumes dev: "sector_store ops sec n" and ok: "disk_ok n (sb s)" and b: "data_block (sb s) (unat b)"
  obtains s' bm' where "free_data_block ops b s = Some (Inr (), s')" "same_disk (sb s) (sb s')"
    "blk sec (device s') = (blk sec (device s))(2 := bm')"
    "\<forall>k < 32768. bit_set bm' k \<longleftrightarrow> k \<noteq> unat b \<and> bit_set (blk sec (device s) 2) k"
proof -
  let ?bm = "blk sec (device s) 2"
  have r2: "read_block ops BITMAP_BLOCK s = Some (Inr ?bm, s)"
    using read_block_run [OF dev, of 2 s] ok by (simp add: zfs_consts disk_ok_def)
  have l: "length ?bm = 4096" by (rule length_blk [OF dev])
  have range: "\<not> (b < first_data_block (sb s) \<or> total_blocks (sb s) \<le> b)" "unat b < 32768"
    using b by (auto simp: data_block_def word_less_nat_alt word_le_nat_alt)
  obtain bm' where bm': "clear_bitmap_bit ?bm (unat b) = Some bm'" "length bm' = 4096"
    "\<And>j. j < 32768 \<Longrightarrow> bit_set bm' j \<longleftrightarrow> j \<noteq> unat b \<and> bit_set ?bm j"
    using clear_bitmap_bit_run [OF l range(2)] by blast
  have n2: "8 * unat (2 :: u32) + 8 \<le> n" using ok by (simp add: disk_ok_def)
  obtain d1 where w1: "write_block ops 2 bm' s = Some (Inr (), s\<lparr>device := d1\<rparr>)"
    "blk sec d1 = (blk sec (device s))(2 := bm')"
    using write_block_run [OF dev n2 bm'(2), of s] by auto
  let ?s = "s\<lparr>device := d1, sb := (sb s)\<lparr>free_blocks := saturating_add (free_blocks (sb s)) 1\<rparr>\<rparr>"
  have "free_data_block ops b s = Some (Inr (), ?s)"
    using range(1) r2 bm'(1) w1(1) by (simp add: free_data_block_def BITMAP_BLOCK_def)
  then show thesis using bm'(3) w1(2) by (intro that [of ?s bm']) simp_all
qed

section \<open>The layout of an inode\<close>

lemma le_bytes_le_word:
  assumes "LENGTH('a::len) = 8 * length bs"
  shows "le_bytes (length bs) (le_word bs :: 'a word) = bs"
proof (rule nth_equalityI)
  fix k assume "k < length (le_bytes (length bs) (le_word bs :: 'a word))"
  then have k: "k < length bs" by simp
  show "le_bytes (length bs) (le_word bs :: 'a word) ! k = bs ! k"
  proof (rule bit_word_eqI)
    fix j assume "j < LENGTH(8)"
    moreover from this k have "8 * k + j < 8 * length bs" by simp
    ultimately show "bit (le_bytes (length bs) (le_word bs :: 'a word) ! k) j = bit (bs ! k) j"
      using k assms by (simp add: le_bytes_def bit_ucast_iff bit_drop_bit_eq bit_le_word)
  qed
qed simp

lemma slice_skip: "length xs \<le> off \<Longrightarrow> slice (xs @ ys) off n = slice ys (off - length xs) n"
  by (simp add: slice_def)

lemma slice_head: "length xs = n \<Longrightarrow> slice (xs @ ys) 0 n = xs"
  by (simp add: slice_def)

lemma slice_join: "b = a + m \<Longrightarrow> slice bs a m @ slice bs b k = slice bs a (m + k)"
  unfolding slice_def take_add by (simp add: add.commute)

lemma slice_all: "length bs = n \<Longrightarrow> slice bs 0 n = bs"
  by (simp add: slice_def)

lemma length_word_bytes [simp]: "length (concat (map (le_bytes 4) ws)) = 4 * length ws"
  by (induction ws) simp_all

lemma le_at_skip: "length xs \<le> off \<Longrightarrow> le_at (xs @ ys) off n = le_at ys (off - length xs) n"
  by (simp add: le_at_def slice_skip)

lemma le_at_head: "LENGTH('a::len) \<le> 8 * n \<Longrightarrow> le_at (le_bytes n w @ ys) 0 n = (w :: 'a word)"
  by (simp add: le_at_def slice_head le_word_le_bytes)

lemma words_at_skip: "length xs \<le> off \<Longrightarrow> words_at (xs @ ys) off n = words_at ys (off - length xs) n"
  by (simp add: words_at_def le_at_skip)

lemma words_at_head: "words_at (concat (map (le_bytes 4) ws) @ ys) 0 (length ws) = ws"
proof (induction ws)
  case (Cons w ws)
  have "words_at (concat (map (le_bytes 4) (w # ws)) @ ys) 0 (length (w # ws)) =
      w # map (\<lambda>k. le_at (le_bytes 4 w @ (concat (map (le_bytes 4) ws) @ ys)) (4 * Suc k) 4) [0..<length ws]"
    by (simp add: words_at_def upt_conv_Cons map_Suc_upt [symmetric] comp_def le_at_head del: upt_Suc)
  also have "\<dots> = w # words_at (concat (map (le_bytes 4) ws) @ ys) 0 (length ws)"
    by (simp add: words_at_def le_at_skip)
  finally show ?case using Cons.IH by (simp only:)
qed (simp add: words_at_def)

lemma le_bytes_le_at:
  "off + n \<le> length bs \<Longrightarrow> LENGTH('a::len) = 8 * n \<Longrightarrow> le_bytes n (le_at bs off n :: 'a word) = slice bs off n"
  using le_bytes_le_word [where 'a = 'a, of "slice bs off n"] by (simp add: le_at_def)

lemma word_bytes_words_at:
  "off + 4 * n \<le> length bs \<Longrightarrow> concat (map (le_bytes 4) (words_at bs off n)) = slice bs off (4 * n)"
proof (induction n)
  case (Suc n)
  then have "concat (map (le_bytes 4) (words_at bs off (Suc n))) = slice bs off (4 * n) @ slice bs (off + 4 * n) 4"
    by (simp add: words_at_def le_bytes_le_at)
  also have "\<dots> = slice bs off (4 * n + 4)" by (rule slice_join) simp
  finally show ?case by (simp add: add.commute)
qed (simp add: words_at_def slice_def)

definition inode_wf :: "inode \<Rightarrow> bool" where
  "inode_wf i \<longleftrightarrow> length (i_blocks i) = 10 \<and> length (i_block_checksums i) = 10 \<and> length (i_reserved i) = 12"

lemma length_inode_bytes: "inode_wf i \<Longrightarrow> length (inode_bytes i) = 136"
  by (simp add: inode_wf_def inode_bytes_def)

lemma inode_of_bytes: "inode_wf i \<Longrightarrow> inode_of (inode_bytes i) = i"
  using words_at_head [of "i_blocks i"] words_at_head [of "i_block_checksums i"]
  by (simp add: inode_wf_def inode_of_def inode_bytes_def le_at_skip le_at_head words_at_skip slice_skip slice_all)

lemma inode_bytes_of: "length bs = 136 \<Longrightarrow> inode_bytes (inode_of bs) = bs"
  by (simp add: inode_of_def inode_bytes_def le_bytes_le_at word_bytes_words_at slice_join slice_all)

lemma inode_wf_of: "length bs = 136 \<Longrightarrow> inode_wf (inode_of bs)"
  by (simp add: inode_wf_def inode_of_def words_at_def)

text \<open>The checksum covers everything but its own field.\<close>

lemma inode_bytes_checksum: "inode_bytes (i\<lparr>i_checksum := c\<rparr>) = le_bytes 4 c @ drop 4 (inode_bytes i)"
  by (simp add: inode_bytes_def)

lemma checksum_irrelevant: "calculate_inode_checksum (i\<lparr>i_checksum := c\<rparr>) = calculate_inode_checksum i"
  by (simp add: calculate_inode_checksum_def)

lemma calculate_of:
  "length bs = 136 \<Longrightarrow> calculate_inode_checksum (inode_of bs) = crc32 (replicate 4 0 @ drop 4 bs)"
proof -
  have "le_bytes 4 (0 :: u32) = replicate 4 0" by (simp add: le_bytes_def numeral_eq_Suc)
  then show "length bs = 136 \<Longrightarrow> ?thesis"
    by (simp add: calculate_inode_checksum_def inode_bytes_checksum inode_bytes_of)
qed

section \<open>The inode table\<close>

text \<open>The bytes of the slot of an inode.\<close>

definition inode_slot :: "('d \<Rightarrow> nat \<Rightarrow> bytes) \<Rightarrow> 'd \<Rightarrow> u32 \<Rightarrow> bytes" where
  "inode_slot sec d k = slice (blk sec d 3) (unat k * 136) 136"

lemma length_slot [simp]:
  assumes "sector_store ops sec n" "k < 30"
  shows "length (inode_slot sec d k) = 136"
  using assms by (simp add: inode_slot_def word_less_nat_alt)

lemma slot_bounds: "k < (30 :: u32) \<Longrightarrow> \<not> INODE_COUNT \<le> k \<and> unat k * 136 + 136 \<le> 4096"
proof -
  assume "k < 30"
  then have "unat k < 30" by (simp add: word_less_nat_alt)
  then show ?thesis by (simp add: INODE_COUNT_def word_le_nat_alt)
qed

lemma read_inode_run:
  assumes dev: "sector_store ops sec n" and ok: "disk_ok n (sb s)" and k: "k < 30"
  shows "read_inode ops k s =
    (let bs = inode_slot sec (device s) k
     in if i_checksum (inode_of bs) \<noteq> crc32 (replicate 4 0 @ drop 4 bs)
        then Some (Inl (Other ''Inode checksum mismatch''), s) else Some (Inr (inode_of bs), s))"
proof -
  have "read_block ops INODE_TABLE_BLOCK s = Some (Inr (blk sec (device s) 3), s)"
    using read_block_run [OF dev, of 3 s] ok by (simp add: INODE_TABLE_BLOCK_def disk_ok_def)
  then show ?thesis
    using slot_bounds [OF k] calculate_of [OF length_slot [OF dev k, of "device s"]]
    by (simp add: read_inode_def Let_def inode_slot_def BLOCK_SIZE_def INODE_SIZE_def)
qed

lemma read_inode_wf:
  assumes "sector_store ops sec n" "disk_ok n (sb s)" "k < 30" "read_inode ops k s = Some (Inr i, s')"
  shows "s' = s \<and> inode_wf i \<and> i_checksum i = calculate_inode_checksum i \<and> i = inode_of (inode_slot sec (device s) k)"
  using assms read_inode_run [OF assms(1-3)] calculate_of [OF length_slot [OF assms(1,3)], of "device s"]
    inode_wf_of [OF length_slot [OF assms(1,3)], of "device s"]
  by (auto simp: Let_def split: if_splits)

lemma read_inode_slot:
  assumes "sector_store ops sec n" "disk_ok n (sb s)" "disk_ok n (sb s')" "k < 30"
    "inode_slot sec (device s') k = inode_slot sec (device s) k" "read_inode ops k s = Some (Inr i, s)"
  shows "read_inode ops k s' = Some (Inr i, s')"
  using assms(5,6) read_inode_run [OF assms(1,2,4)] read_inode_run [OF assms(1,3,4)]
  by (auto simp: Let_def split: if_splits)

lemma write_inode_run:
  assumes dev: "sector_store ops sec n" and ok: "disk_ok n (sb s)" and k: "k < 30" and wf: "inode_wf i"
  obtains d' where "write_inode ops k i s = Some (Inr (), s\<lparr>device := d'\<rparr>)"
    "\<forall>b. b \<noteq> 3 \<longrightarrow> blk sec d' b = blk sec (device s) b"
    "inode_slot sec d' k = inode_bytes (i\<lparr>i_checksum := calculate_inode_checksum i\<rparr>)"
    "\<forall>j < 30. j \<noteq> k \<longrightarrow> inode_slot sec d' j = inode_slot sec (device s) j"
proof -
  let ?t = "blk sec (device s) 3" and ?i = "i\<lparr>i_checksum := calculate_inode_checksum i\<rparr>"
  let ?u = "put_bytes ?t (unat k * 136) (inode_bytes ?i)"
  have r: "read_block ops INODE_TABLE_BLOCK s = Some (Inr ?t, s)"
    using read_block_run [OF dev, of 3 s] ok by (simp add: INODE_TABLE_BLOCK_def disk_ok_def)
  have lt: "length ?t = 4096" by (rule length_blk [OF dev])
  have li: "length (inode_bytes ?i) = 136" using wf by (intro length_inode_bytes) (simp add: inode_wf_def)
  have fit: "unat k * 136 + length (inode_bytes ?i) \<le> length ?t" using slot_bounds [OF k] lt li by simp
  then have lu: "length ?u = 4096" using lt by simp
  have n3: "8 * unat (3 :: u32) + 8 \<le> n" using ok by (simp add: disk_ok_def)
  obtain d' where w: "write_block ops 3 ?u s = Some (Inr (), s\<lparr>device := d'\<rparr>)"
    "blk sec d' = (blk sec (device s))(3 := ?u)"
    using write_block_run [OF dev n3 lu, of s] by auto
  show thesis
  proof (rule that [of d'])
    show "write_inode ops k i s = Some (Inr (), s\<lparr>device := d'\<rparr>)"
      using slot_bounds [OF k] r w(1) by (simp add: write_inode_def BLOCK_SIZE_def INODE_SIZE_def INODE_TABLE_BLOCK_def)
    show "\<forall>b. b \<noteq> 3 \<longrightarrow> blk sec d' b = blk sec (device s) b" by (simp add: w(2))
    show "inode_slot sec d' k = inode_bytes ?i"
      using slice_put_same [OF fit] li by (simp add: inode_slot_def w(2))
    show "\<forall>j < 30. j \<noteq> k \<longrightarrow> inode_slot sec d' j = inode_slot sec (device s) j"
    proof (intro allI impI)
      fix j :: u32 assume j: "j < 30" "j \<noteq> k"
      then have "unat j \<noteq> unat k" using unsigned_word_eqI by blast
      then have "unat j * 136 + 136 \<le> unat k * 136 \<or> unat k * 136 + length (inode_bytes ?i) \<le> unat j * 136"
        unfolding li by linarith
      then show "inode_slot sec d' j = inode_slot sec (device s) j"
        using slot_bounds [OF j(1)] slice_put_disjoint [OF fit, of "unat j * 136" 136] lt by (simp add: inode_slot_def w(2))
    qed
  qed
qed

lemma read_written_inode:
  assumes dev: "sector_store ops sec n" and ok: "disk_ok n (sb s)" and k: "k < 30" and wf: "inode_wf i"
    and slot: "inode_slot sec (device s) k = inode_bytes (i\<lparr>i_checksum := calculate_inode_checksum i\<rparr>)"
  shows "read_inode ops k s = Some (Inr (i\<lparr>i_checksum := calculate_inode_checksum i\<rparr>), s)"
proof -
  let ?i = "i\<lparr>i_checksum := calculate_inode_checksum i\<rparr>"
  have i: "inode_of (inode_slot sec (device s) k) = ?i" using wf by (simp add: slot inode_of_bytes inode_wf_def)
  have "crc32 (replicate 4 0 @ drop 4 (inode_slot sec (device s) k)) = calculate_inode_checksum ?i"
    using calculate_of [OF length_slot [OF dev k, of "device s"]] i by simp
  then show ?thesis using read_inode_run [OF dev ok k] i by (simp add: Let_def checksum_irrelevant)
qed

text \<open>(C10) Damage to an inode is detected: if up to four consecutive bytes of the slot of a readable inode
  change, inside its checksum field or outside it, reading the inode answers a checksum mismatch.\<close>

theorem inode_damage_detected:
  assumes "sector_store ops sec n" "disk_ok n (sb s)" "disk_ok n (sb s')" "k < 30"
    and "read_inode ops k s = Some (Inr i, s)"
    and "inode_slot sec (device s) k = p @ x @ q" "inode_slot sec (device s') k = p @ y @ q"
    and "length x = length y" "length x \<le> 4" "x \<noteq> y" "4 \<le> length p \<or> length p + length x \<le> 4"
  shows "read_inode ops k s' = Some (Inl (Other ''Inode checksum mismatch''), s')"
proof -
  let ?a = "p @ x @ q" and ?b = "p @ y @ q"
  have la: "length ?a = 136" and lb: "length ?b = 136"
    using length_slot [OF assms(1,4)] assms(6,7) by metis+
  have ok: "i_checksum (inode_of ?a) = crc32 (replicate 4 0 @ drop 4 ?a)"
    using assms(5,6) read_inode_run [OF assms(1,2,4)] by (auto simp: Let_def split: if_splits)
  have c: "i_checksum (inode_of bs) = le_word (take 4 bs)" for bs
    by (simp add: inode_of_def le_at_def slice_def)
  have "i_checksum (inode_of ?b) \<noteq> crc32 (replicate 4 0 @ drop 4 ?b)"
  proof (cases "4 \<le> length p")
    case True
    then have "crc32 ((replicate 4 0 @ drop 4 p) @ x @ q) \<noteq> crc32 ((replicate 4 0 @ drop 4 p) @ y @ q)"
      using crc32_detects_burst assms(8-10) by blast
    with True ok show ?thesis by (simp add: c)
  next
    case False
    then have s4: "length p + length x \<le> 4" using assms(11) by simp
    have ne: "take 4 ?a \<noteq> take 4 ?b" using s4 assms(8,10) by (simp add: take_append)
    have l4: "length (take 4 ?a) = 4" "length (take 4 ?b) = 4" unfolding length_take la lb by simp_all
    have "le_word (take 4 ?a) \<noteq> (le_word (take 4 ?b) :: u32)"
      using le_word_inj4 [of "take 4 ?a" "take 4 ?b", unfolded l4] ne by blast
    moreover have "drop 4 ?a = drop 4 ?b" using s4 assms(8) by simp
    ultimately show ?thesis using ok by (simp only: c)
  qed
  then show ?thesis using read_inode_run [OF assms(1,3,4)] assms(7) by (simp add: Let_def)
qed

end
