(* ===== verification/Ziqa_Zfs_Props.thy ===== *)
theory Ziqa_Zfs_Props
  imports Ziqa_Zfs_File Ziqa_Zfs_Disk
begin

text \<open>
  Files in the ten direct blocks of an inode as arrays of bytes: what \<open>write_file\<close> does to the bytes
  of the file, to other files and to the inode table, and that \<open>read_file\<close> gives the bytes back.
\<close>

section \<open>A file as an array of bytes\<close>

text \<open>The blocks of a file are distinct data blocks marked in the bitmap; \<open>B\<close> is the content of the disk.\<close>

definition file_ok :: "(nat \<Rightarrow> bytes) \<Rightarrow> superblock \<Rightarrow> inode \<Rightarrow> bool" where
  "file_ok B b i \<longleftrightarrow> inode_wf i \<and>
     (\<forall>k < 10. i_blocks i ! k \<noteq> 0 \<longrightarrow> data_block b (unat (i_blocks i ! k)) \<and> bit_set (B 2) (unat (i_blocks i ! k))) \<and>
     (\<forall>j < 10. \<forall>k < 10. j \<noteq> k \<and> i_blocks i ! j \<noteq> 0 \<longrightarrow> i_blocks i ! j \<noteq> i_blocks i ! k)"

definition fbyte :: "(nat \<Rightarrow> bytes) \<Rightarrow> inode \<Rightarrow> nat \<Rightarrow> u8" where
  "fbyte B i q = (if i_blocks i ! (q div 4096) = 0 then 0 else B (unat (i_blocks i ! (q div 4096))) ! (q mod 4096))"

definition free_set :: "(nat \<Rightarrow> bytes) \<Rightarrow> superblock \<Rightarrow> nat set" where
  "free_set B b = {k. data_block b k \<and> \<not> bit_set (B 2) k}"

lemma finite_free_set [simp]: "finite (free_set B b)"
  by (rule finite_subset [of _ "{..<32768}"]) (auto simp: free_set_def data_block_def)

lemma unat_u64_small: "m < 2 ^ 64 \<Longrightarrow> unat (of_nat m :: u64) = m"
  by (rule unat_of_nat_small) simp

lemma offset_add:
  fixes offset :: u64
  assumes "unat offset + m < 40961"
  shows "unat (offset + of_nat m) = unat offset + m"
proof -
  have "unat (of_nat m :: u64) = m" using assms by (intro unat_u64_small) simp
  then show ?thesis using assms by (simp add: unat_add_nowrap)
qed

lemma logical_of_run:
  assumes "unat offset + m < 40960"
  shows "logical_of offset m < 10" "unat (logical_of offset m) = (unat offset + m) div 4096"
proof -
  let ?w = "offset + of_nat m"
  have u: "unat ?w = unat offset + m" using assms by (intro offset_add) simp
  have "unat (ucast ?w :: u32) = take_bit 32 (unat ?w)" by (simp add: unsigned_ucast_eq)
  also have "\<dots> = unat offset + m" unfolding u using assms by (intro take_bit_nat_eq_self) simp
  finally have "unat (ucast ?w :: u32) = unat offset + m" .
  then show l: "unat (logical_of offset m) = (unat offset + m) div 4096"
    by (simp add: logical_of_def BLOCK_SIZE_def unat_div)
  have "unat (logical_of offset m) < 10" unfolding l using assms by (simp add: less_mult_imp_div_less)
  then show "logical_of offset m < 10" by (simp add: word_less_nat_alt)
qed

lemma chunk_of_run:
  assumes "unat offset + m < 40961" "m < len"
  shows "chunk_of offset len m = min (4096 - (unat offset + m) mod 4096) (len - m)"
  using offset_add [OF assms(1)] by (simp add: chunk_of_def BLOCK_SIZE_def)

section \<open>Writing one block\<close>

definition with_block :: "inode \<Rightarrow> nat \<Rightarrow> u32 \<Rightarrow> inode" where
  "with_block i l b = i\<lparr>i_blocks := (i_blocks i)[l := b], i_block_checksums := (i_block_checksums i)[l := 0]\<rparr>"

lemma write_chunk_run:
  assumes dev: "sector_store ops sec n" and ok: "disk_ok n (sb s)" and fo: "file_ok (blk sec (device s)) (sb s) i"
    and lt: "m < length buf" and fits: "unat offset + length buf \<le> 40960"
    and free: "free_set (blk sec (device s)) (sb s) \<noteq> {}"
  defines "l \<equiv> (unat offset + m) div 4096" and "bo \<equiv> (unat offset + m) mod 4096"
    and "c \<equiv> chunk_of offset (length buf) m"
  defines "old \<equiv> unat (i_blocks i ! l)"
  obtains b s' bm' base where
    "write_chunk ops offset buf i m s = Some (Inr (with_block i l b), s')"
    "same_disk (sb s) (sb s')" "unat b \<in> free_set (blk sec (device s)) (sb s)"
    "blk sec (device s') = (blk sec (device s))(2 := bm', unat b := put_bytes base bo (slice buf m c))"
    "\<forall>k < 32768. bit_set bm' k \<longleftrightarrow> (k = unat b \<or> bit_set (blk sec (device s) 2) k) \<and> (old \<noteq> 0 \<longrightarrow> k \<noteq> old)"
    "length base = 4096" "c < 4096 \<and> old \<noteq> 0 \<longrightarrow> base = blk sec (device s) old"
    "old = 0 \<longrightarrow> base = zero_block"
proof -
  let ?B = "blk sec (device s)"
  have small: "unat offset + m < 40960" using lt fits by simp
  note log = logical_of_run [OF small]
  have l10: "l < 10" using log by (simp add: l_def word_less_nat_alt)
  have bo: "unat (offset + of_nat m) mod BLOCK_SIZE = bo"
    using offset_add [of offset m] small by (simp add: bo_def BLOCK_SIZE_def)
  have get: "inode_get_block ops i (logical_of offset m) s = Some (Inr (i_blocks i ! l, i_block_checksums i ! l), s)"
    using log by (simp add: inode_get_block_def l_def)
  let ?rd = "old \<noteq> 0 \<and> (bo > 0 \<or> m + 4096 > length buf)"
  define base where "base = (if ?rd then ?B old else zero_block)"
  have olddata: "data_block (sb s) old" "bit_set (?B 2) old" if "old \<noteq> 0"
    using fo l10 that by (auto simp: file_ok_def old_def unat_eq_0)
  have zero: "i_blocks i ! l = 0 \<longleftrightarrow> old = 0" by (simp add: old_def unat_eq_0)
  have rd: "(if i_blocks i ! l \<noteq> 0 \<and> (bo > 0 \<or> m + BLOCK_SIZE > length buf) then read_block ops (i_blocks i ! l)
             else fret zero_block) s = Some (Inr base, s)"
    using read_block_run [OF dev, of "i_blocks i ! l" s] olddata ok
    by (auto simp: base_def zero BLOCK_SIZE_def old_def data_block_def disk_ok_def)
  have lbase: "length base = 4096" using length_blk [OF dev] by (simp add: base_def)
  have cb: "c \<le> 4096 - bo" "c \<le> length buf - m"
    using chunk_of_run [of offset m "length buf"] small lt by (simp_all add: c_def bo_def)
  have bo4: "bo < 4096" by (simp add: bo_def)
  let ?data = "put_bytes base bo (slice buf m c)"
  have ldata: "length ?data = 4096" using lbase cb bo4 lt by (subst length_put_bytes) auto
  show thesis
  proof (rule alloc_data_block_run [OF dev ok])
    assume "\<forall>k. data_block (sb s) k \<longrightarrow> bit_set (?B 2) k"
    then show thesis using free by (auto simp: free_set_def)
  next
    fix b s1 bm1
    assume a: "alloc_data_block ops s = Some (Inr b, s1)" "data_block (sb s) (unat b)"
      "\<not> bit_set (?B 2) (unat b)" "same_disk (sb s) (sb s1)"
      "blk sec (device s1) = ?B(2 := bm1, unat b := zero_block)"
      "\<forall>k < 32768. bit_set bm1 k \<longleftrightarrow> k = unat b \<or> bit_set (?B 2) k"
    have b5: "5 \<le> unat b" using data_block_ge [OF ok a(2)] .
    have nb: "8 * unat b + 8 \<le> n" using ok a(2) by (simp add: disk_ok_def data_block_def)
    obtain d2 where w: "write_block ops b ?data s1 = Some (Inr (), s1\<lparr>device := d2\<rparr>)"
      "blk sec d2 = (blk sec (device s1))(unat b := ?data)"
      using write_block_run [OF dev nb ldata, of s1] by auto
    let ?s2 = "s1\<lparr>device := d2\<rparr>"
    let ?i = "with_block i l b"
    have set: "inode_set_block ops i (logical_of offset m) b 0 ?s2 = Some (Inr ?i, ?s2)"
      using log by (simp add: inode_set_block_def l_def with_block_def)
    have B2: "blk sec (device ?s2) = ?B(2 := bm1, unat b := ?data)" using w(2) a(5) by simp
    have ok2: "disk_ok n (sb ?s2)" and db2: "data_block (sb ?s2) = data_block (sb s)"
      using same_disk_keeps [OF a(4)] ok by simp_all
    have ne: "old \<noteq> unat b" if "old \<noteq> 0" using olddata(2) [OF that] a(3) by auto
    have run: "write_chunk ops offset buf i m s =
        fbind (if i_blocks i ! l \<noteq> 0 \<and> i_blocks i ! l \<noteq> b then free_data_block ops (i_blocks i ! l) else fret ())
          (\<lambda>_. fret ?i) ?s2"
      using get rd a(1) w(1) set by (simp add: write_chunk_def Let_def bo c_def)
    have base_old: "c < 4096 \<Longrightarrow> old \<noteq> 0 \<Longrightarrow> base = ?B old"
      using chunk_of_run [of offset m "length buf"] small lt by (auto simp: base_def c_def bo_def)
    show thesis
    proof (cases "old = 0")
      case True
      then have "write_chunk ops offset buf i m s = Some (Inr ?i, ?s2)" using run zero by simp
      then show thesis
        using True a B2 base_old lbase
        by (intro that [of b ?s2 bm1 base]) (auto simp: free_set_def base_def)
    next
      case False
      then have nz: "i_blocks i ! l \<noteq> 0 \<and> i_blocks i ! l \<noteq> b" using ne zero by (auto simp: old_def)
      obtain s3 bm3 where f: "free_data_block ops (i_blocks i ! l) ?s2 = Some (Inr (), s3)" "same_disk (sb ?s2) (sb s3)"
        "blk sec (device s3) = (blk sec (device ?s2))(2 := bm3)"
        "\<forall>k < 32768. bit_set bm3 k \<longleftrightarrow> k \<noteq> old \<and> bit_set (blk sec (device ?s2) 2) k"
        using free_data_block_run [OF dev ok2, of "i_blocks i ! l"] olddata(1) [OF False] db2 by (auto simp: old_def)
      have "write_chunk ops offset buf i m s = Some (Inr ?i, s3)" using run nz f(1) by simp
      moreover have "same_disk (sb s) (sb s3)" using same_disk_trans [OF a(4)] f(2) by simp
      moreover have "blk sec (device s3) = ?B(2 := bm3, unat b := ?data)"
        using f(3) B2 b5 by (auto simp: fun_eq_iff)
      moreover have "\<forall>k < 32768. bit_set bm3 k \<longleftrightarrow> (k = unat b \<or> bit_set (?B 2) k) \<and> k \<noteq> old"
        using f(4) B2 a(6) b5 by auto
      ultimately show thesis
        using False a(2,3) base_old lbase by (intro that [of b s3 bm3 base]) (auto simp: free_set_def)
    qed
  qed
qed

text \<open>Block \<open>l\<close> of a file is replaced by the free block \<open>b\<close>: \<open>bm\<close> is the bitmap afterwards.\<close>

definition replaces :: "(nat \<Rightarrow> bytes) \<Rightarrow> superblock \<Rightarrow> inode \<Rightarrow> nat \<Rightarrow> u32 \<Rightarrow> bytes \<Rightarrow> bool" where
  "replaces B sp i l b bm \<longleftrightarrow> file_ok B sp i \<and> first_data_block sp = FIRST_DATA_BLOCK \<and> l < 10 \<and> unat b \<in> free_set B sp \<and>
     (\<forall>k < 32768. bit_set bm k \<longleftrightarrow>
       (k = unat b \<or> bit_set (B 2) k) \<and> (unat (i_blocks i ! l) \<noteq> 0 \<longrightarrow> k \<noteq> unat (i_blocks i ! l)))"

lemma own_block:
  "file_ok B sp i \<Longrightarrow> k < 10 \<Longrightarrow> i_blocks i ! k \<noteq> 0 \<Longrightarrow>
   data_block sp (unat (i_blocks i ! k)) \<and> bit_set (B 2) (unat (i_blocks i ! k))"
  by (simp add: file_ok_def)

lemma own_distinct:
  "file_ok B sp i \<Longrightarrow> j < 10 \<Longrightarrow> k < 10 \<Longrightarrow> j \<noteq> k \<Longrightarrow> i_blocks i ! j \<noteq> 0 \<Longrightarrow> i_blocks i ! j \<noteq> i_blocks i ! k"
  by (simp add: file_ok_def)

lemma data_block_5: "first_data_block sp = FIRST_DATA_BLOCK \<Longrightarrow> data_block sp k \<Longrightarrow> 5 \<le> k \<and> k < 32768"
  by (simp add: data_block_def FIRST_DATA_BLOCK_def)

lemma replaces_fresh:
  assumes "replaces B sp i l b bm"
  shows "length (i_blocks i) = 10" "b \<noteq> 0" "5 \<le> unat b" "unat b < 32768" "data_block sp (unat b)"
    "\<not> bit_set (B 2) (unat b)" "k < 10 \<Longrightarrow> i_blocks i ! k \<noteq> b"
proof -
  show "length (i_blocks i) = 10" using assms by (simp add: replaces_def file_ok_def inode_wf_def)
  have r: "data_block sp (unat b)" "\<not> bit_set (B 2) (unat b)" using assms by (simp_all add: replaces_def free_set_def)
  then show "5 \<le> unat b" "unat b < 32768" "data_block sp (unat b)" "\<not> bit_set (B 2) (unat b)" and b0: "b \<noteq> 0"
    using data_block_5 [of sp "unat b"] assms by (auto simp: replaces_def)
  show "i_blocks i ! k \<noteq> b" if "k < 10"
    using own_block [of B sp i k] assms r b0 that by (auto simp: replaces_def)
qed

lemma with_block_nth:
  assumes "replaces B sp i l b bm" "k < 10"
  shows "i_blocks (with_block i l b) ! k = (if k = l then b else i_blocks i ! k)"
  using assms replaces_fresh(1) [OF assms(1)] by (simp add: with_block_def nth_list_update)

lemma replaces_file_ok:
  assumes r: "replaces B sp i l b bm"
  shows "file_ok (B(2 := bm, unat b := x)) sp (with_block i l b)"
proof -
  note f = replaces_fresh [OF r]
  have ok: "file_ok B sp i" and l: "l < 10"
    and bits: "\<And>k. k < 32768 \<Longrightarrow> bit_set bm k \<longleftrightarrow>
      (k = unat b \<or> bit_set (B 2) k) \<and> (unat (i_blocks i ! l) \<noteq> 0 \<longrightarrow> k \<noteq> unat (i_blocks i ! l))"
    and fd: "first_data_block sp = FIRST_DATA_BLOCK"
    using r by (auto simp: replaces_def)
  note nth = with_block_nth [OF r]
  have B2: "(B(2 := bm, unat b := x)) 2 = bm" using f(3) by simp
  have "bit_set bm (unat b)" using bits [OF f(4)] f(7) [OF l] unsigned_word_eqI by auto
  moreover have "bit_set bm (unat (i_blocks i ! k))" if "k < 10" "k \<noteq> l" "i_blocks i ! k \<noteq> 0" for k
    using own_block [OF ok that(1,3)] own_distinct [OF ok that(1) l that(2,3)] bits data_block_5 [OF fd] unsigned_word_eqI
    by blast
  moreover have "inode_wf (with_block i l b)" using ok by (simp add: file_ok_def inode_wf_def with_block_def)
  ultimately show ?thesis
    unfolding file_ok_def B2 using f own_block [OF ok] own_distinct [OF ok] by (auto simp: nth)
qed

lemma replaces_fbyte:
  assumes r: "replaces B sp i l b bm" and q: "q < 40960"
  shows "fbyte (B(2 := bm, unat b := x)) (with_block i l b) q = (if q div 4096 = l then x ! (q mod 4096) else fbyte B i q)"
proof -
  note f = replaces_fresh [OF r]
  have k: "q div 4096 < 10" using q by (simp add: less_mult_imp_div_less)
  let ?b = "i_blocks i ! (q div 4096)"
  have "unat ?b \<noteq> 2 \<and> unat ?b \<noteq> unat b" if "?b \<noteq> 0"
    using own_block [OF _ k that, of B sp] data_block_5 [of sp "unat ?b"] f(6) r by (auto simp: replaces_def)
  then show ?thesis using k f(1,2) by (auto simp: fbyte_def with_block_def)
qed

text \<open>Blocks of other owners.\<close>

definition foreign :: "(nat \<Rightarrow> bytes) \<Rightarrow> inode \<Rightarrow> nat \<Rightarrow> bool" where
  "foreign B i k \<longleftrightarrow> 5 \<le> k \<and> k < 32768 \<and> bit_set (B 2) k \<and> (\<forall>j < 10. unat (i_blocks i ! j) \<noteq> k)"

lemma replaces_foreign:
  assumes r: "replaces B sp i l b bm" and k: "foreign B i k"
  shows "foreign (B(2 := bm, unat b := x)) (with_block i l b) k" "(B(2 := bm, unat b := x)) k = B k"
proof -
  note f = replaces_fresh [OF r]
  have kb: "k \<noteq> unat b" using k f(6) by (auto simp: foreign_def)
  have "bit_set bm k" using r k by (auto simp: replaces_def foreign_def)
  then show "foreign (B(2 := bm, unat b := x)) (with_block i l b) k"
    using k kb f(3) by (auto simp: foreign_def with_block_nth [OF r])
  show "(B(2 := bm, unat b := x)) k = B k" using k kb by (simp add: foreign_def)
qed

lemma replaces_free:
  assumes r: "replaces B sp i l b bm"
  shows "card (free_set B sp) \<le> Suc (card (free_set (B(2 := bm, unat b := x)) sp))"
proof -
  have "k \<in> free_set (B(2 := bm, unat b := x)) sp" if "k \<in> free_set B sp" "k \<noteq> unat b" for k
  proof -
    have k: "data_block sp k" "\<not> bit_set (B 2) k" "k < 32768"
      using that(1) by (simp_all add: free_set_def data_block_def)
    then have "\<not> bit_set bm k" using r that(2) unfolding replaces_def by blast
    then show ?thesis using k(1) replaces_fresh(3) [OF r] by (simp add: free_set_def)
  qed
  then have "free_set B sp - {unat b} \<subseteq> free_set (B(2 := bm, unat b := x)) sp" by blast
  then have "card (free_set B sp - {unat b}) \<le> card (free_set (B(2 := bm, unat b := x)) sp)" by (intro card_mono) simp_all
  moreover have "Suc (card (free_set B sp - {unat b})) = card (free_set B sp)"
    using r by (intro card_Suc_Diff1) (simp_all add: replaces_def)
  ultimately show ?thesis by linarith
qed

section \<open>The loop over the blocks\<close>

text \<open>The state \<open>B\<close>, \<open>i\<close> after the first \<open>m\<close> bytes of \<open>buf\<close> were written at offset \<open>p\<close>.\<close>

definition wrote :: "(nat \<Rightarrow> bytes) \<Rightarrow> inode \<Rightarrow> nat \<Rightarrow> bytes \<Rightarrow> nat \<Rightarrow> (nat \<Rightarrow> bytes) \<Rightarrow> inode \<Rightarrow> bool" where
  "wrote B0 i0 p buf m B i \<longleftrightarrow>
     i = i0\<lparr>i_blocks := i_blocks i, i_block_checksums := i_block_checksums i\<rparr> \<and>
     (\<forall>k < 5. k \<noteq> 2 \<longrightarrow> B k = B0 k) \<and>
     (\<forall>k. foreign B0 i0 k \<longrightarrow> foreign B i k \<and> B k = B0 k) \<and>
     (\<forall>q < 40960. fbyte B i q = (if p \<le> q \<and> q < p + m then buf ! (q - p) else fbyte B0 i0 q)) \<and>
     (\<forall>q < 40960. p \<le> q \<and> q < p + m \<longrightarrow> i_blocks i ! (q div 4096) \<noteq> 0)"

lemma wrote_0: "wrote B i p buf 0 B i"
  by (auto simp: wrote_def)

text \<open>The bytes of one block before and after the copy into it.\<close>

lemma copied_byte:
  assumes x: "x = put_bytes base bo (slice buf m c)" and base: "length base = 4096"
    and at: "p + m = 4096 * l + bo" "bo < 4096" and c: "c = min (4096 - bo) (length buf - m)" "m < length buf"
    and q: "q div 4096 = l"
  shows "x ! (q mod 4096) = (if p + m \<le> q \<and> q < p + m + c then buf ! (q - p) else base ! (q mod 4096))"
proof -
  have q': "q = 4096 * l + q mod 4096" using q by (metis mult_div_mod_eq)
  have r: "p + m \<le> q \<longleftrightarrow> bo \<le> q mod 4096" "q < p + m + c \<longleftrightarrow> q mod 4096 < bo + c"
    unfolding at(1) by (subst q', simp)+
  have fit: "bo + length (slice buf m c) \<le> length base" "length (slice buf m c) = c" using base c at by auto
  have "x ! (q mod 4096) = (if bo \<le> q mod 4096 \<and> q mod 4096 < bo + c then slice buf m c ! (q mod 4096 - bo)
      else base ! (q mod 4096))"
    using nth_put_bytes [OF fit(1), of "q mod 4096"] fit(2) base by (simp add: x)
  moreover have "slice buf m c ! (q mod 4096 - bo) = buf ! (q - p)" if "bo \<le> q mod 4096" "q mod 4096 < bo + c"
  proof -
    have "m + (q mod 4096 - bo) = q - p" using at(1) q' that(1) by linarith
    moreover have "m + c \<le> length buf" "q mod 4096 - bo < c" using c that by linarith+
    ultimately show ?thesis using nth_slice [of m c buf "q mod 4096 - bo"] by simp
  qed
  ultimately show ?thesis unfolding r by simp
qed

lemma wrote_step:
  assumes w: "wrote B0 i0 p buf m B i" and r: "replaces B sp i l b bm"
    and x: "x = put_bytes base bo (slice buf m c)" and base: "length base = 4096"
    and at: "p + m = 4096 * l + bo" "bo < 4096" and c: "c = min (4096 - bo) (length buf - m)" "m < length buf"
    and old: "c < 4096 \<Longrightarrow> i_blocks i ! l \<noteq> 0 \<Longrightarrow> base = B (unat (i_blocks i ! l))"
    and new: "i_blocks i ! l = 0 \<Longrightarrow> base = zero_block"
  shows "wrote B0 i0 p buf (m + c) (B(2 := bm, unat b := x)) (with_block i l b)"
proof -
  let ?B = "B(2 := bm, unat b := x)" and ?i = "with_block i l b"
  note f = replaces_fresh [OF r]
  have other: "q div 4096 = l \<and> p + m \<le> q \<and> q < p + m + c \<longleftrightarrow> p + m \<le> q \<and> q < p + m + c" for q
  proof -
    have "p + m + c \<le> 4096 * l + 4096" using at c by auto
    then have "p + m \<le> q \<and> q < p + m + c \<Longrightarrow> 4096 * l \<le> q \<and> q < 4096 * Suc l" using at by simp
    then show ?thesis by (metis div_nat_eqI mult.commute)
  qed
  have base_byte: "base ! (q mod 4096) = fbyte B i q" if q: "q div 4096 = l" "\<not> (p + m \<le> q \<and> q < p + m + c)" for q
  proof (cases "i_blocks i ! l = 0")
    case True
    then show ?thesis using new q(1) by (simp add: fbyte_def zero_block_def BLOCK_SIZE_def)
  next
    case False
    have "4096 * l \<le> q" "q < 4096 * l + 4096" using q(1) by auto
    then have "c < 4096" using q(2) at c by auto
    then show ?thesis using old False q(1) by (simp add: fbyte_def)
  qed
  have bytes: "fbyte ?B ?i q = (if p \<le> q \<and> q < p + (m + c) then buf ! (q - p) else fbyte B0 i0 q)" if q: "q < 40960" for q
  proof -
    have "fbyte ?B ?i q = (if p + m \<le> q \<and> q < p + m + c then buf ! (q - p) else fbyte B i q)"
      using replaces_fbyte [OF r q, of x] copied_byte [OF x base at c, of q] base_byte [of q] other [of q] by auto
    moreover have "fbyte B i q = (if p \<le> q \<and> q < p + m then buf ! (q - p) else fbyte B0 i0 q)"
      using w q by (simp add: wrote_def)
    ultimately show ?thesis by auto
  qed
  have mapped: "i_blocks ?i ! (q div 4096) \<noteq> 0" if q: "p \<le> q" "q < p + (m + c)" "q < 40960" for q
  proof -
    have "q div 4096 < 10" using q(3) by (simp add: less_mult_imp_div_less)
    then show ?thesis using w q other [of q] f(2) by (auto simp: with_block_nth [OF r] wrote_def)
  qed
  have wd: "i = i0\<lparr>i_blocks := i_blocks i, i_block_checksums := i_block_checksums i\<rparr>"
    "\<forall>k < 5. k \<noteq> 2 \<longrightarrow> B k = B0 k" "\<forall>k. foreign B0 i0 k \<longrightarrow> foreign B i k \<and> B k = B0 k"
    using w unfolding wrote_def by blast+
  then obtain bl cks where "i = i0\<lparr>i_blocks := bl, i_block_checksums := cks\<rparr>" by blast
  then have "?i = i0\<lparr>i_blocks := i_blocks ?i, i_block_checksums := i_block_checksums ?i\<rparr>" by (simp add: with_block_def)
  moreover have "\<forall>k < 5. k \<noteq> 2 \<longrightarrow> ?B k = B0 k" using wd(2) f(3) by simp
  moreover have "\<forall>k. foreign B0 i0 k \<longrightarrow> foreign ?B ?i k \<and> ?B k = B0 k"
    using wd(3) replaces_foreign [OF r, of _ x] by metis
  ultimately show ?thesis using bytes mapped unfolding wrote_def by blast
qed

lemma write_loop_run:
  assumes dev: "sector_store ops sec n" and fits: "unat offset + length buf \<le> 40960"
    and ok: "disk_ok n (sb s)" and fo: "file_ok (blk sec (device s)) (sb s) i" and m: "m \<le> length buf"
    and w: "wrote B0 i0 (unat offset) buf m (blk sec (device s)) i"
    and free: "m < length buf \<Longrightarrow> 10 \<le> card (free_set (blk sec (device s)) (sb s)) + (unat offset + m) div 4096"
  obtains i' s' where "write_loop ops offset buf i m s = Some (Inr i', s')" "same_disk (sb s) (sb s')"
    "file_ok (blk sec (device s')) (sb s') i'" "wrote B0 i0 (unat offset) buf (length buf) (blk sec (device s')) i'"
  using ok fo m w free
proof (induction "length buf - m" arbitrary: m s i thesis rule: less_induct)
  case less
  let ?B = "blk sec (device s)"
  show thesis
  proof (cases "m < length buf")
    case False
    then have "write_loop ops offset buf i m s = Some (Inr i, s)" by (subst write_loop.simps) simp
    then show thesis using less.prems False by (intro less.prems(1) [of i s]) auto
  next
    case True
    define l where "l = (unat offset + m) div 4096"
    define bo where "bo = (unat offset + m) mod 4096"
    define c where "c = chunk_of offset (length buf) m"
    have l10: "l < 10" using True fits by (simp add: l_def less_mult_imp_div_less)
    have c: "c = min (4096 - bo) (length buf - m)"
      using chunk_of_run [of offset m "length buf"] True fits by (simp add: c_def bo_def)
    have at: "unat offset + m = 4096 * l + bo" "bo < 4096" by (simp_all add: l_def bo_def)
    have "0 < card (free_set ?B (sb s))" using less.prems(6) [OF True] l10 unfolding l_def by linarith
    then have "free_set ?B (sb s) \<noteq> {}" by auto
    note step = write_chunk_run [OF dev less.prems(2,3) True fits this, folded l_def bo_def c_def]
    obtain b s1 bm base where
      run: "write_chunk ops offset buf i m s = Some (Inr (with_block i l b), s1)" and
      sd: "same_disk (sb s) (sb s1)" and b: "unat b \<in> free_set ?B (sb s)" and
      B1: "blk sec (device s1) = ?B(2 := bm, unat b := put_bytes base bo (slice buf m c))" and
      bits: "\<forall>k < 32768. bit_set bm k \<longleftrightarrow> (k = unat b \<or> bit_set (?B 2) k) \<and>
               (unat (i_blocks i ! l) \<noteq> 0 \<longrightarrow> k \<noteq> unat (i_blocks i ! l))" and
      base: "length base = 4096" "c < 4096 \<and> unat (i_blocks i ! l) \<noteq> 0 \<longrightarrow> base = ?B (unat (i_blocks i ! l))"
        "unat (i_blocks i ! l) = 0 \<longrightarrow> base = zero_block"
      by (rule step)
    have r: "replaces ?B (sb s) i l b bm"
      using less.prems(2,3) l10 b bits by (simp add: replaces_def disk_ok_def)
    let ?B1 = "?B(2 := bm, unat b := put_bytes base bo (slice buf m c))"
    have w1: "wrote B0 i0 (unat offset) buf (m + c) ?B1 (with_block i l b)"
      using base by (intro wrote_step [OF less.prems(5) r refl base(1) at c True]) (simp_all add: unat_eq_0)
    have keeps: "disk_ok n (sb s1)" "data_block (sb s1) = data_block (sb s)" "free_set ?B1 (sb s1) = free_set ?B1 (sb s)"
      using same_disk_keeps [OF sd] less.prems(2) by (simp_all add: free_set_def)
    have fo1: "file_ok (blk sec (device s1)) (sb s1) (with_block i l b)"
      using replaces_file_ok [OF r] B1 keeps(2) by (simp add: file_ok_def)
    have pos: "0 < c" using chunk_of_pos [OF True] by (simp add: c_def)
    have free1: "10 \<le> card (free_set (blk sec (device s1)) (sb s1)) + (unat offset + (m + c)) div 4096"
      if "m + c < length buf"
    proof -
      have "unat offset + (m + c) = 4096 * Suc l" using at c that by auto
      then have "(unat offset + (m + c)) div 4096 = Suc l" by simp
      then show ?thesis
        using less.prems(6) [OF True] replaces_free [OF r, of "put_bytes base bo (slice buf m c)"] B1 keeps(3) by (simp add: l_def)
    qed
    have mc: "m + c \<le> length buf" using c True by simp
    have dec: "length buf - (m + c) < length buf - m" using pos True by simp
    obtain i' s' where ih: "write_loop ops offset buf (with_block i l b) (m + c) s1 = Some (Inr i', s')"
      "same_disk (sb s1) (sb s')" "file_ok (blk sec (device s')) (sb s') i'"
      "wrote B0 i0 (unat offset) buf (length buf) (blk sec (device s')) i'"
      by (rule less.hyps [OF dec _ keeps(1) fo1 mc w1 [folded B1] free1])
    have "write_loop ops offset buf i m s = Some (Inr i', s')"
      using ih(1) run True by (subst write_loop.simps) (simp add: c_def)
    then show thesis using less.prems(1) ih(2-4) same_disk_trans [OF sd] by blast
  qed
qed

section \<open>Reading\<close>

lemma slice_block_bytes:
  assumes "p + m = 4096 * l + bo" "bo + c \<le> 4096" "length blkc = 4096" "\<And>r. r < 4096 \<Longrightarrow> blkc ! r = f (4096 * l + r)"
  shows "slice blkc bo c = map f [p + m..<p + (m + c)]"
proof (rule nth_equalityI)
  fix r assume "r < length (slice blkc bo c)"
  then have r: "r < c" using assms(2,3) by simp
  have "slice blkc bo c ! r = f (4096 * l + (bo + r))" using assms(2-4) r by (simp add: nth_slice)
  also have "4096 * l + (bo + r) = p + m + r" using assms(1) by simp
  finally show "slice blkc bo c ! r = map f [p + m..<p + (m + c)] ! r" using r by simp
qed (use assms in simp)

lemma read_loop_run:
  assumes dev: "sector_store ops sec n" and ok: "disk_ok n (sb s)" and fo: "file_ok (blk sec (device s)) (sb s) i"
    and fits: "unat offset + len \<le> 40960" and len: "len \<le> length buf" "m \<le> len"
    and mapped: "\<forall>q < 40960. unat offset \<le> q \<and> q < unat offset + len \<longrightarrow> i_blocks i ! (q div 4096) \<noteq> 0"
  shows "read_loop ops i offset len m buf s =
    Some (Inr (len, take m buf @ map (fbyte (blk sec (device s)) i) [unat offset + m..<unat offset + len] @ drop len buf), s)"
  using len
proof (induction "len - m" arbitrary: m buf rule: less_induct)
  case less
  let ?B = "blk sec (device s)"
  show ?case
  proof (cases "m < len")
    case False
    then show ?thesis using less.prems by (subst read_loop.simps) simp
  next
    case True
    define l where "l = (unat offset + m) div 4096"
    define bo where "bo = (unat offset + m) mod 4096"
    define c where "c = chunk_of offset len m"
    have small: "unat offset + m < 40960" using True fits by simp
    note log = logical_of_run [OF small]
    have at: "unat offset + m = 4096 * l + bo" "bo < 4096" by (simp_all add: l_def bo_def)
    have c: "c = min (4096 - bo) (len - m)" using chunk_of_run [of offset m len] True small by (simp add: c_def bo_def)
    have l10: "l < 10" using log by (simp add: l_def word_less_nat_alt)
    have nz: "i_blocks i ! l \<noteq> 0" using mapped small True by (simp add: l_def)
    have db: "data_block (sb s) (unat (i_blocks i ! l))" using own_block [OF fo l10 nz] by simp
    have get: "inode_get_block ops i (logical_of offset m) s = Some (Inr (i_blocks i ! l, i_block_checksums i ! l), s)"
      using log by (simp add: inode_get_block_def l_def)
    have rd: "read_block ops (i_blocks i ! l) s = Some (Inr (?B (unat (i_blocks i ! l))), s)"
      using read_block_run [OF dev, of "i_blocks i ! l" s] db ok by (simp add: data_block_def disk_ok_def)
    have bo: "unat (offset + of_nat m) mod BLOCK_SIZE = bo"
      using offset_add [of offset m] small by (simp add: bo_def BLOCK_SIZE_def)
    let ?x = "slice (?B (unat (i_blocks i ! l))) bo c"
    have x: "?x = map (fbyte ?B i) [unat offset + m..<unat offset + (m + c)]"
      using nz c at length_blk [OF dev] by (intro slice_block_bytes [OF at(1)]) (auto simp: fbyte_def)
    have lx: "length ?x = c" unfolding x by simp
    have mc: "m + c \<le> len" "0 < c" using c True at(2) by auto
    let ?buf = "put_bytes buf m ?x"
    have fit: "m + length ?x \<le> length buf" using lx mc less.prems by simp
    have ih: "read_loop ops i offset len (m + c) ?buf s =
        Some (Inr (len, take (m + c) ?buf @ map (fbyte ?B i) [unat offset + (m + c)..<unat offset + len] @ drop len ?buf), s)"
      using less.hyps [of "m + c" ?buf] mc True fit less.prems by simp
    have t: "take (m + c) ?buf = take m buf @ ?x" "drop len ?buf = drop len buf"
      using fit lx mc by (simp_all add: put_bytes_def)
    have sp: "[unat offset + m..<unat offset + len] = [unat offset + m..<unat offset + (m + c)] @ [unat offset + (m + c)..<unat offset + len]"
      using mc upt_add_eq_append [of "unat offset + m" "unat offset + (m + c)" "len - (m + c)"] by simp
    have step: "read_loop ops i offset len m buf s = read_loop ops i offset len (m + c) ?buf s"
      using True get rd nz bo by (subst read_loop.simps) (simp add: c_def Let_def)
    show ?thesis unfolding step ih t sp by (simp only: map_append append_assoc x)
  qed
qed

section \<open>Writing a file\<close>

lemma flush_superblock_run:
  assumes dev: "sector_store ops sec n" and ok: "disk_ok n (sb s)"
  obtains d' where "flush_superblock ops s = Some (Inr (), s\<lparr>device := d'\<rparr>)"
    "\<forall>k. k \<noteq> 1 \<longrightarrow> blk sec d' k = blk sec (device s) k"
proof -
  let ?buf = "put_bytes zero_block 0 (superblock_bytes (sb s))"
  have "length (superblock_bytes (sb s)) = 52" using ok by (simp add: superblock_bytes_def disk_ok_def)
  then have l: "length ?buf = 4096" by simp
  have n1: "8 * unat (1 :: u32) + 8 \<le> n" using ok by (simp add: disk_ok_def)
  obtain d' where w: "write_block ops 1 ?buf s = Some (Inr (), s\<lparr>device := d'\<rparr>)"
    "blk sec d' = (blk sec (device s))(unat (1 :: u32) := ?buf)"
    using write_block_run [OF dev n1 l, of s] by blast
  show thesis
    using w by (intro that [of d']) (simp_all add: flush_superblock_def write_block_def SUPERBLOCK_BLOCK_def)
qed

lemma new_size_u32:
  fixes offset :: u64 and sz :: u32
  assumes "unat offset + m \<le> 40960"
  shows "unat (ucast (max (offset + of_nat m) (ucast sz)) :: u32) = max (unat offset + m) (unat sz)"
proof -
  have u: "unat (offset + of_nat m) = unat offset + m" "unat (ucast sz :: u64) = unat sz"
    using assms by (auto intro: offset_add unat_ucast_u64)
  have "unat (max (offset + of_nat m) (ucast sz)) = max (unat offset + m) (unat sz)"
    using u by (simp add: max_def word_le_nat_alt)
  moreover have "max (unat offset + m) (unat sz) < 2 ^ 32" using assms unat_u32 [of sz] by simp
  ultimately show ?thesis by (simp add: unsigned_ucast_eq take_bit_nat_eq_self)
qed

lemma file_ok_cong:
  assumes "file_ok B sp i" "B' 2 = B 2" "data_block sp' = data_block sp" "i_blocks i' = i_blocks i" "inode_wf i'"
  shows "file_ok B' sp' i'"
  using assms by (simp add: file_ok_def)

lemma fbyte_cong:
  assumes fo: "file_ok B sp i" and sp: "first_data_block sp = FIRST_DATA_BLOCK" and same: "\<forall>k \<ge> 5. B' k = B k"
    and i': "i_blocks i' = i_blocks i" and q: "q < 40960"
  shows "fbyte B' i' q = fbyte B i q"
proof -
  have k: "q div 4096 < 10" using q by (simp add: less_mult_imp_div_less)
  show ?thesis using own_block [OF fo k] data_block_5 [OF sp] same i' by (auto simp: fbyte_def)
qed

text \<open>What holds of the state \<open>s'\<close> after \<open>buf\<close> was written at offset \<open>p\<close> of the file \<open>k\<close>, whose inode
  was \<open>i\<close>: its bytes and size, the other inodes, and the blocks of other owners.\<close>

definition written_state ::
  "'d block_device \<Rightarrow> ('d \<Rightarrow> nat \<Rightarrow> bytes) \<Rightarrow> u32 \<Rightarrow> inode \<Rightarrow> nat \<Rightarrow> bytes \<Rightarrow> 'd ziqafs \<Rightarrow> 'd ziqafs \<Rightarrow> inode \<Rightarrow> bool" where
  "written_state ops sec k i p buf s s' i' \<longleftrightarrow>
     same_disk (sb s) (sb s') \<and> read_inode ops k s' = Some (Inr i', s') \<and>
     file_ok (blk sec (device s')) (sb s') i' \<and>
     unat (i_size i') = max (p + length buf) (unat (i_size i)) \<and> i_mode i' = i_mode i \<and> i_nlink i' = i_nlink i \<and>
     (\<forall>q < 40960. fbyte (blk sec (device s')) i' q =
        (if p \<le> q \<and> q < p + length buf then buf ! (q - p) else fbyte (blk sec (device s)) i q)) \<and>
     (\<forall>q < 40960. p \<le> q \<and> q < p + length buf \<longrightarrow> i_blocks i' ! (q div 4096) \<noteq> 0) \<and>
     (\<forall>j < 30. j \<noteq> k \<longrightarrow> inode_slot sec (device s') j = inode_slot sec (device s) j) \<and>
     (\<forall>b. foreign (blk sec (device s)) i b \<longrightarrow>
        blk sec (device s') b = blk sec (device s) b \<and> bit_set (blk sec (device s') 2) b)"

lemma write_file_run:
  assumes dev: "sector_store ops sec n" and ok: "disk_ok n (sb s)" and k: "k < 30"
    and i: "read_inode ops k s = Some (Inr i, s)" "i_mode i \<noteq> INODE_MODE_DIR"
    and fo: "file_ok (blk sec (device s)) (sb s) i" and fits: "unat offset + length buf \<le> 40960"
    and free: "10 \<le> card (free_set (blk sec (device s)) (sb s))"
  obtains s' i' where "write_file ops k offset buf s = Some (Inr (length buf), s')"
    "written_state ops sec k i (unat offset) buf s s' i'"
proof -
  let ?B = "blk sec (device s)" and ?p = "unat offset"
  obtain i1 s1 where l: "write_loop ops offset buf i 0 s = Some (Inr i1, s1)" "same_disk (sb s) (sb s1)"
    "file_ok (blk sec (device s1)) (sb s1) i1" and w: "wrote ?B i ?p buf (length buf) (blk sec (device s1)) i1"
    by (rule write_loop_run [OF dev fits ok fo _ wrote_0]) (use free in auto)
  have keep1: "disk_ok n (sb s1)" "data_block (sb s1) = data_block (sb s)" using same_disk_keeps [OF l(2)] ok by simp_all
  have i1: "i1 = i\<lparr>i_blocks := i_blocks i1, i_block_checksums := i_block_checksums i1\<rparr>"
    using w unfolding wrote_def by blast
  have szi: "i_size i1 = i_size i" "i_mode i1 = i_mode i" "i_nlink i1 = i_nlink i" by (subst i1, simp)+
  let ?now = "ucast (uptime_secs ops (device s1)) :: u32"
  let ?sz = "ucast (max (offset + of_nat (length buf)) (ucast (i_size i1))) :: u32"
  let ?i2 = "i1\<lparr>i_size := ?sz, i_mtime := ?now\<rparr>"
  let ?i' = "?i2\<lparr>i_checksum := calculate_inode_checksum ?i2\<rparr>"
  have wf2: "inode_wf ?i2" using l(3) by (simp add: file_ok_def inode_wf_def)
  obtain d2 where w2: "write_inode ops k ?i2 s1 = Some (Inr (), s1\<lparr>device := d2\<rparr>)"
    "\<forall>b. b \<noteq> 3 \<longrightarrow> blk sec d2 b = blk sec (device s1) b" "inode_slot sec d2 k = inode_bytes ?i'"
    "\<forall>j < 30. j \<noteq> k \<longrightarrow> inode_slot sec d2 j = inode_slot sec (device s1) j"
    by (rule write_inode_run [OF dev keep1(1) k wf2])
  have ok2: "disk_ok n (sb (s1\<lparr>device := d2\<rparr>))" using keep1(1) by simp
  obtain d3 where w3: "flush_superblock ops (s1\<lparr>device := d2\<rparr>) = Some (Inr (), s1\<lparr>device := d3\<rparr>)"
    "\<forall>b. b \<noteq> 1 \<longrightarrow> blk sec d3 b = blk sec d2 b"
    using flush_superblock_run [OF dev ok2] by auto
  let ?s3 = "s1\<lparr>device := d3\<rparr>"
  have run: "write_file ops k offset buf s = Some (Inr (length buf), ?s3)"
    using i l(1) w2(1) w3(1) by (simp add: write_file_def now_secs_def Let_def)
  have slots: "inode_slot sec d3 j = inode_slot sec d2 j" for j using w3(2) by (simp add: inode_slot_def)
  have B3: "\<forall>b \<ge> 5. blk sec d3 b = blk sec (device s1) b" "blk sec d3 2 = blk sec (device s1) 2"
    using w2(2) w3(2) by simp_all
  have fd1: "first_data_block (sb s1) = FIRST_DATA_BLOCK" using keep1(1) by (simp add: disk_ok_def)
  have t3: "blk sec (device s1) 3 = ?B 3" using w by (simp add: wrote_def)
  have "written_state ops sec k i ?p buf s ?s3 ?i'"
    unfolding written_state_def
  proof (intro conjI)
    show "same_disk (sb s) (sb ?s3)" using l(2) by simp
    show "read_inode ops k ?s3 = Some (Inr ?i', ?s3)"
      using read_written_inode [OF dev, of ?s3 k ?i2] keep1(1) k wf2 slots w2(3) by simp
    show "file_ok (blk sec (device ?s3)) (sb ?s3) ?i'"
      using wf2 by (intro file_ok_cong [OF l(3)]) (simp_all add: B3 inode_wf_def)
    show "unat (i_size ?i') = max (?p + length buf) (unat (i_size i))"
      using new_size_u32 [OF fits, of "i_size i"] by (simp add: szi)
    show "i_mode ?i' = i_mode i" "i_nlink ?i' = i_nlink i" by (simp_all add: szi)
    show "\<forall>q < 40960. fbyte (blk sec (device ?s3)) ?i' q =
        (if ?p \<le> q \<and> q < ?p + length buf then buf ! (q - ?p) else fbyte ?B i q)"
      using fbyte_cong [OF l(3) fd1, of "blk sec d3" ?i'] B3(1) w by (simp add: wrote_def)
    show "\<forall>q < 40960. ?p \<le> q \<and> q < ?p + length buf \<longrightarrow> i_blocks ?i' ! (q div 4096) \<noteq> 0"
      using w by (simp add: wrote_def)
    show "\<forall>j < 30. j \<noteq> k \<longrightarrow> inode_slot sec (device ?s3) j = inode_slot sec (device s) j"
      using w2(4) slots t3 by (simp add: inode_slot_def)
    show "\<forall>b. foreign ?B i b \<longrightarrow> blk sec (device ?s3) b = ?B b \<and> bit_set (blk sec (device ?s3) 2) b"
      using w B3 by (auto simp: wrote_def foreign_def)
  qed
  with run show thesis by (rule that)
qed

lemma read_file_run:
  assumes dev: "sector_store ops sec n" and ok: "disk_ok n (sb s)" and i: "read_inode ops k s = Some (Inr i, s)"
    and fo: "file_ok (blk sec (device s)) (sb s) i" and fits: "unat offset + length buf \<le> 40960"
    and sz: "unat offset + length buf \<le> unat (i_size i)"
    and mapped: "\<forall>q < 40960. unat offset \<le> q \<and> q < unat offset + length buf \<longrightarrow> i_blocks i ! (q div 4096) \<noteq> 0"
  shows "read_file ops k offset buf s =
    Some (Inr (length buf, map (fbyte (blk sec (device s)) i) [unat offset..<unat offset + length buf]), s)"
proof (cases "offset \<ge> ucast (i_size i)")
  case True
  then have "unat (i_size i) \<le> unat offset" by (simp add: word_le_nat_alt unat_ucast_u64)
  then have "length buf = 0" using sz by linarith
  then show ?thesis using True i by (simp add: read_file_def)
next
  case False
  have "min (unat (i_size i) - unat offset) (length buf) = length buf" using sz by simp
  then show ?thesis
    using False i read_loop_run [OF dev ok fo fits _ _ mapped, of buf 0] by (simp add: read_file_def)
qed

lemma other_file_kept:
  assumes "written_state ops sec k i p buf s s' i'" and fo: "file_ok (blk sec (device s)) (sb s) x"
    and "first_data_block (sb s) = FIRST_DATA_BLOCK"
    and dis: "\<forall>a < 10. \<forall>b < 10. i_blocks x ! a \<noteq> 0 \<longrightarrow> i_blocks x ! a \<noteq> i_blocks i ! b" and q: "q < 40960"
  shows "fbyte (blk sec (device s')) x q = fbyte (blk sec (device s)) x q"
proof (cases "i_blocks x ! (q div 4096) = 0")
  case False
  have k: "q div 4096 < 10" using q by (simp add: less_mult_imp_div_less)
  have "unat (i_blocks i ! b) \<noteq> unat (i_blocks x ! (q div 4096))" if "b < 10" for b
    using dis k that False unsigned_word_eqI by metis
  then have "foreign (blk sec (device s)) i (unat (i_blocks x ! (q div 4096)))"
    using own_block [OF fo k False] data_block_5 [OF assms(3)] by (simp add: foreign_def)
  then show ?thesis using assms(1) by (simp add: written_state_def fbyte_def)
qed (simp add: fbyte_def)

text \<open>(C9) Writing and reading a file: on a device that stores sectors, with ten free blocks, writing to a
  regular file within its direct blocks succeeds; reading the same range gives the bytes written; the
  other bytes of the file are as before, its size is the larger of the old size and the end of the
  write; every other inode is as before and so is every byte of a file that shares no block with it.\<close>

theorem zfs_write_read:
  assumes "sector_store ops sec n" "disk_ok n (sb s)" "k < 30"
    and "read_inode ops k s = Some (Inr i, s)" "i_mode i \<noteq> INODE_MODE_DIR"
    and "file_ok (blk sec (device s)) (sb s) i" "unat offset + length data \<le> 40960"
    and "10 \<le> card (free_set (blk sec (device s)) (sb s))"
  shows "\<exists>s' i'. write_file ops k offset data s = Some (Inr (length data), s') \<and>
    read_file ops k offset (replicate (length data) 0) s' = Some (Inr (length data, data), s') \<and>
    read_inode ops k s' = Some (Inr i', s') \<and> file_ok (blk sec (device s')) (sb s') i' \<and>
    unat (i_size i') = max (unat offset + length data) (unat (i_size i)) \<and>
    (\<forall>q < 40960. q < unat offset \<or> unat offset + length data \<le> q \<longrightarrow>
       fbyte (blk sec (device s')) i' q = fbyte (blk sec (device s)) i q) \<and>
    (\<forall>j < 30. \<forall>x. j \<noteq> k \<and> read_inode ops j s = Some (Inr x, s) \<longrightarrow> read_inode ops j s' = Some (Inr x, s') \<and>
       (file_ok (blk sec (device s)) (sb s) x \<and>
        (\<forall>a < 10. \<forall>b < 10. i_blocks x ! a \<noteq> 0 \<longrightarrow> i_blocks x ! a \<noteq> i_blocks i ! b) \<longrightarrow>
        (\<forall>q < 40960. fbyte (blk sec (device s')) x q = fbyte (blk sec (device s)) x q)))"
proof -
  obtain s' i' where w: "write_file ops k offset data s = Some (Inr (length data), s')"
    "written_state ops sec k i (unat offset) data s s' i'"
    by (rule write_file_run [OF assms])
  note ws = w(2) [unfolded written_state_def]
  have ok': "disk_ok n (sb s')" using same_disk_keeps [of "sb s" "sb s'"] ws assms(2) by blast
  have fd: "first_data_block (sb s) = FIRST_DATA_BLOCK" using assms(2) by (simp add: disk_ok_def)
  let ?buf = "replicate (length data) 0 :: bytes" and ?B' = "blk sec (device s')"
  have "read_file ops k offset ?buf s' =
      Some (Inr (length ?buf, map (fbyte ?B' i') [unat offset..<unat offset + length ?buf]), s')"
    using ws assms(7) by (intro read_file_run [OF assms(1) ok']) simp_all
  moreover have "map (fbyte ?B' i') [unat offset..<unat offset + length data] = data"
    using ws assms(7) by (intro nth_equalityI) simp_all
  ultimately have "read_file ops k offset ?buf s' = Some (Inr (length data, data), s')" by simp
  moreover have "read_inode ops j s' = Some (Inr x, s')" if "j < 30" "j \<noteq> k" "read_inode ops j s = Some (Inr x, s)" for j x
    using ws that by (intro read_inode_slot [OF assms(1,2) ok' that(1) _ that(3)]) simp
  ultimately show ?thesis
    using w(1) ws other_file_kept [OF w(2) _ fd] by (intro exI [of _ s'] exI [of _ i'] conjI) auto
qed

section \<open>A device in memory\<close>

definition mem_sec :: "(nat \<Rightarrow> nat \<Rightarrow> u8) \<Rightarrow> nat \<Rightarrow> bytes" where
  "mem_sec d k = map (d k) [0..<512]"

definition mem_disk :: "(nat \<Rightarrow> nat \<Rightarrow> u8) block_device" where
  "mem_disk =
     \<lparr>read_sectors = (\<lambda>d p c buf. Inr (concat (map (mem_sec d) [unat p..<unat p + unat c]) @ drop (512 * unat c) buf)),
      write_sectors = (\<lambda>d p c buf. (Inr (), \<lambda>k j. if unat p \<le> k \<and> k < unat p + unat c
         then buf ! (512 * (k - unat p) + j) else d k j)),
      total_sectors = (\<lambda>_. 512), uptime_secs = (\<lambda>_. 0)\<rparr>"

lemma slice_as_map: "a + m \<le> length bs \<Longrightarrow> slice bs a m = map (\<lambda>j. bs ! (a + j)) [0..<m]"
  by (intro nth_equalityI) (simp_all add: nth_slice)

lemma mem_disk_store: "sector_store mem_disk mem_sec n"
proof -
  have "mem_sec (\<lambda>k j. if unat p \<le> k \<and> k < unat p + unat c then buf ! (512 * (k - unat p) + j) else d k j) k =
      (if unat p \<le> k \<and> k < unat p + unat c then slice buf (512 * (k - unat p)) 512 else mem_sec d k)"
    if "512 * unat c \<le> length buf" for p :: u64 and c :: u32 and buf :: bytes and d k
    using that by (auto simp: mem_sec_def slice_as_map)
  then show ?thesis by (simp add: sector_store_def mem_disk_def) (simp add: mem_sec_def)
qed

text \<open>The device whose blocks are given by \<open>f\<close>.\<close>

definition disk_of :: "(nat \<Rightarrow> bytes) \<Rightarrow> nat \<Rightarrow> nat \<Rightarrow> u8" where
  "disk_of f k j = f (k div 8) ! (512 * (k mod 8) + j)"

lemma blk_disk_of: "length (f b) = 4096 \<Longrightarrow> blk mem_sec (disk_of f) b = f b"
proof -
  assume l: "length (f b) = 4096"
  have "map (mem_sec (disk_of f)) [8 * b..<8 * b + 8] = map (\<lambda>k. slice (f b) (512 * (k - 8 * b)) 512) [8 * b..<8 * b + 8]"
  proof (rule map_cong [OF refl])
    fix k assume k: "k \<in> set [8 * b..<8 * b + 8]"
    then have d: "k div 8 = b" by auto
    moreover have "k mod 8 = k - 8 * b" using minus_mult_div_eq_mod [of k 8] d by simp
    ultimately show "mem_sec (disk_of f) k = slice (f b) (512 * (k - 8 * b)) 512"
      using k l by (subst slice_as_map) (auto simp: mem_sec_def disk_of_def)
  qed
  then show ?thesis unfolding blk_def using concat_slices [of "f b" 8 "8 * b"] l by (simp only:)
qed

text \<open>A disk of 64 blocks with a regular file, inode 2, without content.\<close>

definition sample_file :: inode where
  "sample_file = new_inode INODE_MODE_FILE 0"

definition sample_blocks :: "nat \<Rightarrow> bytes" where
  "sample_blocks b = (if b = 2 then zero_block[0 := 0x1F]
     else if b = 3 then put_bytes zero_block 272 (inode_bytes sample_file) else zero_block)"

definition sample_fs :: "(nat \<Rightarrow> nat \<Rightarrow> u8) ziqafs" where
  "sample_fs = \<lparr>device = disk_of sample_blocks, sb = format_sb 64\<rparr>"

lemma sample_len: "length (sample_blocks b) = 4096"
proof -
  have "length (inode_bytes sample_file) = 136"
    by (rule length_inode_bytes) (simp add: sample_file_def new_inode_def inode_wf_def Let_def)
  then show ?thesis by (simp add: sample_blocks_def)
qed

lemma sample_blk: "blk mem_sec (device sample_fs) = sample_blocks"
  by (rule ext) (simp add: sample_fs_def blk_disk_of sample_len)

lemma sample_disk_ok: "disk_ok 512 (sb sample_fs)"
  by (simp add: sample_fs_def disk_ok_def format_sb_def)

lemma sample_inode: "read_inode mem_disk 2 sample_fs = Some (Inr sample_file, sample_fs)"
proof -
  define i where "i = sample_file\<lparr>i_checksum := 0\<rparr>"
  have wf: "inode_wf i" "inode_wf sample_file"
    by (simp_all add: i_def sample_file_def new_inode_def inode_wf_def Let_def)
  have sf: "sample_file = i\<lparr>i_checksum := calculate_inode_checksum i\<rparr>"
    by (simp add: i_def sample_file_def new_inode_def Let_def checksum_irrelevant)
  have "inode_slot mem_sec (device sample_fs) 2 = inode_bytes sample_file"
    using slice_put_same [of 272 "inode_bytes sample_file" zero_block] length_inode_bytes [OF wf(2)]
    by (simp add: inode_slot_def sample_blk sample_blocks_def)
  then show ?thesis
    using read_written_inode [OF mem_disk_store sample_disk_ok _ wf(1), of 2] sf by simp
qed

lemma sample_file_ok: "file_ok (blk mem_sec (device sample_fs)) (sb sample_fs) sample_file"
  by (simp add: file_ok_def sample_file_def new_inode_def inode_wf_def Let_def)

lemma sample_free: "10 \<le> card (free_set (blk mem_sec (device sample_fs)) (sb sample_fs))"
proof -
  have "{8..<18} \<subseteq> free_set (blk mem_sec (device sample_fs)) (sb sample_fs)"
  proof
    fix k :: nat assume k: "k \<in> {8..<18}"
    then have "k div 8 \<noteq> 0" "k div 8 < 4096" by auto
    then have "(zero_block[0 := 0x1F]) ! (k div 8) = 0" by (simp add: zero_block_def BLOCK_SIZE_def)
    then have "\<not> bit_set (sample_blocks 2) k" by (simp add: sample_blocks_def bit_set_def)
    moreover have "data_block (sb sample_fs) k"
      using k by (simp add: data_block_def sample_fs_def format_sb_def FIRST_DATA_BLOCK_def)
    ultimately show "k \<in> free_set (blk mem_sec (device sample_fs)) (sb sample_fs)" by (simp add: free_set_def sample_blk)
  qed
  then have "card {8..<18 :: nat} \<le> card (free_set (blk mem_sec (device sample_fs)) (sb sample_fs))" by (intro card_mono) simp_all
  then show ?thesis by simp
qed

theorem zfs_write_read_witness:
  "\<exists>s'. write_file mem_disk 2 5000 [1, 2, 3] sample_fs = Some (Inr 3, s') \<and>
        read_file mem_disk 2 5000 [0, 0, 0] s' = Some (Inr (3, [1, 2, 3]), s')"
proof -
  have m: "i_mode sample_file \<noteq> INODE_MODE_DIR"
    by (simp add: sample_file_def new_inode_def Let_def INODE_MODE_FILE_def INODE_MODE_DIR_def)
  have b: "(2 :: u32) < 30" "unat (5000 :: u64) + length [1, 2, 3 :: u8] \<le> 40960" by simp_all
  have l: "length [1, 2, 3 :: u8] = 3" "replicate 3 (0 :: u8) = [0, 0, 0]" by (simp_all add: numeral_3_eq_3)
  show ?thesis
    using zfs_write_read [OF mem_disk_store sample_disk_ok b(1) sample_inode m sample_file_ok b(2) sample_free]
    unfolding l by blast
qed

text \<open>The slot of inode 2 with its mode damaged.\<close>

definition damaged_fs :: "(nat \<Rightarrow> nat \<Rightarrow> u8) ziqafs" where
  "damaged_fs = \<lparr>device = disk_of (sample_blocks(3 := put_bytes zero_block 272 ((inode_bytes sample_file)[4 := 7]))), sb = format_sb 64\<rparr>"

theorem inode_damage_detected_witness:
  "read_inode mem_disk 2 sample_fs = Some (Inr sample_file, sample_fs) \<and>
   read_inode mem_disk 2 damaged_fs = Some (Inl (Other ''Inode checksum mismatch''), damaged_fs)"
proof -
  let ?b = "inode_bytes sample_file"
  have l: "length ?b = 136"
    by (rule length_inode_bytes) (simp add: sample_file_def new_inode_def inode_wf_def Let_def)
  have b4: "?b ! 4 = 0"
    by (simp add: inode_bytes_def nth_append sample_file_def new_inode_def Let_def INODE_MODE_FILE_def le_bytes_def)
  have "take 4 ?b @ ?b ! 4 # drop (Suc 4) ?b = ?b" by (rule id_take_nth_drop [symmetric]) (simp add: l)
  then have dec: "take 4 ?b @ [0] @ drop 5 ?b = ?b" by (simp add: b4)
  have s1: "inode_slot mem_sec (device sample_fs) 2 = take 4 ?b @ [0] @ drop 5 ?b"
    unfolding dec using slice_put_same [of 272 ?b zero_block] l by (simp add: inode_slot_def sample_blk sample_blocks_def)
  have "blk mem_sec (device damaged_fs) 3 = put_bytes zero_block 272 (?b[4 := 7])"
    using l by (simp add: damaged_fs_def blk_disk_of)
  moreover have "?b[4 := 7] = take 4 ?b @ [7] @ drop 5 ?b" using upd_conv_take_nth_drop [of 4 ?b 7] l by simp
  ultimately have s2: "inode_slot mem_sec (device damaged_fs) 2 = take 4 ?b @ [7] @ drop 5 ?b"
    using slice_put_same [of 272 "?b[4 := 7]" zero_block] l by (simp add: inode_slot_def)
  have ok: "disk_ok 512 (sb damaged_fs)" by (simp add: damaged_fs_def disk_ok_def format_sb_def)
  have "(2 :: u32) < 30" by simp
  from inode_damage_detected [OF mem_disk_store sample_disk_ok ok this sample_inode s1 s2]
  show ?thesis using sample_inode l by simp
qed

end
