(* ===== verification/Ziqa_Zfs_Dir.thy ===== *)
theory Ziqa_Zfs_Dir
  imports Ziqa_Zfs_Props
begin

text \<open>
  Directory blocks as lists of entries, and where the directory and the inode table go wrong: the
  reuse of a removed entry by a longer one, and the search for a free inode.
\<close>

section \<open>A directory block as a list of entries\<close>

text \<open>An entry with inode 0 is a removed one.\<close>

definition enc_dirent :: "u32 \<times> string \<Rightarrow> bytes" where
  "enc_dirent e = le_bytes 4 (fst e) @ le_bytes 2 (of_nat (length (snd e)) :: u16) @
     le_bytes 2 (of_nat (entry_size_of (length (snd e))) :: u16) @ str_bytes (snd e) @
     replicate (entry_size_of (length (snd e)) - 8 - length (snd e)) 0"

definition dirent_size :: "u32 \<times> string \<Rightarrow> nat" where
  "dirent_size e = entry_size_of (length (snd e))"

definition used_bytes :: "(u32 \<times> string) list \<Rightarrow> nat" where
  "used_bytes es = sum_list (map dirent_size es)"

definition dir_block :: "(u32 \<times> string) list \<Rightarrow> bytes" where
  "dir_block es = concat (map enc_dirent es) @ replicate (4096 - used_bytes es) 0"

definition good_name :: "string \<Rightarrow> bool" where
  "good_name name \<longleftrightarrow> name \<noteq> [] \<and> length name \<le> 252 \<and> utf8_valid (str_bytes name)"

definition dir_wf :: "(u32 \<times> string) list \<Rightarrow> bool" where
  "dir_wf es \<longleftrightarrow> (\<forall>e \<in> set es. good_name (snd e)) \<and> used_bytes es \<le> 4096"

definition live_entries :: "(u32 \<times> string) list \<Rightarrow> (u32 \<times> string) list" where
  "live_entries es = filter (\<lambda>e. fst e \<noteq> 0) es"

lemma entry_size_bounds: "8 + n \<le> entry_size_of n" "n \<le> 252 \<Longrightarrow> entry_size_of n \<le> 260"
proof -
  have "entry_size_of n + (8 + n + 3) mod 4 = 8 + n + 3" by (simp add: entry_size_of_def)
  moreover have "(8 + n + 3) mod 4 < (4 :: nat)" by (rule mod_less_divisor) simp
  ultimately show "8 + n \<le> entry_size_of n" by linarith
  show "n \<le> 252 \<Longrightarrow> entry_size_of n \<le> 260"
  proof -
    assume "n \<le> 252"
    then have "(8 + n + 3) div 4 \<le> 263 div 4" by (intro div_le_mono) simp
    then show ?thesis by (simp add: entry_size_of_def)
  qed
qed

lemma length_str_bytes [simp]: "length (str_bytes s) = length s"
  by (simp add: str_bytes_def)

lemma length_enc [simp]: "length (enc_dirent e) = dirent_size e"
  using entry_size_bounds(1) [of "length (snd e)"] by (simp add: enc_dirent_def dirent_size_def)

lemma length_encs [simp]: "length (concat (map enc_dirent es)) = used_bytes es"
  by (induction es) (simp_all add: used_bytes_def)

lemma length_dir_block: "used_bytes es \<le> 4096 \<Longrightarrow> length (dir_block es) = 4096"
  by (simp add: dir_block_def)

lemma unat_of_char: "unat (of_char c :: u8) = of_char c"
  using unat_of_nat_small [where 'a = 8, of "of_char c"] nat_of_char_less_256 [of c] by (simp add: of_nat_of_char)

lemma from_utf8_str: "utf8_valid (str_bytes name) \<Longrightarrow> from_utf8 (str_bytes name) = Some name"
  by (simp add: from_utf8_def str_bytes_def comp_def unat_of_char)

text \<open>The fields of the entry that starts after \<open>pre\<close>.\<close>

lemma entry_fields:
  assumes "good_name name" and buf: "buf = pre @ enc_dirent (ino, name) @ post"
  shows "le_at buf (length pre) 4 = ino" "unat (le_at buf (length pre + 4) 2 :: u16) = length name"
    "unat (le_at buf (length pre + 6) 2 :: u16) = dirent_size (ino, name)"
    "slice buf (length pre + 8) (length name) = str_bytes name"
proof -
  have n: "length name \<le> 252" using assms(1) by (simp add: good_name_def)
  have s: "dirent_size (ino, name) \<le> 260" using entry_size_bounds(2) [OF n] by (simp add: dirent_size_def)
  show "le_at buf (length pre) 4 = ino" by (simp add: buf le_at_skip enc_dirent_def le_at_head)
  have "le_at buf (length pre + 4) 2 = (of_nat (length name) :: u16)"
    by (simp add: buf le_at_skip enc_dirent_def le_at_head)
  then show "unat (le_at buf (length pre + 4) 2 :: u16) = length name" using n by (simp add: unat_of_nat_small)
  have "le_at buf (length pre + 6) 2 = (of_nat (dirent_size (ino, name)) :: u16)"
    by (simp add: buf le_at_skip enc_dirent_def le_at_head dirent_size_def)
  then show "unat (le_at buf (length pre + 6) 2 :: u16) = dirent_size (ino, name)" using s by (simp add: unat_of_nat_small)
  show "slice buf (length pre + 8) (length name) = str_bytes name"
    by (simp add: buf slice_skip enc_dirent_def slice_head)
qed

lemma zero_fields:
  assumes "buf = pre @ replicate z 0" "length buf = 4096"
  shows "length pre + 8 \<le> 4096 \<Longrightarrow> (le_at buf (length pre) 4 :: u32) = 0"
    "length pre + 8 \<le> 4096 \<Longrightarrow> (le_at buf (length pre + 6) 2 :: u16) = 0"
proof -
  have z: "le_at (replicate z 0) a m = (0 :: 'a::len word)" for a m
  proof (rule bit_word_eqI)
    fix k
    show "bit (le_at (replicate z 0) a m :: 'a word) k = bit (0 :: 'a word) k"
      by (simp add: le_at_def bit_le_word slice_def)
  qed
  show "(le_at buf (length pre) 4 :: u32) = 0" "(le_at buf (length pre + 6) 2 :: u16) = 0"
    by (simp_all add: assms(1) le_at_skip z)
qed

lemma dirents_step:
  assumes g: "good_name name" and buf: "buf = pre @ enc_dirent (ino, name) @ post" and len: "length buf = 4096"
  shows "dirents buf 4096 (length pre) =
    (if ino \<noteq> 0 then [(ino, name)] else []) @ dirents buf 4096 (length pre + dirent_size (ino, name))"
proof -
  note f = entry_fields [OF g buf]
  have sz: "8 + length name \<le> dirent_size (ino, name)" "dirent_size (ino, name) \<le> 260"
    using entry_size_bounds [of "length name"] g by (simp_all add: dirent_size_def good_name_def)
  have fit: "length pre + dirent_size (ino, name) \<le> 4096" using len buf by simp
  have gs: "length name \<noteq> 0" "length name \<le> 252" "from_utf8 (str_bytes name) = Some name"
    using g by (auto simp: good_name_def from_utf8_str)
  show ?thesis using sz fit gs by (subst dirents.simps) (simp add: f Let_def BLOCK_SIZE_def)
qed

lemma dirents_run:
  assumes "buf = pre @ concat (map enc_dirent es) @ replicate z 0" "length buf = 4096" "\<forall>e \<in> set es. good_name (snd e)"
  shows "dirents buf 4096 (length pre) = live_entries es"
  using assms
proof (induction es arbitrary: pre)
  case Nil
  show ?case
  proof (cases "length pre + 8 \<le> 4096")
    case True
    then show ?thesis using zero_fields [of buf pre z] Nil by (subst dirents.simps) (simp add: live_entries_def)
  qed (subst dirents.simps, simp add: live_entries_def)
next
  case (Cons e es)
  obtain ino name where e: "e = (ino, name)" by (cases e)
  have g: "good_name name" using Cons.prems(3) e by simp
  have buf: "buf = pre @ enc_dirent (ino, name) @ (concat (map enc_dirent es) @ replicate z 0)"
    using Cons.prems(1) e by simp
  then have "buf = (pre @ enc_dirent (ino, name)) @ concat (map enc_dirent es) @ replicate z 0" by simp
  from Cons.IH [OF this Cons.prems(2)] Cons.prems(3)
  have "dirents buf 4096 (length pre + dirent_size (ino, name)) = live_entries es" by simp
  with dirents_step [OF g buf Cons.prems(2)] show ?case by (simp add: live_entries_def e)
qed

lemma dirent_foreach_run:
  assumes "dir_wf es"
  shows "dirent_foreach (dir_block es) (of_nat BLOCK_SIZE) = live_entries es"
  using dirents_run [of "dir_block es" "[]" es "4096 - used_bytes es"] length_dir_block [of es] assms
  by (simp add: dirent_foreach_def dir_wf_def dir_block_def BLOCK_SIZE_def)

text \<open>The last entry of a name.\<close>

definition last_entry :: "(u32 \<times> string) list \<Rightarrow> string \<Rightarrow> u32 option" where
  "last_entry es name = map_option fst (find (\<lambda>e. snd e = name) (rev (live_entries es)))"

lemma foldl_last:
  "foldl (\<lambda>r (ino, n). if n = name then Some ino else r) r es =
   (case find (\<lambda>e. snd e = name) (rev es) of None \<Rightarrow> r | Some e \<Rightarrow> Some (fst e))"
  by (induction es rule: rev_induct) (auto split: option.splits)

lemma find_entry_run: "dir_wf es \<Longrightarrow> find_entry (dir_block es) (of_nat BLOCK_SIZE) name = last_entry es name"
  unfolding find_entry_def last_entry_def
  by (simp add: dirent_foreach_run foldl_last split: option.splits)

lemma entry_slot_run:
  assumes "buf = pre @ concat (map enc_dirent es) @ replicate z 0" "length buf = 4096"
    "\<forall>e \<in> set es. good_name (snd e) \<and> fst e \<noteq> 0" "8 \<le> sz"
  shows "entry_slot buf sz (length pre) =
    (if length pre + used_bytes es + sz \<le> 4096 then Some (length pre + used_bytes es) else None)"
  using assms
proof (induction es arbitrary: pre)
  case Nil
  show ?case
  proof (cases "length pre + sz \<le> 4096")
    case True
    then show ?thesis
      using zero_fields [of buf pre z] Nil by (subst entry_slot.simps) (simp add: used_bytes_def BLOCK_SIZE_def)
  qed (subst entry_slot.simps, simp add: used_bytes_def BLOCK_SIZE_def)
next
  case (Cons e es)
  obtain ino name where e: "e = (ino, name)" by (cases e)
  have g: "good_name name" "ino \<noteq> 0" using Cons.prems(3) e by simp_all
  have buf: "buf = pre @ enc_dirent (ino, name) @ (concat (map enc_dirent es) @ replicate z 0)"
    using Cons.prems(1) e by simp
  note f = entry_fields [OF g(1) buf]
  have sz: "8 + length name \<le> dirent_size (ino, name)"
    using entry_size_bounds [of "length name"] by (simp add: dirent_size_def)
  have ih: "entry_slot buf sz (length pre + dirent_size (ino, name)) =
      (if length pre + dirent_size (ino, name) + used_bytes es + sz \<le> 4096
       then Some (length pre + dirent_size (ino, name) + used_bytes es) else None)"
  proof -
    have "buf = (pre @ enc_dirent (ino, name)) @ concat (map enc_dirent es) @ replicate z 0" using buf by simp
    from Cons.IH [OF this Cons.prems(2)] Cons.prems(3,4) show ?thesis by simp
  qed
  have u: "used_bytes (e # es) = dirent_size (ino, name) + used_bytes es" by (simp add: used_bytes_def e)
  show ?case
  proof (cases "length pre + sz \<le> 4096")
    case True
    then show ?thesis unfolding u using sz g(2) ih by (subst entry_slot.simps) (simp add: f Let_def BLOCK_SIZE_def)
  next
    case False
    then show ?thesis unfolding u using sz by (subst entry_slot.simps) (simp add: BLOCK_SIZE_def)
  qed
qed

lemma used_bytes_append: "used_bytes (es @ fs) = used_bytes es + used_bytes fs"
  by (simp add: used_bytes_def)

lemma write_entry_run:
  assumes wf: "dir_wf es" and alive: "\<forall>e \<in> set es. fst e \<noteq> 0" and name: "good_name name"
  shows "write_entry_raw (dir_block es) ino name =
    (if used_bytes es + dirent_size (ino, name) \<le> 4096 then Inr (dir_block (es @ [(ino, name)]))
     else Inl (Other ''Directory block full''))"
proof -
  let ?sz = "entry_size_of (length name)"
  have n: "length name \<le> 252" using name by (simp add: good_name_def)
  have sz: "8 + length name \<le> ?sz" by (rule entry_size_bounds)
  have slot: "entry_slot (dir_block es) ?sz 0 = (if used_bytes es + ?sz \<le> 4096 then Some (used_bytes es) else None)"
    using entry_slot_run [of "dir_block es" "[]" es "4096 - used_bytes es" ?sz] wf alive sz length_dir_block [of es]
    by (simp add: dir_wf_def dir_block_def)
  let ?hd = "le_bytes 4 ino @ le_bytes 2 (of_nat (length name) :: u16) @ le_bytes 2 (of_nat ?sz :: u16) @ str_bytes name"
  have "put_bytes (dir_block es) (used_bytes es) ?hd = dir_block (es @ [(ino, name)])" if fit: "used_bytes es + ?sz \<le> 4096"
  proof -
    have "put_bytes (dir_block es) (used_bytes es) ?hd =
        concat (map enc_dirent es) @ ?hd @ replicate (4096 - used_bytes es - (8 + length name)) 0"
      by (simp add: put_bytes_def dir_block_def)
    also have "4096 - used_bytes es - (8 + length name) = (?sz - 8 - length name) + (4096 - (used_bytes es + ?sz))"
      using fit sz by linarith
    finally have "put_bytes (dir_block es) (used_bytes es) ?hd =
        concat (map enc_dirent es) @ (?hd @ replicate (?sz - 8 - length name) 0) @ replicate (4096 - (used_bytes es + ?sz)) 0"
      by (simp add: replicate_add)
    moreover have "?hd @ replicate (?sz - 8 - length name) 0 = enc_dirent (ino, name)" by (simp add: enc_dirent_def)
    moreover have "used_bytes (es @ [(ino, name)]) = used_bytes es + ?sz" by (simp add: used_bytes_def dirent_size_def)
    ultimately show ?thesis by (simp add: dir_block_def)
  qed
  then show ?thesis using n by (simp add: write_entry_raw_def Let_def slot dirent_size_def)
qed

text \<open>The first entry of an inode becomes a removed one.\<close>

fun kill_entry :: "u32 \<Rightarrow> (u32 \<times> string) list \<Rightarrow> (u32 \<times> string) list" where
  "kill_entry ino [] = []"
| "kill_entry ino (e # es) = (if fst e = ino then (0, snd e) # es else e # kill_entry ino es)"

lemma used_bytes_kill [simp]: "used_bytes (kill_entry ino es) = used_bytes es"
  by (induction es) (simp_all add: used_bytes_def dirent_size_def)

lemma kill_wf: "dir_wf es \<Longrightarrow> dir_wf (kill_entry ino es)"
proof -
  have "\<forall>e \<in> set es. good_name (snd e) \<Longrightarrow> \<forall>e \<in> set (kill_entry ino es). good_name (snd e)"
    by (induction es) auto
  then show "dir_wf es \<Longrightarrow> ?thesis" by (simp add: dir_wf_def)
qed

lemma find_SomeD: "List.find P xs = Some x \<Longrightarrow> P x"
  by (auto simp: find_Some_iff)

lemma live_kill: "ino \<noteq> 0 \<Longrightarrow> live_entries (kill_entry ino es) =
    (case find (\<lambda>e. fst e = ino) es of None \<Rightarrow> live_entries es | Some e \<Rightarrow> remove1 e (live_entries es))"
proof (induction es)
  case (Cons e es)
  then show ?case by (auto simp: live_entries_def split: option.splits dest: find_SomeD)
qed (simp add: live_entries_def)

lemma enc_killed: "put_bytes (pre @ enc_dirent (ino, name) @ post) (length pre) (replicate 4 0) = pre @ enc_dirent (0, name) @ post"
proof -
  have "le_bytes 4 (0 :: u32) = replicate 4 0" by (simp add: le_bytes_def numeral_eq_Suc)
  then show ?thesis by (simp add: put_bytes_def enc_dirent_def)
qed

lemma remove_entry_run:
  assumes "buf = pre @ concat (map enc_dirent es) @ replicate z 0" "length buf = 4096"
    "\<forall>e \<in> set es. good_name (snd e)" "ino \<noteq> 0"
  shows "remove_entry_from buf 4096 ino (length pre) =
    (ino \<in> fst ` set es, pre @ concat (map enc_dirent (kill_entry ino es)) @ replicate z 0)"
  using assms
proof (induction es arbitrary: pre)
  case Nil
  show ?case
  proof (cases "length pre + 8 \<le> 4096")
    case True
    then show ?thesis using zero_fields [of buf pre z] Nil by (subst remove_entry_from.simps) simp
  next
    case False
    then show ?thesis using Nil by (subst remove_entry_from.simps) simp
  qed
next
  case (Cons e es)
  obtain i name where e: "e = (i, name)" by (cases e)
  have g: "good_name name" using Cons.prems(3) e by simp
  let ?post = "concat (map enc_dirent es) @ replicate z 0"
  have buf: "buf = pre @ enc_dirent (i, name) @ ?post" using Cons.prems(1) e by simp
  note f = entry_fields [OF g buf]
  have sz: "8 \<le> dirent_size (i, name)" using entry_size_bounds [of "length name"] by (simp add: dirent_size_def)
  have fit: "length pre + dirent_size (i, name) \<le> 4096" using Cons.prems(2) buf by (simp add: e)
  have ih: "remove_entry_from buf 4096 ino (length pre + dirent_size (i, name)) =
      (ino \<in> fst ` set es, (pre @ enc_dirent (i, name)) @ concat (map enc_dirent (kill_entry ino es)) @ replicate z 0)"
  proof -
    have "buf = (pre @ enc_dirent (i, name)) @ ?post" using buf by simp
    from Cons.IH [OF this Cons.prems(2)] Cons.prems(3,4) show ?thesis by simp
  qed
  have killed: "put_bytes buf (length pre) (replicate 4 0) = pre @ enc_dirent (0, name) @ ?post"
    unfolding buf by (rule enc_killed)
  show ?case
    using sz fit ih killed by (subst remove_entry_from.simps) (auto simp: f Let_def BLOCK_SIZE_def e)
qed

lemma last_entry_snoc: "ino \<noteq> 0 \<Longrightarrow> last_entry (es @ [(ino, name)]) n = (if n = name then Some ino else last_entry es n)"
  by (simp add: last_entry_def live_entries_def)

text \<open>(C14) A directory block is a list of entries: looking a name up gives the inode of its last entry;
  adding an entry to a block without removed entries appends it, and its name is then found, or the
  block is full; removing an inode marks its first entry as removed, so that exactly this entry is no
  longer listed.\<close>

theorem dir_block_refines_list:
  assumes "dir_wf es" "good_name name" "ino \<noteq> 0"
  shows "find_entry (dir_block es) (of_nat BLOCK_SIZE) n = last_entry es n \<and>
    dirent_foreach (dir_block es) (of_nat BLOCK_SIZE) = live_entries es \<and>
    ((\<forall>e \<in> set es. fst e \<noteq> 0) \<longrightarrow>
       (if used_bytes es + dirent_size (ino, name) \<le> 4096
        then write_entry_raw (dir_block es) ino name = Inr (dir_block (es @ [(ino, name)])) \<and>
             find_entry (dir_block (es @ [(ino, name)])) (of_nat BLOCK_SIZE) n =
               (if n = name then Some ino else last_entry es n)
        else write_entry_raw (dir_block es) ino name = Inl (Other ''Directory block full''))) \<and>
    remove_entry_raw (dir_block es) (of_nat BLOCK_SIZE) ino = (ino \<in> fst ` set es, dir_block (kill_entry ino es)) \<and>
    dirent_foreach (dir_block (kill_entry ino es)) (of_nat BLOCK_SIZE) =
      (case find (\<lambda>e. fst e = ino) es of None \<Rightarrow> live_entries es | Some e \<Rightarrow> remove1 e (live_entries es))"
proof -
  have wf': "dir_wf (es @ [(ino, name)])" if "used_bytes es + dirent_size (ino, name) \<le> 4096"
    using assms that by (simp add: dir_wf_def used_bytes_append) (simp add: used_bytes_def)
  have "remove_entry_raw (dir_block es) (of_nat BLOCK_SIZE) ino = (ino \<in> fst ` set es, dir_block (kill_entry ino es))"
    using remove_entry_run [of "dir_block es" "[]" es "4096 - used_bytes es" ino] length_dir_block [of es] assms
    by (simp add: remove_entry_raw_def dir_wf_def dir_block_def BLOCK_SIZE_def)
  then show ?thesis
    using assms wf' write_entry_run [OF assms(1) _ assms(2), of ino]
    by (simp add: find_entry_run dirent_foreach_run last_entry_snoc kill_wf live_kill)
qed

theorem dir_block_refines_list_witness:
  "find_entry (dir_block [(1, ''.''), (3, ''b'')]) (of_nat BLOCK_SIZE) ''b'' = last_entry [(1, ''.''), (3, ''b'')] ''b'' \<and>
   write_entry_raw (dir_block [(1, ''.''), (3, ''b'')]) 7 ''c'' = Inr (dir_block [(1, ''.''), (3, ''b''), (7, ''c'')])"
proof -
  have "dir_wf [(1, ''.''), (3, ''b'')]" "good_name ''c''"
    by (simp_all add: dir_wf_def good_name_def str_bytes_def used_bytes_def dirent_size_def entry_size_of_def)
  from dir_block_refines_list [OF this, of 7 "''b''"] show ?thesis
    by (simp add: used_bytes_def dirent_size_def entry_size_of_def)
qed

section \<open>Where it goes wrong\<close>

text \<open>A removed entry is reused without a look at its size: adding a longer name in its place writes over
  the entry that follows, which is then no longer found.\<close>

theorem longer_name_destroys_next_entry:
  "\<exists>buf. write_entry_raw (dir_block [(1, ''.''), (0, ''a''), (3, ''b'')]) 7 ''longname'' = Inr buf \<and>
     find_entry (dir_block [(1, ''.''), (0, ''a''), (3, ''b'')]) (of_nat BLOCK_SIZE) ''b'' = Some 3 \<and>
     find_entry buf (of_nat BLOCK_SIZE) ''longname'' = Some 7 \<and> find_entry buf (of_nat BLOCK_SIZE) ''b'' = None"
proof -
  let ?es = "[(1, ''.''), (0, ''a''), (3, ''b'')] :: (u32 \<times> string) list"
  let ?dot = "enc_dirent (1, ''.'')" and ?a = "enc_dirent (0, ''a'')" and ?b = "enc_dirent (3, ''b'')"
  let ?z = "replicate 4060 0 :: bytes"
  have good: "good_name ''.''" "good_name ''a''" "good_name ''longname''" "good_name ''b''"
    by (simp_all add: good_name_def str_bytes_def)
  have size: "dirent_size (i, ''.'') = 12" "dirent_size (i, ''a'') = 12" "dirent_size (i, ''b'') = 12"
    "dirent_size (i, ''longname'') = 16" for i by (simp_all add: dirent_size_def entry_size_of_def)
  have used: "used_bytes ?es = 36" by (simp add: used_bytes_def size)
  have wf: "dir_wf ?es" using good used by (simp add: dir_wf_def)
  have blk: "dir_block ?es = [] @ ?dot @ (?a @ ?b @ ?z)" "dir_block ?es = ?dot @ ?a @ (?b @ ?z)"
    by (simp_all add: dir_block_def used)
  note f1 = entry_fields [OF good(1) blk(1)] and f2 = entry_fields [OF good(2) blk(2)]
  have "(le_at (dir_block ?es) 12 4 :: u32) = 0" using f2(1) size(1) by simp
  then have s12: "entry_slot (dir_block ?es) 16 12 = Some 12" by (subst entry_slot.simps) (simp add: BLOCK_SIZE_def)
  have "(le_at (dir_block ?es) 0 4 :: u32) = 1" "unat (le_at (dir_block ?es) 6 2 :: u16) = 12"
    using f1(1,3) size(1) by simp_all
  then have slot: "entry_slot (dir_block ?es) 16 0 = Some 12"
    by (subst entry_slot.simps) (simp add: BLOCK_SIZE_def Let_def s12)
  let ?tail = "[1, 0, 12, 0, 0x62, 0, 0, 0] @ ?z :: bytes"
  have tail: "drop 4 ?b = [1, 0, 12, 0, 0x62, 0, 0, 0]"
    by (simp add: enc_dirent_def le_bytes_def str_bytes_def entry_size_of_def upt_rec) (simp add: numeral_3_eq_3)
  define buf where "buf = ?dot @ enc_dirent (7, ''longname'') @ ?tail"
  have "write_entry_raw (dir_block ?es) 7 ''longname'' =
      Inr (put_bytes (dir_block ?es) 12 (enc_dirent (7, ''longname'')))"
    using slot by (simp add: write_entry_raw_def Let_def enc_dirent_def entry_size_of_def)
  also have "put_bytes (dir_block ?es) 12 (enc_dirent (7, ''longname'')) = buf"
    using size tail by (simp add: blk(2) put_bytes_def buf_def)
  finally have w: "write_entry_raw (dir_block ?es) 7 ''longname'' = Inr buf" .
  have len: "length buf = 4096" by (simp add: buf_def size)
  have "(le_at buf 34 2 :: u16) = 0" by (simp add: buf_def le_at_def size slice_skip) (simp add: slice_def)
  then have d28: "dirents buf 4096 28 = []" by (subst dirents.simps) simp
  have d12: "dirents buf 4096 12 = [(7, ''longname'')]"
    using dirents_step [OF good(3) buf_def len] d28 size by simp
  have "buf = [] @ ?dot @ (enc_dirent (7, ''longname'') @ ?tail)" by (simp add: buf_def)
  from dirents_step [OF good(1) this len] have "dirents buf 4096 0 = [(1, ''.''), (7, ''longname'')]"
    using d12 size by simp
  then have "find_entry buf (of_nat BLOCK_SIZE) n = (if n = ''longname'' then Some 7 else if n = ''.'' then Some 1 else None)" for n
    by (simp add: find_entry_def dirent_foreach_def BLOCK_SIZE_def)
  moreover have "find_entry (dir_block ?es) (of_nat BLOCK_SIZE) ''b'' = Some 3"
    using find_entry_run [OF wf] by (simp add: last_entry_def live_entries_def)
  ultimately show ?thesis using w by (intro exI [of _ buf]) simp
qed

section \<open>Allocating an inode\<close>

text \<open>The first byte of a slot, which \<open>inode_find_free\<close> looks at, is the low byte of the checksum.\<close>

definition slot_mark :: "('d \<Rightarrow> nat \<Rightarrow> bytes) \<Rightarrow> 'd \<Rightarrow> nat \<Rightarrow> u8" where
  "slot_mark sec d j = blk sec d 3 ! (j * 136)"

lemma slot_index: "j < 32 \<Longrightarrow> unat ((of_nat j :: u32) * 136) = j * 136"
proof -
  assume j: "j < 32"
  then have "unat (of_nat j :: u32) = j" by (intro unat_of_nat_small) simp
  then show ?thesis using j by (subst unat_mult_nowrap) simp_all
qed

lemma inode_free_from_run:
  assumes len: "length buf = 4096" and k: "j \<le> k" "k \<le> 30" and used: "\<forall>i. j \<le> i \<and> i < k \<longrightarrow> buf ! (i * 136) \<noteq> 0"
  shows "inode_free_from buf 32 136 (of_nat j) = inode_free_from buf 32 136 (of_nat k)"
  using k(1) used
proof (induction "k - j" arbitrary: j)
  case (Suc m)
  then have jk: "j < k" "j < 30" using k(2) by auto
  have lt: "(of_nat j :: u32) < 32" using jk(2) by (simp add: word_less_nat_alt unat_of_nat_small)
  have "unat ((of_nat j :: u32) * 136) < 4096" using slot_index [of j] jk by simp
  then have "inode_free_from buf 32 136 (of_nat j) = inode_free_from buf 32 136 (of_nat j + 1)"
    using lt len Suc.prems(2) jk slot_index [of j] by (subst inode_free_from.simps) simp
  also have "(of_nat j + 1 :: u32) = of_nat (Suc j)" by simp
  also have "inode_free_from buf 32 136 (of_nat (Suc j)) = inode_free_from buf 32 136 (of_nat k)"
    using Suc.hyps(2) Suc.prems jk by (intro Suc.hyps(1)) auto
  finally show ?case .
qed simp

lemma find_free_run:
  assumes len: "length buf = 4096"
  shows "inode_find_free buf INODE_COUNT (of_nat INODE_SIZE) 1 =
    (case List.find (\<lambda>j. buf ! (j * 136) = 0) [1..<30] of
       Some k \<Rightarrow> Some (Some (of_nat k))
     | None \<Rightarrow> if buf ! 4080 = 0 then Some (Some 30) else None)"
proof (cases "List.find (\<lambda>j. buf ! (j * 136) = 0) [1..<30]")
  case None
  then have "\<forall>j. 1 \<le> j \<and> j < 30 \<longrightarrow> buf ! (j * 136) \<noteq> 0" by (simp add: find_None_iff)
  then have "inode_free_from buf 32 136 1 = inode_free_from buf 32 136 30"
    using inode_free_from_run [OF len, of 1 30] by simp
  also have "\<dots> = (if buf ! 4080 = 0 then Some 30 else inode_free_from buf 32 136 31)"
    using len by (subst inode_free_from.simps) simp
  also have "inode_free_from buf 32 136 31 = None"
    using len by (subst inode_free_from.simps) simp
  finally show ?thesis
    using None by (simp add: inode_find_free_def zig_inode_find_free_def INODE_COUNT_def INODE_SIZE_def none_if_max_def)
next
  case (Some k)
  then obtain i where i: "i < 29" "buf ! ((1 + i) * 136) = 0" "k = 1 + i" "\<forall>j < i. buf ! ((1 + j) * 136) \<noteq> 0"
    by (auto simp: find_Some_iff)
  have used: "\<forall>j. 1 \<le> j \<and> j < k \<longrightarrow> buf ! (j * 136) \<noteq> 0"
  proof (intro allI impI)
    fix j assume j: "1 \<le> j \<and> j < k"
    then have "j - 1 < i" using i(3) by linarith
    then show "buf ! (j * 136) \<noteq> 0" using j spec [OF i(4), of "j - 1"] by simp
  qed
  have k: "1 \<le> k" "k \<le> 30" "k < 32" using i by auto
  have u: "unat (of_nat k :: u32) = k" using k by (intro unat_of_nat_small) simp
  have lt: "(of_nat k :: u32) < 32" using k(3) u by (simp add: word_less_nat_alt)
  have "inode_free_from buf 32 136 1 = inode_free_from buf 32 136 (of_nat k)"
    using inode_free_from_run [OF len k(1,2) used] by simp
  also have "\<dots> = Some (of_nat k)"
    using len lt i(1-3) slot_index [OF k(3)] by (subst inode_free_from.simps) simp
  finally have "inode_free_from buf 32 136 1 = Some (of_nat k)" .
  moreover have "(of_nat k :: u32) \<noteq> 0xFFFFFFFF" using lt by auto
  ultimately show ?thesis
    using Some by (simp add: inode_find_free_def zig_inode_find_free_def INODE_COUNT_def INODE_SIZE_def none_if_max_def)
qed

text \<open>(C19) Allocation of an inode takes the first of the slots 1 to 29 whose first byte, the low byte of the
  checksum, is zero, and overwrites it with a new inode, also when it holds a valid one with such a
  checksum; every other slot and block stays.  When no such slot is left it does not answer that there
  are no free inodes but accesses memory past the inode table.\<close>

theorem alloc_inode_slots:
  assumes "sector_store ops sec n" "disk_ok n (sb s)"
  shows "case List.find (\<lambda>j. slot_mark sec (device s) j = 0) [1..<30] of
      None \<Rightarrow> alloc_inode ops mode s = None
    | Some k \<Rightarrow> \<exists>s'. alloc_inode ops mode s = Some (Inr (of_nat k), s') \<and> same_disk (sb s) (sb s') \<and>
        inode_slot sec (device s') (of_nat k) = inode_bytes (new_inode mode (ucast (uptime_secs ops (device s)))) \<and>
        (\<forall>j < 30. j \<noteq> of_nat k \<longrightarrow> inode_slot sec (device s') j = inode_slot sec (device s) j) \<and>
        (\<forall>b. b \<noteq> 3 \<longrightarrow> blk sec (device s') b = blk sec (device s) b)"
proof -
  let ?t = "blk sec (device s) 3" and ?i = "new_inode mode (ucast (uptime_secs ops (device s)))"
  have lt: "length ?t = 4096" by (rule length_blk [OF assms(1)])
  have r: "read_block ops INODE_TABLE_BLOCK s = Some (Inr ?t, s)"
    using read_block_run [OF assms(1), of 3 s] assms(2) by (simp add: INODE_TABLE_BLOCK_def disk_ok_def)
  have mark: "slot_mark sec (device s) j = ?t ! (j * 136)" for j by (simp add: slot_mark_def)
  note find = find_free_run [OF lt, folded mark]
  show ?thesis
  proof (cases "List.find (\<lambda>j. slot_mark sec (device s) j = 0) [1..<30]")
    case None
    then have "alloc_inode ops mode s = None"
      using find r by (simp add: alloc_inode_def now_secs_def Let_def INODE_SIZE_def BLOCK_SIZE_def)
    then show ?thesis using None by simp
  next
    case (Some k)
    then have k: "1 \<le> k" "k < 30" by (auto simp: find_Some_iff)
    have uk: "unat (of_nat k :: u32) = k" using k by (intro unat_of_nat_small) simp
    have k30: "(of_nat k :: u32) < 30" using k uk by (simp add: word_less_nat_alt)
    have wf: "inode_wf (?i\<lparr>i_checksum := 0\<rparr>)" by (simp add: new_inode_def inode_wf_def Let_def)
    have i: "?i = ?i\<lparr>i_checksum := 0, i_checksum := calculate_inode_checksum (?i\<lparr>i_checksum := 0\<rparr>)\<rparr>"
      by (simp add: new_inode_def Let_def checksum_irrelevant)
    obtain d' where w: "write_inode ops (of_nat k) (?i\<lparr>i_checksum := 0\<rparr>) s = Some (Inr (), s\<lparr>device := d'\<rparr>)"
      "\<forall>b. b \<noteq> 3 \<longrightarrow> blk sec d' b = blk sec (device s) b" "inode_slot sec d' (of_nat k) = inode_bytes ?i"
      "\<forall>j < 30. j \<noteq> of_nat k \<longrightarrow> inode_slot sec d' j = inode_slot sec (device s) j"
      by (rule write_inode_run [OF assms k30 wf, folded i])
    have wb: "write_block ops INODE_TABLE_BLOCK (put_bytes ?t (k * 136) (inode_bytes ?i)) s = Some (Inr (), s\<lparr>device := d'\<rparr>)"
      using w(1) r k uk slot_bounds [OF k30] i by (simp add: write_inode_def Let_def INODE_SIZE_def BLOCK_SIZE_def)
    have fit: "k * 136 + 136 \<le> 4096" using slot_bounds [OF k30] uk by simp
    let ?s = "s\<lparr>device := d', sb := (sb s)\<lparr>free_inodes := saturating_sub (free_inodes (sb s)) 1\<rparr>\<rparr>"
    have "alloc_inode ops mode s = Some (Inr (of_nat k), ?s)"
      using find r Some wb uk fit by (simp add: alloc_inode_def now_secs_def Let_def INODE_SIZE_def BLOCK_SIZE_def)
    then show ?thesis using Some w(2-4) by (intro option.case_eq_if [THEN iffD2]) auto
  qed
qed

theorem alloc_inode_slots_witness:
  "slot_mark mem_sec (device sample_fs) 1 = 0 \<and>
   (\<exists>s'. alloc_inode mem_disk INODE_MODE_DIR sample_fs = Some (Inr 1, s') \<and>
      inode_slot mem_sec (device s') 1 = inode_bytes (new_inode INODE_MODE_DIR 0))"
proof -
  have "136 < length zero_block" "272 + length (inode_bytes sample_file) \<le> length zero_block"
    by (simp_all add: length_inode_bytes sample_file_def new_inode_def inode_wf_def Let_def)
  then have "put_bytes zero_block 272 (inode_bytes sample_file) ! 136 = 0"
    by (simp add: nth_put_bytes) (simp add: zero_block_def BLOCK_SIZE_def)
  then have m: "slot_mark mem_sec (device sample_fs) 1 = 0"
    by (simp add: slot_mark_def sample_blk sample_blocks_def)
  have "[1..<30] = (1 :: nat) # [2..<30]" by (simp add: upt_conv_Cons)
  then have "List.find (\<lambda>j. slot_mark mem_sec (device sample_fs) j = 0) [1..<30] = Some 1" using m by simp
  then show ?thesis
    using m alloc_inode_slots [OF mem_disk_store sample_disk_ok, of INODE_MODE_DIR] by (auto simp: mem_disk_def)
qed

end
