(* ===== verification/Spec2Isabelle.thy ===== *)
theory Spec2Isabelle
  imports Ziqa_Ipc Ziqa_Revocation Ziqa_Sched_Life Ziqa_Bpf_Props Ziqa_Vfs_List Ziqa_Scheme Ziqa_Pagecache Ziqa_Buddy
    Ziqa_Wasm_Limits Ziqa_Zfs_Dir
begin

text \<open>
  A verification development for ZiqaKernel, the Rust kernel under \<open>src/src\<close> and its memory crate
  under \<open>src/third_party/rmm\<close>.  It models the parts of the kernel whose behaviour is decided by
  their own code: scheduling, capabilities, signals, channels, descriptors, address-space areas,
  the eBPF and WebAssembly machines, the file tree, the on-disk file system, blocking, pipes, caches
  and frame allocation.

  \<^bold>\<open>How the program is modelled.\<close>  A struct is a record, an enum a datatype, a method a function on
  the record that returns the changed record.  Machine integers keep their width and wrap, as in
  the release profile of the kernel; a \<open>usize\<close> that only counts or indexes elements in memory is a
  natural number.  \<open>Result\<close> is a sum with the error on the left, \<open>Option\<close> is \<open>option\<close>; where the
  code can also panic, meet undefined behaviour or wait for itself, the outcome is an \<open>option\<close> whose
  \<open>None\<close> is that case (in the WebAssembly theories the type \<open>run\<close> has a constructor for each).
  Locks that are taken and released within one operation leave no trace; \<open>Arc\<close> sharing is a store
  from references to objects.  Hardware, user memory, third-party crates and the log are arguments.

  \<^bold>\<open>The theories.\<close>
  \<^item> \<open>Ziqa_Prelude\<close>: machine integers, the arithmetic of the Rust library, byte buffers, rings.
    \<open>Ziqa_Fifo\<close>: the contract of a queue and of a bounded queue (locales \<open>fifo\<close>, \<open>bounded_fifo\<close>) with
    the lemmas on sequences of sends and receives; interpreted by the channel ring, by the channels
    of the IPC system, by the wait queue and by the pipe.  \<open>Ziqa_BTree\<close>: \<open>BTreeMap\<close> and \<open>BTreeSet\<close>
    as sorted lists with the locale \<open>kv_map\<close>.
  \<^item> \<open>Ziqa_Ipc\<close>: \<open>ipc/mod.rs\<close>.  The ring refines a bounded queue, channels are isolated, a round
    trip through the system is the identity up to truncation.
  \<^item> \<open>Ziqa_Capability\<close>, \<open>Ziqa_Revocation\<close>: \<open>capability/mod.rs\<close>.  Global revocation ends and removes
    exactly the descendants of a token; a token granted under its own identifier makes it diverge.
  \<^item> \<open>Ziqa_Signal\<close>: \<open>process/signal.rs\<close>, \<open>ipc/signal.rs\<close>.  Order of delivery; SIGKILL and SIGSTOP.
  \<^item> \<open>Ziqa_Vma\<close>: \<open>process/vma.rs\<close>.  Gap search and insertion keep areas sorted and disjoint.
  \<^item> \<open>Ziqa_Process\<close>: \<open>process/mod.rs\<close> and the plugin registry of \<open>abi/mod.rs\<close>.
  \<^item> \<open>Ziqa_Scheduler\<close>, \<open>Ziqa_Sched_Inv\<close>, \<open>Ziqa_Sched_Steps\<close>, \<open>Ziqa_Sched_Props\<close>, \<open>Ziqa_Sched_Life\<close>:
    \<open>process/scheduler.rs\<close> and the per-CPU variables of \<open>arch/x86_64/per_cpu.rs\<close>.  The operations are
    functions on one state; \<open>Ziqa_Sched_Steps\<close> makes them an inductive step relation whose reachable
    states satisfy the invariant.  Bounded waiting, the effect of a switch, fork, exit, join, reap.
  \<^item> \<open>Ziqa_Bpf_Map\<close>, \<open>Ziqa_Bpf_Vm\<close>, \<open>Ziqa_Bpf_Props\<close>: \<open>ebpf/\<close>.  Maps refine partial maps, attached
    programs write only the machine's stack, what the verifier guarantees and what it misses.
  \<^item> \<open>Ziqa_Path\<close>, \<open>Ziqa_Vfs\<close>, \<open>Ziqa_Vfs_Tree\<close>, \<open>Ziqa_Vfs_Ops\<close>, \<open>Ziqa_Vfs_Props\<close>, \<open>Ziqa_Vfs_List\<close>:
    \<open>fs/mod.rs\<close>, \<open>fs/ramfs.rs\<close>, \<open>fs/vfs.rs\<close>.  The node store refines a map from lists of names to
    entries; locale \<open>file_object\<close> is the file interface, interpreted by RAM files.
  \<^item> \<open>Ziqa_Sync\<close>: \<open>sync/\<close> over the scheduler.  \<open>Ziqa_Scheme\<close>: \<open>scheme/mod.rs\<close>, \<open>scheme/pipe.rs\<close>.
  \<^item> \<open>Ziqa_Pagecache\<close>: \<open>fs/pagecache.rs\<close>.  \<open>Ziqa_Buddy\<close>: the frame allocators of rmm and
    \<open>memory/frame_allocator.rs\<close>.
  \<^item> \<open>Ziqa_Wasm\<close>, \<open>Ziqa_Wasm_Exec\<close>, \<open>Ziqa_Wasm_Props\<close>, \<open>Ziqa_Wasm_Struct\<close>, \<open>Ziqa_Wasm_Limits\<close>:
    \<open>abi/wasm/mod.rs\<close>.  LEB128 against its arithmetic meaning, structured code against a reference
    semantics, termination of the parser.
  \<^item> \<open>Ziqa_Kernel_Ops\<close>: \<open>zig/kernel_ops.zig\<close> and its wrappers in \<open>zig_kernel_ops.rs\<close>.  The table-driven
    CRC-32 is the bit-serial one and detects every change within four bytes; the bitmap search.
  \<^item> \<open>Ziqa_Zfs\<close>, \<open>Ziqa_Zfs_File\<close>: \<open>fs/ziqafs/\<close>, in the order of its files: types and their layout, blocks
    and bitmap, inodes; directories, files, journal, fsck, format and mount, the adapter to the file
    tree.  An operation maps the state (device and superblock) to a result and a state; the block
    device is a parameter.  \<open>Ziqa_Zfs_Disk\<close>: the lower layers on a device that keeps what is written
    (\<open>sector_store\<close>), damage to an inode is detected.  \<open>Ziqa_Zfs_Props\<close>: a file in direct blocks is an
    array of bytes; writing and reading it.  \<open>Ziqa_Zfs_Dir\<close>: directory blocks as lists of entries, and
    where the reuse of entries and the allocation of inodes go wrong.

  \<^bold>\<open>How the parts interact.\<close>  Revocation runs over the process table of the scheduler; the blocking
  primitives call block, wake and schedule of the scheduler model; the file tree checks
  capabilities of the calling process; pipes are reached through the scheme registry and the file
  tree; the WebAssembly entry point runs in the current process and ends it through the scheduler;
  the on-disk file system uses the buffer operations and mounts its files in the file tree.

  \<^bold>\<open>Bounds and fuel.\<close>  The eBPF machine has the code's own limit of a million instructions.  The
  descendant search of revocation and the recursive listing of the file tree may run forever in the
  code and are \<open>partial_function (option)\<close>; that they end is proved under the stated invariants.
  The WebAssembly searches for a block end have fuel for one round per byte of code, which is enough
  as every round advances; the section loop and the interpreter take their fuel as an argument:
  one round per byte of the module is enough for the former unless a length wraps around, and for
  structured code the number of rounds the interpreter needs is given exactly.  The recursion of
  \<open>du\<close> and \<open>enumerate_dir\<close> over directories takes its depth as fuel, since a directory moved into
  itself makes it endless; every other loop of the file system terminates.  The theorems on reading
  and writing files are for the ten direct blocks, and those on inodes for the 30 slots that lie
  in the inode table.

  \<^bold>\<open>Not modelled.\<close>  Code whose meaning is that of the hardware or of raw memory it touches: device
  drivers, architecture code, page tables (\<open>memory/paging.rs\<close>, rmm's mapper), swap and compression,
  process snapshots, shared-memory rings, boot.  Code that is a wrapper around a third-party crate:
  networking.  System-call entry (\<open>abi/syscall.rs\<close>, \<open>abi/linux\<close>, \<open>abi/redox.rs\<close>), which decodes
  user pointers and calls the components above.  Schemes that are adapters to devices.  Interactive
  programs: shell, editor, games, the compositor.  FAT32.  Tests and benchmarks.  Of the modelled
  parts: more than one processor, the text of log output, and the depth of the kernel stack.
\<close>

end
